(* ===== verification/Prelude.thy ===== *)
theory Prelude
  imports Main "HOL-Library.Word" "HOL-Library.Char_ord"
begin

unbundle bit_operations_syntax

text \<open>
  What the components of the model share: the machine-integer types of the C++ sources,
  the exceptions they throw and the result type that carries them, the loop over a
  container whose body may throw, and the generic lemmas on words, lists and results
  that the component proofs use.
\<close>

section \<open>Machine integers\<close>

text \<open>
  An unsigned integer of the sources is a word of its width; \<open>+\<close>, \<open>-\<close> and \<open>*\<close> wrap
  around as they do in C++. An \<open>int64_t\<close> is a 64-bit word read with \<^const>\<open>sint\<close> and compared
  with the signed orders. A widening or a narrowing conversion of an unsigned
  value is \<^const>\<open>ucast\<close>.
\<close>

type_synonym u8 = "8 word"
type_synonym u16 = "16 word"
type_synonym u32 = "32 word"
type_synonym u64 = "64 word"
type_synonym u128 = "128 word"
type_synonym i64 = "64 word"

section \<open>Exceptions and results\<close>

text \<open>
  The exception classes of \<^verbatim>\<open>exceptions.hpp\<close> that the modelled code throws, under the
  names the source gives them, each identified by its name; \<open>row_not_found\<close> and \<open>uniqueness_violated\<close> are what a lookup
  and an insertion of the database throw, \<open>arithmetic_trap\<close> is the trap of an integer
  division by zero, which ends the process, and \<open>undefined_behavior\<close> is what the C++ standard leaves
  open, such as reading past the end of a
  container; \<open>bad_variant_access\<close> is what \<^verbatim>\<open>std::get\<close> of a variant throws, and \<open>no_return\<close> stands for a loop that does not end. A call that may throw returns a result: \<^const>\<open>Inl\<close> of the
  exception, or \<^const>\<open>Inr\<close> of the value (and of the new state where the call changes one).
\<close>

datatype exn = exception_class string

abbreviation name_type_exception :: exn where
  "name_type_exception \<equiv> exception_class ''name_type_exception''"

abbreviation symbol_type_exception :: exn where
  "symbol_type_exception \<equiv> exception_class ''symbol_type_exception''"

abbreviation asset_type_exception :: exn where
  "asset_type_exception \<equiv> exception_class ''asset_type_exception''"

abbreviation overflow_exception :: exn where
  "overflow_exception \<equiv> exception_class ''overflow_exception''"

abbreviation resource_limit_exception :: exn where
  "resource_limit_exception \<equiv> exception_class ''resource_limit_exception''"

abbreviation rate_limiting_state_inconsistent :: exn where
  "rate_limiting_state_inconsistent \<equiv> exception_class ''rate_limiting_state_inconsistent''"

abbreviation transaction_exception :: exn where
  "transaction_exception \<equiv> exception_class ''transaction_exception''"

abbreviation tx_cpu_usage_exceeded :: exn where
  "tx_cpu_usage_exceeded \<equiv> exception_class ''tx_cpu_usage_exceeded''"

abbreviation tx_net_usage_exceeded :: exn where
  "tx_net_usage_exceeded \<equiv> exception_class ''tx_net_usage_exceeded''"

abbreviation ram_usage_exceeded :: exn where
  "ram_usage_exceeded \<equiv> exception_class ''ram_usage_exceeded''"

abbreviation block_resource_exhausted :: exn where
  "block_resource_exhausted \<equiv> exception_class ''block_resource_exhausted''"

abbreviation tx_resource_exhaustion :: exn where
  "tx_resource_exhaustion \<equiv> exception_class ''tx_resource_exhaustion''"

abbreviation database_exception :: exn where
  "database_exception \<equiv> exception_class ''database_exception''"

abbreviation row_not_found :: exn where
  "row_not_found \<equiv> exception_class ''row_not_found''"

abbreviation uniqueness_violated :: exn where
  "uniqueness_violated \<equiv> exception_class ''uniqueness_violated''"

abbreviation arithmetic_trap :: exn where
  "arithmetic_trap \<equiv> exception_class ''arithmetic_trap''"

abbreviation undefined_behavior :: exn where
  "undefined_behavior \<equiv> exception_class ''undefined_behavior''"

abbreviation chain_type_exception :: exn where
  "chain_type_exception \<equiv> exception_class ''chain_type_exception''"

abbreviation authority_type_exception :: exn where
  "authority_type_exception \<equiv> exception_class ''authority_type_exception''"

abbreviation fork_database_exception :: exn where
  "fork_database_exception \<equiv> exception_class ''fork_database_exception''"

abbreviation fork_db_block_not_found :: exn where
  "fork_db_block_not_found \<equiv> exception_class ''fork_db_block_not_found''"

abbreviation block_validate_exception :: exn where
  "block_validate_exception \<equiv> exception_class ''block_validate_exception''"

abbreviation unlinkable_block_exception :: exn where
  "unlinkable_block_exception \<equiv> exception_class ''unlinkable_block_exception''"

abbreviation block_too_old_exception :: exn where
  "block_too_old_exception \<equiv> exception_class ''block_too_old_exception''"

abbreviation block_from_the_future :: exn where
  "block_from_the_future \<equiv> exception_class ''block_from_the_future''"

abbreviation wrong_signing_key :: exn where
  "wrong_signing_key \<equiv> exception_class ''wrong_signing_key''"

abbreviation wrong_producer :: exn where
  "wrong_producer \<equiv> exception_class ''wrong_producer''"

abbreviation invalid_block_header_extension :: exn where
  "invalid_block_header_extension \<equiv> exception_class ''invalid_block_header_extension''"

abbreviation ill_formed_protocol_feature_activation :: exn where
  "ill_formed_protocol_feature_activation \<equiv> exception_class ''ill_formed_protocol_feature_activation''"

abbreviation invalid_block_extension :: exn where
  "invalid_block_extension \<equiv> exception_class ''invalid_block_extension''"

abbreviation ill_formed_additional_block_signatures_extension :: exn where
  "ill_formed_additional_block_signatures_extension \<equiv> exception_class ''ill_formed_additional_block_signatures_extension''"

abbreviation tx_no_action :: exn where
  "tx_no_action \<equiv> exception_class ''tx_no_action''"

abbreviation tx_no_auths :: exn where
  "tx_no_auths \<equiv> exception_class ''tx_no_auths''"

abbreviation expired_tx_exception :: exn where
  "expired_tx_exception \<equiv> exception_class ''expired_tx_exception''"

abbreviation tx_duplicate :: exn where
  "tx_duplicate \<equiv> exception_class ''tx_duplicate''"

abbreviation invalid_transaction_extension :: exn where
  "invalid_transaction_extension \<equiv> exception_class ''invalid_transaction_extension''"

abbreviation ill_formed_deferred_transaction_generation_context :: exn where
  "ill_formed_deferred_transaction_generation_context \<equiv> exception_class ''ill_formed_deferred_transaction_generation_context''"

abbreviation action_validate_exception :: exn where
  "action_validate_exception \<equiv> exception_class ''action_validate_exception''"

abbreviation permission_query_exception :: exn where
  "permission_query_exception \<equiv> exception_class ''permission_query_exception''"

abbreviation account_query_exception :: exn where
  "account_query_exception \<equiv> exception_class ''account_query_exception''"

abbreviation authorization_exception :: exn where
  "authorization_exception \<equiv> exception_class ''authorization_exception''"

abbreviation missing_auth_exception :: exn where
  "missing_auth_exception \<equiv> exception_class ''missing_auth_exception''"

abbreviation irrelevant_auth_exception :: exn where
  "irrelevant_auth_exception \<equiv> exception_class ''irrelevant_auth_exception''"

abbreviation unsatisfied_authorization :: exn where
  "unsatisfied_authorization \<equiv> exception_class ''unsatisfied_authorization''"

abbreviation unlinkable_min_permission_action :: exn where
  "unlinkable_min_permission_action \<equiv> exception_class ''unlinkable_min_permission_action''"

abbreviation invalid_parent_permission :: exn where
  "invalid_parent_permission \<equiv> exception_class ''invalid_parent_permission''"

abbreviation no_block_signatures :: exn where
  "no_block_signatures \<equiv> exception_class ''no_block_signatures''"

abbreviation unsupported_multiple_block_signatures :: exn where
  "unsupported_multiple_block_signatures \<equiv> exception_class ''unsupported_multiple_block_signatures''"

abbreviation unknown_block_exception :: exn where
  "unknown_block_exception \<equiv> exception_class ''unknown_block_exception''"

abbreviation insufficient_delay_exception :: exn where
  "insufficient_delay_exception \<equiv> exception_class ''insufficient_delay_exception''"

abbreviation tx_irrelevant_sig :: exn where
  "tx_irrelevant_sig \<equiv> exception_class ''tx_irrelevant_sig''"

abbreviation tx_duplicate_sig :: exn where
  "tx_duplicate_sig \<equiv> exception_class ''tx_duplicate_sig''"

abbreviation invalid_table_iterator :: exn where
  "invalid_table_iterator \<equiv> exception_class ''invalid_table_iterator''"

abbreviation table_not_in_cache :: exn where
  "table_not_in_cache \<equiv> exception_class ''table_not_in_cache''"

abbreviation db_api_exception :: exn where
  "db_api_exception \<equiv> exception_class ''db_api_exception''"

abbreviation table_operation_not_permitted :: exn where
  "table_operation_not_permitted \<equiv> exception_class ''table_operation_not_permitted''"

abbreviation invalid_table_payer :: exn where
  "invalid_table_payer \<equiv> exception_class ''invalid_table_payer''"

abbreviation table_access_violation :: exn where
  "table_access_violation \<equiv> exception_class ''table_access_violation''"

abbreviation invalid_permission :: exn where
  "invalid_permission \<equiv> exception_class ''invalid_permission''"

abbreviation misc_exception :: exn where
  "misc_exception \<equiv> exception_class ''misc_exception''"

abbreviation producer_exception :: exn where
  "producer_exception \<equiv> exception_class ''producer_exception''"

abbreviation producer_schedule_exception :: exn where
  "producer_schedule_exception \<equiv> exception_class ''producer_schedule_exception''"

abbreviation producer_double_confirm :: exn where
  "producer_double_confirm \<equiv> exception_class ''producer_double_confirm''"

abbreviation protocol_feature_exception :: exn where
  "protocol_feature_exception \<equiv> exception_class ''protocol_feature_exception''"

abbreviation protocol_feature_validation_exception :: exn where
  "protocol_feature_validation_exception \<equiv> exception_class ''protocol_feature_validation_exception''"

abbreviation protocol_feature_bad_block_exception :: exn where
  "protocol_feature_bad_block_exception \<equiv> exception_class ''protocol_feature_bad_block_exception''"

abbreviation protocol_feature_iterator_exception :: exn where
  "protocol_feature_iterator_exception \<equiv> exception_class ''protocol_feature_iterator_exception''"

abbreviation fc_assert_exception :: exn where
  "fc_assert_exception \<equiv> exception_class ''fc_assert_exception''"

abbreviation bad_variant_access :: exn where
  "bad_variant_access \<equiv> exception_class ''bad_variant_access''"

abbreviation no_return :: exn where
  "no_return \<equiv> exception_class ''no_return''"

type_synonym 'a res = "exn + 'a"

named_theorems res_simps

text \<open>
  \<^verbatim>\<open>EOS_ASSERT(c, e, \<dots>); k\<close> throws \<open>e\<close> when the condition is false and goes on with
  \<open>k\<close> when it is true.
\<close>

definition eos_assert :: "bool \<Rightarrow> exn \<Rightarrow> 'a res \<Rightarrow> 'a res" where
  "eos_assert c e k = (if c then k else Inl e)"

text \<open>A statement that may throw, followed by the rest of the body.\<close>

definition res_bind :: "'a res \<Rightarrow> ('a \<Rightarrow> 'b res) \<Rightarrow> 'b res" where
  "res_bind r k = (case r of Inl e \<Rightarrow> Inl e | Inr x \<Rightarrow> k x)"

text \<open>An integer division whose divisor is zero does not return.\<close>

definition checked_div :: "'a::len word \<Rightarrow> 'a word \<Rightarrow> 'a word res" where
  "checked_div a b = (if b = 0 then Inl arithmetic_trap else Inr (a div b))"

lemma checked_div_Inr [simp]: "checked_div a b = Inr q \<longleftrightarrow> b \<noteq> 0 \<and> q = a div b"
  by (auto simp: checked_div_def)

lemma eos_assert_True [simp, code_unfold]: "eos_assert True e k = k"
  by (simp add: eos_assert_def)

lemma eos_assert_False [simp, code_unfold]: "eos_assert False e k = Inl e"
  by (simp add: eos_assert_def)

lemma eos_assert_Inr [simp, res_simps]: "eos_assert c e k = Inr x \<longleftrightarrow> c \<and> k = Inr x"
  by (simp add: eos_assert_def)

lemma eos_assert_Inl [res_simps]:
  "eos_assert c e k = Inl e' \<longleftrightarrow> (\<not> c \<and> e' = e) \<or> (c \<and> k = Inl e')"
  by (auto simp: eos_assert_def)

lemma eos_assert_cong [cong, fundef_cong]:
  "c = c' \<Longrightarrow> e = e' \<Longrightarrow> (c' \<Longrightarrow> k = k') \<Longrightarrow> eos_assert c e k = eos_assert c' e' k'"
  by (simp add: eos_assert_def)

lemma res_bind_Inr_left [simp, code_unfold]: "res_bind (Inr x) k = k x"
  by (simp add: res_bind_def)

lemma res_bind_Inl_left [simp, code_unfold]: "res_bind (Inl e) k = Inl e"
  by (simp add: res_bind_def)

lemma res_bind_Inr [simp, res_simps]:
  "res_bind r k = Inr y \<longleftrightarrow> (\<exists>x. r = Inr x \<and> k x = Inr y)"
  by (cases r) simp_all

lemma res_bind_Inl [res_simps]:
  "res_bind r k = Inl e \<longleftrightarrow> r = Inl e \<or> (\<exists>x. r = Inr x \<and> k x = Inl e)"
  by (cases r) auto

lemma res_bind_cong [fundef_cong]:
  "r = r' \<Longrightarrow> (\<And>x. r' = Inr x \<Longrightarrow> k x = k' x) \<Longrightarrow> res_bind r k = res_bind r' k'"
  by (cases r') simp_all

text \<open>The value of a result, with a default in place of an exception, for use in examples.\<close>

definition res_value :: "'a \<Rightarrow> 'a res \<Rightarrow> 'a" where
  "res_value d r = (case r of Inl e \<Rightarrow> d | Inr x \<Rightarrow> x)"

lemma res_value_Inr: "\<not> isl r \<Longrightarrow> r = Inr (res_value d r)"
  by (cases r) (simp_all add: res_value_def)

lemma not_isl_obtain: "\<not> isl r \<Longrightarrow> (\<And>x. r = Inr x \<Longrightarrow> P) \<Longrightarrow> P"
  by (cases r) simp_all

text \<open>
  \<^verbatim>\<open>EOS_RETHROW_EXCEPTIONS\<close>: an exception that is not one of the chain's own becomes the given
  one; the end of the process is not an exception.
\<close>

definition rethrow_exceptions :: "exn \<Rightarrow> 'a res \<Rightarrow> 'a res" where
  "rethrow_exceptions new r =
     (case r of
        Inl e \<Rightarrow> Inl (if e \<in> {bad_variant_access, overflow_exception, fc_assert_exception, row_not_found, uniqueness_violated}
                     then new else e)
      | Inr x \<Rightarrow> Inr x)"

section \<open>Loops over containers\<close>

text \<open>
  The range-based \<^verbatim>\<open>for\<close> over a container, threading the state \<open>s\<close> through a body that
  may throw; the first exception leaves the loop.
\<close>

fun for_each :: "('a \<Rightarrow> 's \<Rightarrow> 's res) \<Rightarrow> 'a list \<Rightarrow> 's \<Rightarrow> 's res" where
  "for_each f [] s = Inr s"
| "for_each f (x # xs) s = res_bind (f x s) (for_each f xs)"

lemma for_each_append:
  "for_each f (xs @ ys) s = res_bind (for_each f xs s) (for_each f ys)"
proof (induction xs arbitrary: s)
  case (Cons x xs)
  then show ?case by (cases "f x s") simp_all
qed simp

lemma for_each_invariant:
  assumes "for_each f xs s = Inr t" and "P s"
    and "\<And>x s s'. x \<in> set xs \<Longrightarrow> P s \<Longrightarrow> f x s = Inr s' \<Longrightarrow> P s'"
  shows "P t"
  using assms
proof (induction xs arbitrary: s)
  case (Cons x xs)
  then obtain s' where "f x s = Inr s'" "for_each f xs s' = Inr t" by auto
  with Cons show ?case by (metis list.set_intros(1,2))
qed simp

section \<open>Words\<close>

named_theorems word_nat

lemma unat_ucast_up:
  fixes x :: "'a::len word"
  assumes "LENGTH('a) \<le> LENGTH('b::len)"
  shows "unat (ucast x :: 'b word) = unat x"
proof -
  have "unat x < 2 ^ LENGTH('a)" by (rule unsigned_less)
  also have "(2::nat) ^ LENGTH('a) \<le> 2 ^ LENGTH('b)" using assms by (simp add: power_increasing)
  finally show ?thesis by (simp add: unsigned_ucast_eq take_bit_nat_eq_self)
qed

lemma unat_ucast_64_128 [word_nat, simp]: "unat (ucast (x :: u64) :: u128) = unat x"
  by (rule unat_ucast_up) simp

lemma unat_ucast_32_128 [word_nat, simp]: "unat (ucast (x :: u32) :: u128) = unat x"
  by (rule unat_ucast_up) simp

lemma unat_ucast_32_64 [word_nat, simp]: "unat (ucast (x :: u32) :: u64) = unat x"
  by (rule unat_ucast_up) simp

lemma unat_ucast_16_32 [word_nat, simp]: "unat (ucast (x :: u16) :: u32) = unat x"
  by (rule unat_ucast_up) simp

lemma unat_add_no_overflow:
  fixes a b :: "'a::len word"
  shows "unat a + unat b < 2 ^ LENGTH('a) \<Longrightarrow> unat (a + b) = unat a + unat b"
  by (simp add: unat_word_ariths)

lemma unat_mult_no_overflow:
  fixes a b :: "'a::len word"
  shows "unat a * unat b < 2 ^ LENGTH('a) \<Longrightarrow> unat (a * b) = unat a * unat b"
  by (simp add: unat_word_ariths)

lemma unat_sub_no_underflow:
  fixes a b :: "'a::len word"
  shows "unat b \<le> unat a \<Longrightarrow> unat (a - b) = unat a - unat b"
  by (metis unat_sub word_le_nat_alt)

lemma unat_max_word: "unat (-1 :: 'a::len word) = 2 ^ LENGTH('a) - 1"
  by (simp add: unsigned_minus_1_eq_mask mask_eq_exp_minus_1)

lemma le_max_div_iff:
  fixes v n :: "'a::len word"
  assumes "n \<noteq> 0"
  shows "v \<le> (-1) div n \<longleftrightarrow> unat v * unat n < 2 ^ LENGTH('a)"
proof -
  have n: "0 < unat n" using assms by (simp add: unat_gt_0)
  have "v \<le> (-1) div n \<longleftrightarrow> unat v \<le> (2 ^ LENGTH('a) - 1) div unat n"
    by (simp add: word_le_nat_alt unat_div_distrib unat_max_word)
  also have "\<dots> \<longleftrightarrow> unat v * unat n \<le> 2 ^ LENGTH('a) - 1"
    using n by (simp add: less_eq_div_iff_mult_less_eq)
  also have "\<dots> \<longleftrightarrow> unat v * unat n < 2 ^ LENGTH('a)"
    by (metis Suc_diff_1 less_Suc_eq_le zero_less_numeral zero_less_power)
  finally show ?thesis .
qed

lemma le_max_minus_iff:
  fixes x c :: "'a::len word"
  shows "x \<le> -1 - c \<longleftrightarrow> unat c + unat x < 2 ^ LENGTH('a)"
proof -
  define M where "M = (2 :: nat) ^ LENGTH('a)"
  have c: "unat c \<le> M - 1" "0 < M"
    using unsigned_less[of c, where ?'a = nat] unfolding M_def by (linarith, simp)
  then have "unat (-1 - c) = M - 1 - unat c"
    by (simp add: unat_sub_no_underflow unat_max_word M_def)
  with c show ?thesis
    unfolding M_def[symmetric] word_le_nat_alt by arith
qed

lemma ex_unat_eq:
  "(\<exists>x :: 'a::len word. unat x = n \<and> P x) \<longleftrightarrow> n < 2 ^ LENGTH('a) \<and> P (of_nat n)"
proof
  assume "\<exists>x :: 'a word. unat x = n \<and> P x"
  then obtain x :: "'a word" where "unat x = n" "P x" by blast
  then show "n < 2 ^ LENGTH('a) \<and> P (of_nat n)"
    using unsigned_less[of x, where ?'a = nat] by auto
next
  assume "n < 2 ^ LENGTH('a) \<and> P (of_nat n)"
  then show "\<exists>x :: 'a word. unat x = n \<and> P x"
    by (intro exI[of _ "of_nat n"]) (simp add: unat_of_nat)
qed

subsection \<open>Signed values\<close>

lemma uint_eq_sint_nonneg: "0 \<le>s (w :: i64) \<Longrightarrow> uint w = sint w"
proof -
  assume "0 \<le>s w"
  then have b: "0 \<le> sint w" "sint w < 2 ^ 64" using sint_lt[of w] by (simp_all add: word_sle_eq)
  have "uint w = uint (word_of_int (sint w) :: i64)" by (simp only: of_int_sint scast_id)
  also have "\<dots> = sint w mod 2 ^ 64" by (simp only: uint_word_of_int) simp
  also have "\<dots> = sint w" by (rule mod_pos_pos_trivial[OF b])
  finally show ?thesis .
qed

lemma unat_scast_nonneg: "0 \<le>s (w :: i64) \<Longrightarrow> unat (scast w :: u128) = unat w"
proof -
  assume w: "0 \<le>s w"
  then have b: "0 \<le> sint w" "sint w < 2 ^ 128" using sint_lt[of w] by (simp_all add: word_sle_eq)
  have "uint (scast w :: u128) = sint w mod 2 ^ 128" by (simp only: scast_eq uint_word_of_int) simp
  also have "\<dots> = uint w" unfolding uint_eq_sint_nonneg[OF w] by (rule mod_pos_pos_trivial[OF b])
  finally show ?thesis by (simp only: unat_eq_nat_uint)
qed

lemma sint_eq_unat: "unat (w :: i64) < 2 ^ 63 \<Longrightarrow> sint w = int (unat w)"
proof -
  assume "unat w < 2 ^ 63"
  then have "int (unat w) < int (2 ^ 63)" by (simp only: of_nat_less_iff)
  then have b: "uint w < 2 ^ 63" by simp
  have "- (2 ^ 63) \<le> (0 :: int)" by simp
  also have "0 \<le> uint w" by simp
  finally have "signed_take_bit 63 (uint w) = uint w" using b by (rule signed_take_bit_int_eq_self)
  then show ?thesis by (simp add: sint_uint)
qed

lemma uint_uminus_neg: "(w :: i64) <s 0 \<Longrightarrow> uint (- w) = - sint w"
proof -
  assume "w <s 0"
  then have b: "0 \<le> - sint w" "- sint w < 2 ^ 64"
    using sint_ge[of w] by (simp_all add: word_sless_alt)
  have "- w = word_of_int (- sint w)" by (simp only: of_int_minus of_int_sint scast_id)
  then have "uint (- w) = (- sint w) mod 2 ^ 64" by (simp only: uint_word_of_int) simp
  also have "\<dots> = - sint w" by (rule mod_pos_pos_trivial[OF b])
  finally show ?thesis .
qed

lemma add_eq_word_of_int: "(u :: u64) + (d :: i64) = word_of_int (int (unat u) + sint d)"
  by simp

end
