(* ===== verification/Names.thy ===== *)
theory Names
  imports Prelude
begin

text \<open>
  Account, action and permission names (\<^verbatim>\<open>libraries/chain/include/eosio/chain/name.hpp\<close> and
  \<^verbatim>\<open>libraries/chain/name.cpp\<close>): the packing of up to 13 characters into 64 bits, the
  printing of a packed name, and the checked constructor.

  \<^verbatim>\<open>boost::algorithm::trim_right_if\<close> belongs to a library outside the repository and is the
  parameter \<open>trim\<close> of the definitions that print a name.
\<close>

section \<open>Definitions\<close>

type_synonym name = u64

definition char_to_symbol :: "char \<Rightarrow> u64" where
  "char_to_symbol c =
     (if CHR ''a'' \<le> c \<and> c \<le> CHR ''z'' then word_of_int ((of_char c - of_char (CHR ''a'')) + 6)
      else if CHR ''1'' \<le> c \<and> c \<le> CHR ''5'' then word_of_int ((of_char c - of_char (CHR ''1'')) + 1)
      else 0)"

function string_to_uint64_loop :: "string \<Rightarrow> nat \<Rightarrow> u64 \<Rightarrow> nat \<times> u64" where
  "string_to_uint64_loop str i n =
     (if i < length str \<and> i < 12
      then string_to_uint64_loop str (Suc i)
             (n OR push_bit (64 - 5 * (i + 1)) (char_to_symbol (str ! i) AND 0x1f))
      else (i, n))"
  by pat_completeness auto
termination
  by (relation "measure (\<lambda>(str, i, n). 12 - i)") auto

definition string_to_uint64_t :: "string \<Rightarrow> u64" where
  "string_to_uint64_t str =
     (case string_to_uint64_loop str 0 0 of (i, n) \<Rightarrow>
        if i < length str \<and> i = 12 then n OR (char_to_symbol (str ! 12) AND 0x0F) else n)"

definition charmap :: string where
  "charmap = ''.12345abcdefghijklmnopqrstuvwxyz''"

fun to_string_step :: "nat \<Rightarrow> u64 \<times> string \<Rightarrow> u64 \<times> string" where
  "to_string_step i (tmp, str) =
     (let c = charmap ! unat (tmp AND (if i = 0 then 0x0f else 0x1f))
      in (drop_bit (if i = 0 then 4 else 5) tmp, str[12 - i := c]))"

definition name_to_string :: "((char \<Rightarrow> bool) \<Rightarrow> string \<Rightarrow> string) \<Rightarrow> name \<Rightarrow> string" where
  "name_to_string trim v =
     (let (tmp, str) = fold to_string_step [0..<13] (v, replicate 13 CHR ''.'')
      in trim (\<lambda>c. c = CHR ''.'') str)"

definition name_set :: "((char \<Rightarrow> bool) \<Rightarrow> string \<Rightarrow> string) \<Rightarrow> string \<Rightarrow> name res" where
  "name_set trim str =
     eos_assert (length str \<le> 13) name_type_exception
       (let v = string_to_uint64_t str
        in eos_assert (name_to_string trim v = str) name_type_exception (Inr v))"

definition name_empty :: "name \<Rightarrow> bool" where
  "name_empty v \<longleftrightarrow> 0 = v"

declare string_to_uint64_loop.simps [simp del]

subsection \<open>Names with a meaning\<close>

definition system_account_name :: name where
  "system_account_name = string_to_uint64_t ''eosio''"

definition active_name :: name where
  "active_name = string_to_uint64_t ''active''"

definition owner_name :: name where
  "owner_name = string_to_uint64_t ''owner''"

definition eosio_any_name :: name where
  "eosio_any_name = string_to_uint64_t ''eosio.any''"

definition eosio_code_name :: name where
  "eosio_code_name = string_to_uint64_t ''eosio.code''"

text \<open>Their numbers, computed once.\<close>

lemmas name_eval = string_to_uint64_t_def string_to_uint64_loop.simps char_to_symbol_def

lemma config_name_values [code]:
  "system_account_name = 6138663577826885632"
  "active_name = 3617214756542218240"
  "owner_name = 12044502819693133824"
  "eosio_any_name = 6138663581382606848"
  "eosio_code_name = 6138663582462279680"
  by (simp_all add: name_eval system_account_name_def active_name_def owner_name_def eosio_any_name_def eosio_code_name_def)

section \<open>Packing\<close>

text \<open>The symbol a string contributes to slot \<open>i\<close>, and the word that slots \<open>0..<k\<close> make.\<close>

definition symbol_at :: "string \<Rightarrow> nat \<Rightarrow> u64" where
  "symbol_at str i = (if i < length str then char_to_symbol (str ! i) else 0)"

fun pack_upto :: "(nat \<Rightarrow> u64) \<Rightarrow> nat \<Rightarrow> u64" where
  "pack_upto f 0 = 0"
| "pack_upto f (Suc i) = pack_upto f i OR push_bit (64 - 5 * (i + 1)) (f i AND 0x1f)"

lemma string_to_uint64_loop_pack: "i \<le> 12 \<Longrightarrow> n = pack_upto (symbol_at str) i \<Longrightarrow> i \<le> length str \<Longrightarrow>
   string_to_uint64_loop str i n = (min 12 (length str), pack_upto (symbol_at str) (min 12 (length str)))"
proof (induction str i n rule: string_to_uint64_loop.induct)
  case (1 str i n)
  then show ?case
    by (cases "i < length str \<and> i < 12")
       (auto simp: string_to_uint64_loop.simps[of str i] symbol_at_def min_def)
qed

lemma pack_upto_zero: "(\<And>j. i \<le> j \<Longrightarrow> j < k \<Longrightarrow> f j = 0) \<Longrightarrow> i \<le> k \<Longrightarrow> pack_upto f k = pack_upto f i"
  by (induction k) (auto simp: le_Suc_eq)

lemma string_to_uint64_t_pack:
  "string_to_uint64_t str = pack_upto (symbol_at str) 12 OR (symbol_at str 12 AND 0x0F)"
proof (cases "12 < length str")
  case True
  with string_to_uint64_loop_pack[of 0 0 str] show ?thesis
    by (simp add: string_to_uint64_t_def symbol_at_def[of _ 12])
next
  case False
  have "pack_upto (symbol_at str) 12 = pack_upto (symbol_at str) (length str)"
    using False by (intro pack_upto_zero) (auto simp: symbol_at_def)
  with False string_to_uint64_loop_pack[of 0 0 str] show ?thesis
    by (simp add: string_to_uint64_t_def symbol_at_def[of _ 12] min_absorb2)
qed


section \<open>Printing\<close>

text \<open>The bits of a packed name that slot \<open>i\<close> holds: five for the first twelve, four for the last.\<close>

definition field_at :: "name \<Rightarrow> nat \<Rightarrow> u64" where
  "field_at v i = (if i = 12 then v AND 0x0f else drop_bit (59 - 5 * i) v AND 0x1f)"



lemma list_update_map_upt:
  assumes "k < n"
  shows "(map (\<lambda>i. if n - k \<le> i then g i else d) [0..<n])[n - 1 - k := g (n - 1 - k)] =
         map (\<lambda>i. if n - Suc k \<le> i then g i else d) [0..<n]"
proof (rule nth_equalityI)
  fix i assume "i < length ((map (\<lambda>i. if n - k \<le> i then g i else d) [0..<n])[n - 1 - k := g (n - 1 - k)])"
  with assms show "(map (\<lambda>i. if n - k \<le> i then g i else d) [0..<n])[n - 1 - k := g (n - 1 - k)] ! i =
     map (\<lambda>i. if n - Suc k \<le> i then g i else d) [0..<n] ! i"
    by (cases "i = n - 1 - k") (auto simp: nth_list_update)
qed simp

lemma to_string_steps_upto: "k \<le> 13 \<Longrightarrow>
   fold to_string_step [0..<k] (v, map (\<lambda>_. CHR ''.'') [0..<13]) =
   (drop_bit (5 * k - 1) v,
    map (\<lambda>i. if 13 - k \<le> i then charmap ! unat (field_at v i) else CHR ''.'') [0..<13])"
proof (induction k)
  case 0
  have "map (\<lambda>_. CHR ''.'') [0..<13] =
    map (\<lambda>i. if 13 - 0 \<le> i then charmap ! unat (field_at v i) else CHR ''.'') [0..<13]"
    by (rule map_cong) simp_all
  then show ?case by simp
next
  case (Suc k)
  then have k: "k \<le> 12" by simp
  have fld: "drop_bit (5 * k - 1) v AND (if k = 0 then 0x0f else 0x1f) = field_at v (12 - k)"
    using k by (auto simp: field_at_def diff_mult_distrib2)
  have nxt: "drop_bit (if k = 0 then 4 else 5) (drop_bit (5 * k - 1) v) = drop_bit (5 * Suc k - 1) v"
    by (auto simp: algebra_simps)

  have "fold to_string_step [0..<Suc k] (v, map (\<lambda>_. CHR ''.'') [0..<13]) =
     to_string_step k (drop_bit (5 * k - 1) v,
       map (\<lambda>i. if 13 - k \<le> i then charmap ! unat (field_at v i) else CHR ''.'') [0..<13])"
    using Suc by simp
  also have "\<dots> = (drop_bit (5 * Suc k - 1) v,
       (map (\<lambda>i. if 13 - k \<le> i then charmap ! unat (field_at v i) else CHR ''.'') [0..<13])
         [12 - k := charmap ! unat (field_at v (12 - k))])"
    by (simp only: to_string_step.simps Let_def fld nxt)
  finally show ?case
    using k list_update_map_upt[of k 13 "\<lambda>i. charmap ! unat (field_at v i)" "CHR ''.''"] by simp
qed

lemma char_to_symbol_charmap: "n < 32 \<Longrightarrow> char_to_symbol (charmap ! n) = of_nat n"
proof -
  have "list_all (\<lambda>n. char_to_symbol (charmap ! n) = of_nat n) [0..<32]"
    by code_simp
  then show "n < 32 \<Longrightarrow> ?thesis" by (simp add: list_all_iff)
qed

lemma charmap_dot: "n < 32 \<Longrightarrow> charmap ! n = CHR ''.'' \<longleftrightarrow> n = 0"
proof -
  have "list_all (\<lambda>n. charmap ! n = CHR ''.'' \<longleftrightarrow> n = 0) [0..<32]"
    by code_simp
  then show "n < 32 \<Longrightarrow> ?thesis" by (simp add: list_all_iff)
qed

lemma and_31: "(x :: 'a::len word) AND 31 = take_bit 5 x"
  by (simp add: take_bit_eq_mask mask_eq_exp_minus_1)

lemma and_15: "(x :: 'a::len word) AND 15 = take_bit 4 x"
  by (simp add: take_bit_eq_mask mask_eq_exp_minus_1)

lemma push_drop_join:
  fixes v :: "'a::len word"
  assumes "k \<le> m"
  shows "push_bit m (drop_bit m v) OR push_bit (m - k) (take_bit k (drop_bit (m - k) v)) =
         push_bit (m - k) (drop_bit (m - k) v)" (is "?l = ?r")
proof (rule bit_word_eqI)
  fix n assume "n < LENGTH('a)"
  with assms show "bit ?l n = bit ?r n" by (cases "m \<le> n") (auto simp: bit_simps)
qed

lemma push_drop_take:
  fixes v :: "'a::len word"
  shows "push_bit m (drop_bit m v) OR take_bit m v = v"
  by (rule bit_word_eqI) (auto simp: bit_simps)

lemma field_at_and: "k < 12 \<Longrightarrow> field_at v k AND 0x1f = take_bit 5 (drop_bit (64 - 5 * k - 5) v)"
  by (simp add: field_at_def and_31 diff_diff_left)

lemma pack_fields_upto:
  "k \<le> 12 \<Longrightarrow> pack_upto (field_at v) k = push_bit (64 - 5 * k) (drop_bit (64 - 5 * k) v)"
proof (induction k)
  case 0
  show ?case by (simp add: drop_bit_eq_div)
next
  case (Suc k)
  then have k: "k < 12" and m: "64 - 5 * (k + 1) = 64 - 5 * k - 5" "5 \<le> 64 - 5 * k" by simp_all
  have "pack_upto (field_at v) (Suc k) =
      push_bit (64 - 5 * k) (drop_bit (64 - 5 * k) v) OR
      push_bit (64 - 5 * k - 5) (take_bit 5 (drop_bit (64 - 5 * k - 5) v))"
    using Suc k by (simp only: pack_upto.simps field_at_and m)
  also have "\<dots> = push_bit (64 - 5 * k - 5) (drop_bit (64 - 5 * k - 5) v)"
    using m(2) by (rule push_drop_join)
  finally show ?case using m(1) by simp
qed

lemma pack_fields: "pack_upto (field_at v) 12 OR (field_at v 12 AND 0x0F) = v"
  using pack_fields_upto[of 12 v] push_drop_take[of 4 v] by (simp add: field_at_def and_15)

lemma unat_field_at: "unat (field_at v i) < 32"
proof -
  have "unat (field_at v i) = unat (take_bit (if i = 12 then 4 else 5) (if i = 12 then v else drop_bit (59 - 5 * i) v))"
    by (simp add: field_at_def and_31 and_15)
  also have "\<dots> < 2 ^ (if i = 12 then 4 else 5)"
    by (simp add: unsigned_take_bit_eq)
  also have "\<dots> \<le> (32 :: nat)" by simp
  finally show ?thesis .
qed

lemma bit_pack_upto:
  "k \<le> 12 \<Longrightarrow> bit (pack_upto f k) n \<longleftrightarrow>
     (\<exists>i<k. 64 - 5 * (i + 1) \<le> n \<and> n < 64 - 5 * i \<and> bit (f i) (n - (64 - 5 * (i + 1))))"
proof (induction k)
  case (Suc k)
  have "n < 64 - 5 * k \<longleftrightarrow> n - (64 - 5 * (k + 1)) < 5" if "64 - 5 * (k + 1) \<le> n"
    using that Suc.prems by arith
  then show ?case
    using Suc by (auto simp: bit_simps and_31 less_Suc_eq simp del: diff_diff_left)
qed simp

lemma slot_iff:
  fixes i j m p :: nat
  assumes "i < 12" "m < 5" "p = 59 - 5 * i + m"
  shows "64 - 5 * (j + 1) \<le> p \<and> p < 64 - 5 * j \<longleftrightarrow> j = i"
proof -
  have p: "p + 5 * i = 59 + m" using assms by linarith
  consider "j < i" | "j = i" | "i < j" by linarith
  then show ?thesis
  proof cases
    case 1
    then have "5 * j + 5 \<le> 5 * i" by linarith
    then have "p + 5 * (j + 1) < 64" using p assms(1,2) by simp
    then have "p < 64 - 5 * (j + 1)" by (rule less_diff_conv[THEN iffD2])
    then show ?thesis using 1 by simp
  next
    case 2
    then have "64 - 5 * (j + 1) \<le> p" using assms(3) by simp
    moreover have "p + 5 * j < 64" using 2 p assms(2) by simp
    ultimately show ?thesis using 2 by (simp add: less_diff_conv)
  next
    case 3
    then have "5 * i + 5 \<le> 5 * j" by linarith
    then have "\<not> p + 5 * j < 64" using p assms(1,2) by simp
    then have "\<not> p < 64 - 5 * j" by (simp only: less_diff_conv not_False_eq_True)
    then show ?thesis using 3 by simp
  qed
qed

lemma bit_pack_upto_slot:
  assumes "i < 12" and "m < 5"
  shows "bit (pack_upto f 12) (59 - 5 * i + m) \<longleftrightarrow> bit (f i) m"
proof -
  define p where "p = 59 - 5 * i + m"
  have slot: "64 - 5 * (j + 1) \<le> p \<and> p < 64 - 5 * j \<longleftrightarrow> j = i" if "j < 12" for j
    using slot_iff[OF assms p_def] .
  have at: "p - (64 - 5 * (i + 1)) = m" by (simp add: p_def)
  have "bit (pack_upto f 12) p \<longleftrightarrow>
    (\<exists>j<12. (64 - 5 * (j + 1) \<le> p \<and> p < 64 - 5 * j) \<and> bit (f j) (p - (64 - 5 * (j + 1))))"
    by (simp only: bit_pack_upto conj_assoc order_refl)
  also have "\<dots> \<longleftrightarrow> bit (f i) m"
    using slot at assms(1) by metis
  finally show ?thesis by (simp only: p_def)
qed

lemma bit_pack_upto_low: "m < 4 \<Longrightarrow> \<not> bit (pack_upto f 12) m"
  by (auto simp: bit_pack_upto)

lemma field_at_pack:
  assumes "i < 13"
  shows "field_at (pack_upto f 12 OR (f 12 AND 0x0F)) i = f i AND (if i = 12 then 0x0F else 0x1f)"
    (is "field_at ?w i = ?r")
proof (cases "i = 12")
  case True
  then show ?thesis
    by (auto intro!: bit_word_eqI simp: field_at_def and_15 bit_simps bit_pack_upto_low)
next
  case False
  with assms have i: "i < 12" by simp
  show ?thesis
  proof (rule bit_word_eqI)
    fix m assume "m < LENGTH(64)"
    have "\<not> 59 - 5 * i + m < 4" using i by simp
    then show "bit (field_at ?w i) m = bit ?r m"
      using False i bit_pack_upto_slot[OF i, of m f]
      by (auto simp: field_at_def and_31 and_15 bit_simps)
  qed
qed

section \<open>Names and strings\<close>

text \<open>
  The contract of \<^verbatim>\<open>boost::algorithm::trim_right_if\<close>, as its documentation states it: the
  characters at the end of the string that satisfy the predicate are removed.
\<close>

locale right_trimmer =
  fixes trim :: "(char \<Rightarrow> bool) \<Rightarrow> string \<Rightarrow> string"
  assumes trim_right: "trim p s = rev (dropWhile p (rev s))"
begin

lemma trim_prefix: "s = trim p s @ takeWhile_suffix" if "takeWhile_suffix = rev (takeWhile p (rev s))"
  unfolding that trim_right by (metis rev_append rev_rev_ident takeWhile_dropWhile_id)

lemma name_to_string_eq:
  "name_to_string trim v = trim (\<lambda>c. c = CHR ''.'') (map (\<lambda>i. charmap ! unat (field_at v i)) [0..<13])"
proof -
  have "replicate 13 CHR ''.'' = map (\<lambda>_. CHR ''.'') [0..<13]"
    by (simp only: map_replicate_const length_upt diff_zero)
  then show ?thesis
    using to_string_steps_upto[of 13 v] by (simp only: name_to_string_def Let_def) simp
qed

lemma symbol_at_trim:
  "symbol_at (trim (\<lambda>c. c = CHR ''.'') s) i = symbol_at s i"
proof -
  let ?t = "trim (\<lambda>c. c = CHR ''.'') s" and ?d = "rev (takeWhile (\<lambda>c. c = CHR ''.'') (rev s))"
  have s: "s = ?t @ ?d" by (rule trim_prefix) simp
  have dots: "c = CHR ''.''" if "c \<in> set ?d" for c
    using that by (auto dest: set_takeWhileD)
  have "symbol_at (?t @ ?d) i = symbol_at ?t i"
  proof (cases "i < length ?t")
    case False
    have "char_to_symbol ((?t @ ?d) ! i) = 0" if "i < length (?t @ ?d)"
    proof -
      have "(?t @ ?d) ! i = ?d ! (i - length ?t)" using False by (simp only: nth_append if_False)
      moreover have "?d ! (i - length ?t) \<in> set ?d" using that False by (intro nth_mem) simp
      ultimately have "(?t @ ?d) ! i = CHR ''.''" using dots by simp
      then show ?thesis by (simp add: char_to_symbol_def)
    qed
    with False show ?thesis by (simp add: symbol_at_def)
  qed (simp add: symbol_at_def nth_append)
  with s show ?thesis by simp
qed

end

definition raw_chars :: "name \<Rightarrow> string" where
  "raw_chars v = map (\<lambda>i. charmap ! unat (field_at v i)) [0..<13]"

text \<open>The strings that \<open>name::set\<close> is meant to accept.\<close>

definition normalized_name :: "string \<Rightarrow> bool" where
  "normalized_name s \<longleftrightarrow> length s \<le> 13 \<and> set s \<subseteq> set charmap \<and>
     (length s = 13 \<longrightarrow> s ! 12 \<in> set (take 16 charmap)) \<and> (s \<noteq> [] \<longrightarrow> last s \<noteq> CHR ''.'')"

lemma length_charmap [simp]: "length charmap = 32"
  by (simp add: charmap_def)

lemma length_raw_chars [simp]: "length (raw_chars v) = 13"
  by (simp only: raw_chars_def length_map length_upt diff_zero)

lemma nth_raw_chars: "i < 13 \<Longrightarrow> raw_chars v ! i = charmap ! unat (field_at v i)"
  by (simp only: raw_chars_def nth_map nth_upt length_upt add_0 diff_zero)

lemma raw_chars_charmap: "set (raw_chars v) \<subseteq> set charmap"
  by (auto simp: in_set_conv_nth[of _ "raw_chars v"] nth_raw_chars unat_field_at)

lemma raw_chars_last: "raw_chars v ! 12 \<in> set (take 16 charmap)"
proof -
  have "unat (field_at v 12) < 2 ^ 4"
    unfolding field_at_def using take_bit_nat_less_exp[of 4 "unat v"]
    by (simp add: and_15 unsigned_take_bit_eq del: take_bit_nat_less_exp)
  then show ?thesis by (auto simp: nth_raw_chars in_set_conv_nth intro!: exI[of _ "unat (field_at v 12)"])
qed

lemma symbol_at_raw_chars: "i < 13 \<Longrightarrow> symbol_at (raw_chars v) i = field_at v i"
  by (simp add: symbol_at_def nth_raw_chars char_to_symbol_charmap unat_field_at)

lemma pack_upto_cong: "(\<And>i. i < k \<Longrightarrow> f i = g i) \<Longrightarrow> pack_upto f k = pack_upto g k"
  by (induction k) simp_all

lemma charmap_char_to_symbol:
  assumes "c \<in> set charmap"
  shows "charmap ! unat (char_to_symbol c) = c" and "unat (char_to_symbol c) < 32"
proof -
  obtain n where n: "n < 32" "c = charmap ! n" using assms by (auto simp: in_set_conv_nth)
  then have "unat (char_to_symbol c) = n"
    by (simp add: char_to_symbol_charmap unat_of_nat)
  with n show "charmap ! unat (char_to_symbol c) = c" and "unat (char_to_symbol c) < 32" by simp_all
qed

lemma char_to_symbol_low:
  assumes "c \<in> set (take 16 charmap)"
  shows "unat (char_to_symbol c) < 16"
proof -
  obtain n where n: "n < 16" "c = charmap ! n" using assms by (auto simp: in_set_conv_nth)
  then show ?thesis by (simp add: char_to_symbol_charmap unat_of_nat)
qed

lemma take_bit_small: "unat (x :: u64) < 2 ^ n \<Longrightarrow> take_bit n x = x"
  by (simp add: word_unat_eq_iff unsigned_take_bit_eq take_bit_nat_eq_self)

context right_trimmer
begin

lemma name_to_string_raw: "name_to_string trim v = trim (\<lambda>c. c = CHR ''.'') (raw_chars v)"
  by (simp only: name_to_string_eq raw_chars_def)

lemma name_to_string_prefix:
  obtains d where "raw_chars v = name_to_string trim v @ d"
  using trim_prefix[OF refl] that unfolding name_to_string_raw by blast

lemma string_to_uint64_t_to_string: "string_to_uint64_t (name_to_string trim v) = v"
proof -
  have sym: "symbol_at (name_to_string trim v) i = field_at v i" if "i < 13" for i
    using that by (simp only: name_to_string_raw symbol_at_trim symbol_at_raw_chars)
  have "pack_upto (symbol_at (name_to_string trim v)) 12 = pack_upto (field_at v) 12"
    by (rule pack_upto_cong) (simp add: sym)
  then show ?thesis by (simp add: string_to_uint64_t_pack sym pack_fields)
qed

lemma name_to_string_normalized: "normalized_name (name_to_string trim v)"
proof -
  let ?s = "name_to_string trim v"
  obtain d where d: "raw_chars v = ?s @ d" by (rule name_to_string_prefix)
  have len: "length ?s \<le> 13"
    using arg_cong[OF d, of length] by simp
  moreover have "set ?s \<subseteq> set charmap"
    using arg_cong[OF d, of set] raw_chars_charmap[of v] by auto
  moreover have "?s ! 12 \<in> set (take 16 charmap)" if "length ?s = 13"
    using raw_chars_last[of v] that by (simp add: d nth_append)
  moreover have "last ?s \<noteq> CHR ''.''" if "?s \<noteq> []"
    using that hd_dropWhile[of "\<lambda>c. c = CHR ''.''" "rev (raw_chars v)"]
    by (simp add: name_to_string_raw trim_right last_rev)
  ultimately show ?thesis by (simp add: normalized_name_def)
qed

lemma raw_chars_pack:
  assumes "normalized_name s"
  shows "raw_chars (string_to_uint64_t s) = s @ replicate (13 - length s) CHR ''.''"
proof (rule nth_equalityI)
  fix i assume "i < length (raw_chars (string_to_uint64_t s))"
  then have i: "i < 13" by simp
  have fld: "field_at (string_to_uint64_t s) i = symbol_at s i AND (if i = 12 then 0x0F else 0x1f)"
    unfolding string_to_uint64_t_pack by (rule field_at_pack[OF i])
  show "raw_chars (string_to_uint64_t s) ! i = (s @ replicate (13 - length s) CHR ''.'') ! i"
  proof (cases "i < length s")
    case True
    then have c: "s ! i \<in> set charmap" using assms by (auto simp: normalized_name_def)
    have "i = 12 \<Longrightarrow> length s = 13" using True assms by (simp add: normalized_name_def)
    then have "i = 12 \<Longrightarrow> unat (char_to_symbol (s ! i)) < 2 ^ 4"
      using assms char_to_symbol_low[of "s ! i"] by (simp add: normalized_name_def)
    moreover have "unat (char_to_symbol (s ! i)) < 2 ^ 5"
      using charmap_char_to_symbol(2)[OF c] by simp
    ultimately have "field_at (string_to_uint64_t s) i = char_to_symbol (s ! i)"
      using True take_bit_small by (simp add: fld symbol_at_def and_31 and_15)
    then show ?thesis
      using True i charmap_char_to_symbol(1)[OF c] by (simp add: nth_raw_chars nth_append)
  next
    case False
    then have "field_at (string_to_uint64_t s) i = 0" by (simp add: fld symbol_at_def)
    with False i show ?thesis
      by (simp add: nth_raw_chars nth_append charmap_dot)
  qed
qed (use assms in \<open>simp add: normalized_name_def\<close>)

lemma to_string_string_to_uint64_t:
  assumes "normalized_name s"
  shows "name_to_string trim (string_to_uint64_t s) = s"
proof (cases "s = []")
  case True
  then show ?thesis
    using raw_chars_pack[OF assms] by (simp add: name_to_string_raw trim_right)
next
  case False
  then obtain c t where s: "rev s = c # t" by (metis rev_is_Nil_conv neq_Nil_conv)
  with False assms have c: "c \<noteq> CHR ''.''"
    by (metis hd_rev list.sel(1) normalized_name_def)
  have "dropWhile (\<lambda>c. c = CHR ''.'') (replicate n (CHR ''.'') @ rev s) = rev s" for n
    using c by (induction n) (simp_all add: s)
  then show ?thesis
    by (simp add: name_to_string_raw raw_chars_pack[OF assms] trim_right)
qed

lemma name_set_eq:
  "name_set trim s =
     (if normalized_name s then Inr (string_to_uint64_t s) else Inl name_type_exception)"
proof -
  have "normalized_name s \<longleftrightarrow> length s \<le> 13 \<and> name_to_string trim (string_to_uint64_t s) = s"
    using to_string_string_to_uint64_t name_to_string_normalized
    by (metis normalized_name_def)
  then show ?thesis by (simp add: name_set_def Let_def eos_assert_def)
qed

end

definition trim_right_if :: "(char \<Rightarrow> bool) \<Rightarrow> string \<Rightarrow> string" where
  "trim_right_if p s = rev (dropWhile p (rev s))"

interpretation boost_trim: right_trimmer trim_right_if
  by unfold_locales (simp add: trim_right_if_def)

text \<open>
  C10. Printing a name and parsing the result gives the name back: for every 64-bit value,
  \<open>name::set\<close> accepts what \<open>name::to_string\<close> prints and stores the same value.
\<close>

theorem name_to_string_roundtrip:
  assumes "right_trimmer trim"
  shows "name_set trim (name_to_string trim v) = Inr v"
  using right_trimmer.name_set_eq[OF assms] right_trimmer.name_to_string_normalized[OF assms]
    right_trimmer.string_to_uint64_t_to_string[OF assms] by simp

theorem name_to_string_roundtrip_witness:
  "name_set trim_right_if (name_to_string trim_right_if 0x5530EA0000000000) = Inr 0x5530EA0000000000"
  using name_to_string_roundtrip[OF boost_trim.right_trimmer_axioms] by simp

text \<open>
  The checked constructor accepts exactly the normalised names: at most 13 characters of the
  name alphabet, the 13th among the first sixteen of it, no trailing dot; it throws
  \<open>name_type_exception\<close> on every other string.
\<close>

theorem name_set_accepts_normalized:
  assumes "right_trimmer trim"
  shows "name_set trim s =
     (if normalized_name s then Inr (string_to_uint64_t s) else Inl name_type_exception)"
  by (rule right_trimmer.name_set_eq[OF assms])

theorem name_set_accepts_normalized_witness:
  "name_set trim_right_if ''eosio'' = Inr 0x5530EA0000000000 \<and>
   name_set trim_right_if ''eosio.'' = Inl name_type_exception"
proof -
  have "normalized_name ''eosio''" "\<not> normalized_name ''eosio.''"
    by (simp_all add: normalized_name_def charmap_def)
  moreover have "string_to_uint64_t ''eosio'' = 0x5530EA0000000000" by code_simp
  ultimately show ?thesis
    using name_set_accepts_normalized[OF boost_trim.right_trimmer_axioms] by simp
qed

end
