(* ===== verification/Tables.thy ===== *)
theory Tables
  imports Prelude
begin

text \<open>
  The rows of an ordered index with unique keys, as the list of its key-row pairs in
  ascending key order. The sources keep such indices in \<^verbatim>\<open>chainbase\<close> databases, in
  \<^verbatim>\<open>boost::multi_index\<close> containers and in \<^verbatim>\<open>flat_map\<close>s; what they read from them is the
  row under a key, the first row at or after a key, and the rows in order, and what they
  change is one row under its key. A lookup that must succeed (\<^verbatim>\<open>_db.get\<close>) throws when there
  is no row, and an insertion of a key that is present throws.
\<close>

type_synonym ('k, 'v) table = "('k \<times> 'v) list"

definition tbl_wf :: "('k::linorder, 'v) table \<Rightarrow> bool" where
  "tbl_wf t \<longleftrightarrow> sorted_wrt (<) (map fst t)"

definition tbl_find :: "('k, 'v) table \<Rightarrow> 'k \<Rightarrow> 'v option" where
  "tbl_find t k = map_of t k"

definition tbl_get :: "('k, 'v) table \<Rightarrow> 'k \<Rightarrow> 'v res" where
  "tbl_get t k = (case tbl_find t k of None \<Rightarrow> Inl row_not_found | Some v \<Rightarrow> Inr v)"

fun tbl_insert :: "'k::linorder \<Rightarrow> 'v \<Rightarrow> ('k, 'v) table \<Rightarrow> ('k, 'v) table" where
  "tbl_insert k v [] = [(k, v)]"
| "tbl_insert k v ((k', v') # t) =
     (if k < k' then (k, v) # (k', v') # t
      else if k = k' then (k, v) # t
      else (k', v') # tbl_insert k v t)"

definition tbl_create :: "'k::linorder \<Rightarrow> 'v \<Rightarrow> ('k, 'v) table \<Rightarrow> ('k, 'v) table res" where
  "tbl_create k v t = eos_assert (tbl_find t k = None) uniqueness_violated (Inr (tbl_insert k v t))"

definition tbl_remove :: "'k \<Rightarrow> ('k, 'v) table \<Rightarrow> ('k, 'v) table" where
  "tbl_remove k t = filter (\<lambda>(k', v). k' \<noteq> k) t"

definition tbl_lower_bound :: "('k::linorder, 'v) table \<Rightarrow> 'k \<Rightarrow> ('k \<times> 'v) option" where
  "tbl_lower_bound t k = find (\<lambda>(k', v). k \<le> k') t"

section \<open>Contents after each operation\<close>

lemma tbl_wf_Nil [simp]: "tbl_wf []"
  by (simp add: tbl_wf_def)

lemma tbl_wf_Cons [simp]: "tbl_wf ((k, v) # t) \<longleftrightarrow> (\<forall>k' \<in> fst ` set t. k < k') \<and> tbl_wf t"
  by (auto simp: tbl_wf_def)

lemma tbl_wf_distinct: "tbl_wf t \<Longrightarrow> distinct (map fst t)"
  by (simp add: tbl_wf_def strict_sorted_iff)

lemma tbl_find_Nil [simp]: "tbl_find [] k = None"
  by (simp add: tbl_find_def)

lemma tbl_find_Cons [simp]: "tbl_find ((k', v) # t) k = (if k = k' then Some v else tbl_find t k)"
  by (simp add: tbl_find_def)

lemma tbl_find_None: "tbl_find t k = None \<longleftrightarrow> k \<notin> fst ` set t"
  by (simp add: tbl_find_def map_of_eq_None_iff)

lemma tbl_find_Some_mem: "tbl_find t k = Some v \<Longrightarrow> (k, v) \<in> set t"
  by (auto simp: tbl_find_def dest: map_of_SomeD)

lemma tbl_find_mem: "tbl_wf t \<Longrightarrow> (k, v) \<in> set t \<Longrightarrow> tbl_find t k = Some v"
  by (simp add: tbl_find_def map_of_eq_Some_iff tbl_wf_distinct)

lemma keys_tbl_insert [simp]: "fst ` set (tbl_insert k v t) = insert k (fst ` set t)"
  by (induction k v t rule: tbl_insert.induct) auto

lemma tbl_wf_insert [simp]: "tbl_wf t \<Longrightarrow> tbl_wf (tbl_insert k v t)"
  by (induction k v t rule: tbl_insert.induct) auto

lemma tbl_find_insert [simp]:
  "tbl_wf t \<Longrightarrow> tbl_find (tbl_insert k v t) k' = (if k' = k then Some v else tbl_find t k')"
proof (induction k v t rule: tbl_insert.induct)
  case (2 k v k2 v2 t)
  then show ?case by (auto simp: tbl_find_None)
qed simp

lemma tbl_insert_insert [simp]: "tbl_insert k v (tbl_insert k u t) = tbl_insert k v t"
  by (induction k u t rule: tbl_insert.induct) auto

lemma keys_tbl_remove [simp]: "fst ` set (tbl_remove k t) = fst ` set t - {k}"
  by (auto simp: tbl_remove_def)

lemma tbl_wf_remove [simp]: "tbl_wf t \<Longrightarrow> tbl_wf (tbl_remove k t)"
  by (induction t) (auto simp: tbl_remove_def)

lemma tbl_find_remove [simp]:
  "tbl_find (tbl_remove k t) k' = (if k' = k then None else tbl_find t k')"
  by (induction t) (auto simp: tbl_remove_def)

lemma mem_tbl_insert_other: "k' \<noteq> k \<Longrightarrow> (k', x) \<in> set (tbl_insert k v t) \<longleftrightarrow> (k', x) \<in> set t"
  by (induction k v t rule: tbl_insert.induct) auto

lemma filter_tbl_insert_other:
  "\<not> P k \<Longrightarrow> filter (\<lambda>r. P (fst r)) (tbl_insert k v t) = filter (\<lambda>r. P (fst r)) t"
  by (induction k v t rule: tbl_insert.induct) auto

lemma length_filter_tbl_remove_less:
  "(k, v) \<in> set t \<Longrightarrow> P k \<Longrightarrow>
   length (filter (\<lambda>r. P (fst r)) (tbl_remove k t)) < length (filter (\<lambda>r. P (fst r)) t)"
proof (induction t)
  case (Cons r t)
  have "length (filter (\<lambda>r. P (fst r)) (tbl_remove k t)) \<le> length (filter (\<lambda>r. P (fst r)) t)"
    by (induction t) (auto simp: tbl_remove_def)
  with Cons show ?case by (auto simp: tbl_remove_def)
qed simp

lemma tbl_lower_bound_Some:
  "tbl_lower_bound t k = Some (k', v) \<Longrightarrow> (k', v) \<in> set t \<and> k \<le> k'"
  by (auto simp: tbl_lower_bound_def find_Some_iff) (metis nth_mem)

lemma tbl_lower_bound_None: "tbl_lower_bound t k = None \<longleftrightarrow> (\<forall>k' \<in> fst ` set t. k' < k)"
  by (auto simp: tbl_lower_bound_def find_None_iff)

lemma tbl_get_Inr [simp]: "tbl_get t k = Inr v \<longleftrightarrow> tbl_find t k = Some v"
  by (simp add: tbl_get_def split: option.splits)

lemma tbl_create_Inr [simp]:
  "tbl_create k v t = Inr t' \<longleftrightarrow> tbl_find t k = None \<and> t' = tbl_insert k v t"
  by (auto simp: tbl_create_def)

lemma tbl_find_iff: "tbl_wf t \<Longrightarrow> tbl_find t k = Some v \<longleftrightarrow> (k, v) \<in> set t"
  using tbl_find_mem tbl_find_Some_mem by metis

section \<open>Sums over the rows\<close>

definition tbl_sum :: "('k \<times> 'v \<Rightarrow> nat) \<Rightarrow> ('k, 'v) table \<Rightarrow> nat" where
  "tbl_sum g t = sum_list (map g t)"

lemma tbl_sum_Nil [simp]: "tbl_sum g [] = 0"
  by (simp add: tbl_sum_def)

lemma tbl_sum_Cons [simp]: "tbl_sum g (r # t) = g r + tbl_sum g t"
  by (simp add: tbl_sum_def)

lemma tbl_sum_insert_new:
  "tbl_find t k = None \<Longrightarrow> tbl_sum g (tbl_insert k v t) = tbl_sum g t + g (k, v)"
  by (induction k v t rule: tbl_insert.induct) (auto split: if_splits)

lemma tbl_sum_insert_old:
  "tbl_wf t \<Longrightarrow> tbl_find t k = Some u \<Longrightarrow> tbl_sum g (tbl_insert k v t) + g (k, u) = tbl_sum g t + g (k, v)"
proof (induction k v t rule: tbl_insert.induct)
  case (2 k v k2 v2 t)
  have "\<not> k < k2"
  proof
    assume "k < k2"
    then have "(k, u) \<in> set t" using 2(3) by (auto dest: tbl_find_Some_mem split: if_splits)
    then show False using 2(2) \<open>k < k2\<close> by force
  qed
  with 2 show ?case by (auto split: if_splits)
qed simp

lemma tbl_sum_remove:
  "tbl_wf t \<Longrightarrow> tbl_find t k = Some u \<Longrightarrow> tbl_sum g (tbl_remove k t) + g (k, u) = tbl_sum g t"
proof (induction t)
  case (Cons r t)
  obtain k' v where r: "r = (k', v)" by (cases r)
  show ?case
  proof (cases "k = k'")
    case True
    then have "tbl_remove k t = t"
      using Cons.prems r by (auto simp: tbl_remove_def intro!: filter_True)
    then show ?thesis using True Cons.prems r by (simp add: tbl_remove_def)
  next
    case False
    then show ?thesis using Cons r by (simp add: tbl_remove_def)
  qed
qed simp

lemma tbl_sum_member: "tbl_find t k = Some v \<Longrightarrow> g (k, v) \<le> tbl_sum g t"
  by (induction t) (auto split: if_splits)

end
