(* ===== verification/Accumulators.thy ===== *)
theory Accumulators
  imports Prelude
begin

text \<open>
  The usage accumulators and the elastic limits of
  \<^verbatim>\<open>libraries/chain/include/eosio/chain/resource_limits_private.hpp\<close>,
  \<^verbatim>\<open>resource_limits.hpp\<close> and the first functions of \<^verbatim>\<open>resource_limits.cpp\<close>: a usage
  average that decays over a window of ordinals, kept as a 64-bit value scaled by
  \<^verbatim>\<open>rate_limiting_precision\<close>, and the rule by which a congested limit contracts
  and an idle one expands.
\<close>

section \<open>Definitions\<close>

definition rate_limiting_precision :: u64 where
  "rate_limiting_precision = 1000 * 1000"

record 'n ratio =
  numerator :: 'n
  denominator :: 'n

definition make_ratio :: "'n \<Rightarrow> 'n \<Rightarrow> 'n ratio" where
  "make_ratio n d = \<lparr>numerator = n, denominator = d\<rparr>"

definition ratio_mult :: "'a::len word \<Rightarrow> 'a word ratio \<Rightarrow> 'a word res" where
  "ratio_mult v r =
     eos_assert (numerator r = 0 \<or> v \<le> (-1) div numerator r) rate_limiting_state_inconsistent
       (checked_div (v * numerator r) (denominator r))"

definition integer_divide_ceil :: "'a::len word \<Rightarrow> 'a word \<Rightarrow> 'a word res" where
  "integer_divide_ceil num den =
     res_bind (checked_div num den) (\<lambda>q. Inr (q + (if 0 < num mod den then 1 else 0)))"

text \<open>\<^verbatim>\<open>downgrade_cast<uint64_t>\<close> and \<^verbatim>\<open>downgrade_cast<int64_t>\<close> of a 128-bit unsigned value.\<close>

definition downgrade_cast_u64 :: "u128 \<Rightarrow> u64 res" where
  "downgrade_cast_u64 val =
     eos_assert (0 \<le> val \<and> val \<le> ucast (-1 :: u64)) rate_limiting_state_inconsistent
       (Inr (ucast val))"

definition downgrade_cast_i64 :: "u128 \<Rightarrow> i64 res" where
  "downgrade_cast_i64 val =
     eos_assert (0 \<le> val \<and> val \<le> 0x7FFFFFFFFFFFFFFF) rate_limiting_state_inconsistent
       (Inr (ucast val))"

definition max_raw_value :: u64 where
  "max_raw_value = (-1) div rate_limiting_precision"

subsection \<open>The exponential moving average accumulator\<close>

record usage_accumulator =
  last_ordinal :: u32
  value_ex :: u64
  consumed :: u64

definition usage_accumulator_init :: usage_accumulator where
  "usage_accumulator_init = \<lparr>last_ordinal = 0, value_ex = 0, consumed = 0\<rparr>"

definition average :: "usage_accumulator \<Rightarrow> u64 res" where
  "average a = integer_divide_ceil (value_ex a) rate_limiting_precision"

definition accumulator_add ::
  "usage_accumulator \<Rightarrow> u64 \<Rightarrow> u32 \<Rightarrow> u32 \<Rightarrow> usage_accumulator res" where
  "accumulator_add a units ordinal window_size =
     eos_assert (units \<le> max_raw_value) rate_limiting_state_inconsistent (
     eos_assert (units \<le> -1 - consumed a) rate_limiting_state_inconsistent (
     res_bind (integer_divide_ceil (ucast units * ucast rate_limiting_precision :: u128) (ucast window_size)) (\<lambda>q.
     res_bind (downgrade_cast_u64 q) (\<lambda>value_ex_contrib.
     eos_assert (value_ex_contrib \<le> -1 - value_ex a) rate_limiting_state_inconsistent (
     res_bind
       (if last_ordinal a \<noteq> ordinal then
          eos_assert (last_ordinal a < ordinal) resource_limit_exception (
          res_bind
            (if (ucast ordinal :: u64) < ucast (last_ordinal a) + ucast window_size then
               let delta = ordinal - last_ordinal a;
                   decay = make_ratio (ucast window_size - ucast delta) (ucast window_size)
               in ratio_mult (value_ex a) decay
             else Inr 0) (\<lambda>v.
          let a' = a\<lparr>value_ex := v, last_ordinal := ordinal\<rparr>
          in res_bind (average a') (\<lambda>c. Inr (a'\<lparr>consumed := c\<rparr>))))
        else Inr a) (\<lambda>a'.
     Inr (a'\<lparr>consumed := consumed a' + units, value_ex := value_ex a' + value_ex_contrib\<rparr>)))))))"

subsection \<open>The exponential decay accumulator\<close>

record decay_accumulator =
  decay_last_ordinal :: u32
  decay_value_ex :: u64

definition value_ex_at :: "decay_accumulator \<Rightarrow> u32 \<Rightarrow> u32 \<Rightarrow> u64 res" where
  "value_ex_at a ordinal window_size =
     (if decay_last_ordinal a < ordinal then
        if (ucast ordinal :: u64) < ucast (decay_last_ordinal a) + ucast window_size then
          let delta = ordinal - decay_last_ordinal a;
              decay = make_ratio (ucast window_size - ucast delta) (ucast window_size :: u128)
          in res_bind (ratio_mult (ucast (decay_value_ex a)) decay) downgrade_cast_u64
        else Inr 0
      else Inr (decay_value_ex a))"

definition value_at :: "decay_accumulator \<Rightarrow> u32 \<Rightarrow> u32 \<Rightarrow> u64 res" where
  "value_at a ordinal window_size =
     res_bind (value_ex_at a ordinal window_size) (\<lambda>v. integer_divide_ceil v rate_limiting_precision)"

definition decay_add :: "decay_accumulator \<Rightarrow> u64 \<Rightarrow> u32 \<Rightarrow> u32 \<Rightarrow> decay_accumulator res" where
  "decay_add a units ordinal window_size =
     eos_assert (units \<le> max_raw_value) rate_limiting_state_inconsistent (
     let units_ex = ucast units * ucast rate_limiting_precision :: u128 in
     res_bind
       (if decay_last_ordinal a < ordinal then
          res_bind (value_ex_at a ordinal window_size) (\<lambda>v.
            Inr (a\<lparr>decay_value_ex := v, decay_last_ordinal := ordinal\<rparr>))
        else Inr a) (\<lambda>a'.
     let new_value_ex = min (units_ex + ucast (decay_value_ex a')) (ucast (-1 :: u64)) in
     res_bind (downgrade_cast_u64 new_value_ex) (\<lambda>v. Inr (a'\<lparr>decay_value_ex := v\<rparr>))))"

subsection \<open>Elastic limits\<close>

record elastic_limit_parameters =
  elp_target :: u64
  elp_max :: u64
  elp_periods :: u32
  elp_max_multiplier :: u32
  elp_contract_rate :: "u64 ratio"
  elp_expand_rate :: "u64 ratio"

definition update_elastic_limit :: "u64 \<Rightarrow> u64 \<Rightarrow> elastic_limit_parameters \<Rightarrow> u64 res" where
  "update_elastic_limit current_limit average_usage params =
     res_bind
       (if elp_target params < average_usage
        then ratio_mult current_limit (elp_contract_rate params)
        else ratio_mult current_limit (elp_expand_rate params)) (\<lambda>result.
     Inr (min (max result (elp_max params)) (elp_max params * ucast (elp_max_multiplier params))))"

definition elastic_limit_parameters_validate :: "elastic_limit_parameters \<Rightarrow> unit res" where
  "elastic_limit_parameters_validate p =
     eos_assert (0 < elp_periods p) resource_limit_exception (
     eos_assert (0 < denominator (elp_contract_rate p)) resource_limit_exception (
     eos_assert (0 < denominator (elp_expand_rate p)) resource_limit_exception (Inr ())))"

section \<open>The accumulators over the natural numbers\<close>

definition div_ceil :: "nat \<Rightarrow> nat \<Rightarrow> nat" where
  "div_ceil n d = n div d + (if 0 < n mod d then 1 else 0)"

lemma div_ceil_le: "0 < d \<Longrightarrow> div_ceil n d \<le> n"
proof -
  assume d: "0 < d"
  show ?thesis
  proof (cases "n mod d = 0")
    case False
    then have "0 < n" "1 < d" using d by (cases n; cases "d = 1"; simp)+
    then have "n div d < n" by simp
    then show ?thesis by (simp add: div_ceil_def)
  qed (simp add: div_ceil_def)
qed

lemma integer_divide_ceil_Inr [simp]:
  fixes n d :: "'a::len word"
  shows "integer_divide_ceil n d = Inr q \<longleftrightarrow> d \<noteq> 0 \<and> unat q = div_ceil (unat n) (unat d)"
proof (cases "d = 0")
  case False
  then have d: "0 < unat d" by (simp add: unat_gt_0)
  have "div_ceil (unat n) (unat d) < 2 ^ LENGTH('a)"
    using div_ceil_le[OF d, of "unat n"] unsigned_less[of n, where ?'a = nat] by linarith
  then have u: "unat (n div d + (if 0 < n mod d then 1 else 0)) = div_ceil (unat n) (unat d)"
    using False
    by (auto simp: div_ceil_def unat_word_ariths(1) unat_div_distrib unat_mod_distrib word_less_nat_alt
        split: if_splits)
  have "integer_divide_ceil n d = Inr q \<longleftrightarrow> n div d + (if 0 < n mod d then 1 else 0) = q"
    using False by (simp add: integer_divide_ceil_def)
  also have "\<dots> \<longleftrightarrow> unat q = div_ceil (unat n) (unat d)"
    using u by (metis word_unat_eq_iff)
  finally show ?thesis using False by simp
qed (simp add: integer_divide_ceil_def checked_div_def)

lemma ratio_mult_Inr:
  fixes v x :: "'a::len word"
  shows "ratio_mult v r = Inr x \<longleftrightarrow> denominator r \<noteq> 0 \<and>
     unat v * unat (numerator r) < 2 ^ LENGTH('a) \<and>
     unat x = unat v * unat (numerator r) div unat (denominator r)"
proof (cases "numerator r = 0")
  case True
  then show ?thesis by (auto simp: ratio_mult_def unsigned_eq_0_iff)
next
  case False
  then show ?thesis
    by (auto simp: ratio_mult_def le_max_div_iff word_unat_eq_iff unat_div_distrib unat_mult_no_overflow)
qed

lemma downgrade_cast_u64_Inr [simp]: "downgrade_cast_u64 v = Inr x \<longleftrightarrow> unat x = unat v"
proof -
  have *: "v \<le> ucast (-1 :: u64) \<longleftrightarrow> unat v < 2 ^ 64"
    by (simp only: word_le_nat_alt unat_ucast_64_128 unat_max_word) auto
  have "unat v < 2 ^ 64 \<Longrightarrow> unat (ucast v :: u64) = unat v"
    by (simp add: unsigned_ucast_eq take_bit_nat_eq_self)
  moreover have "unat x < 2 ^ 64" using unsigned_less[of x, where ?'a = nat] by simp
  ultimately show ?thesis
    unfolding downgrade_cast_u64_def eos_assert_Inr *
    by (auto simp: word_unat_eq_iff)
qed

lemma downgrade_cast_i64_Inr [simp]:
  "downgrade_cast_i64 v = Inr x \<longleftrightarrow> unat v < 2 ^ 63 \<and> unat x = unat v"
proof -
  have *: "v \<le> 0x7FFFFFFFFFFFFFFF \<longleftrightarrow> unat v < 2 ^ 63"
    by (simp add: word_le_nat_alt) auto
  have "unat v < 2 ^ 63 \<Longrightarrow> unat (ucast v :: u64) = unat v"
    by (simp add: unsigned_ucast_eq take_bit_nat_eq_self)
  then show ?thesis
    unfolding downgrade_cast_i64_def eos_assert_Inr *
    by (auto simp: word_unat_eq_iff)
qed

lemma unat_precision: "unat rate_limiting_precision = 1000000"
  by (simp add: rate_limiting_precision_def)

lemma precision_nonzero: "rate_limiting_precision \<noteq> 0"
  by (simp add: rate_limiting_precision_def)

lemma unat_units_ex: "unat (ucast units * ucast rate_limiting_precision :: u128) = unat (units :: u64) * 1000000"
proof -
  have "unat units * 1000000 < 2 ^ 128"
    using unsigned_less[of units, where ?'a = nat] by simp
  then show ?thesis by (simp add: unat_mult_no_overflow unat_precision)
qed

lemma units_le_max_raw: "units \<le> max_raw_value \<Longrightarrow> unat units \<le> 18446744073709"
  by (simp add: max_raw_value_def word_le_nat_alt unat_div_distrib unat_max_word unat_precision)

definition decayed :: "nat \<Rightarrow> nat \<Rightarrow> nat \<Rightarrow> nat \<Rightarrow> nat" where
  "decayed v prev ordinal w =
     (if prev = ordinal then v
      else if ordinal < prev + w then v * (w - (ordinal - prev)) div w else 0)"

definition decay_product :: "nat \<Rightarrow> nat \<Rightarrow> nat \<Rightarrow> nat \<Rightarrow> nat" where
  "decay_product v prev ordinal w =
     (if prev < ordinal \<and> ordinal < prev + w then v * (w - (ordinal - prev)) else 0)"

lemma decayed_le: "prev \<le> ordinal \<Longrightarrow> 0 < w \<Longrightarrow> decayed v prev ordinal w \<le> v"
proof -
  assume "prev \<le> ordinal" "0 < w"
  moreover have "v * (w - (ordinal - prev)) div w \<le> v * w div w"
    by (rule div_le_mono) simp
  ultimately show ?thesis by (simp add: decayed_def)
qed

lemma ucast_less_add_iff:
  "(ucast (ordinal :: u32) :: u64) < ucast (prev :: u32) + ucast (w :: u32) \<longleftrightarrow>
   unat ordinal < unat prev + unat w"
proof -
  have "unat prev + unat w < 2 ^ 64"
    using unsigned_less[of prev, where ?'a = nat] unsigned_less[of w, where ?'a = nat] by simp
  then show ?thesis by (simp add: word_less_nat_alt unat_add_no_overflow)
qed

lemma unat_remaining_window:
  assumes "prev < (ordinal :: u32)" and "unat ordinal < unat prev + unat w"
  shows "unat (ucast (w :: u32) - ucast (ordinal - prev) :: u64) = unat w - (unat ordinal - unat prev)"
  using assms by (subst unat_sub_no_underflow) (simp_all add: unat_sub_no_underflow word_less_nat_alt)


lemma contribution_Inr:
  "res_bind (integer_divide_ceil (ucast (units :: u64) * ucast rate_limiting_precision :: u128) (ucast (w :: u32)))
     (\<lambda>q. res_bind (downgrade_cast_u64 q) k) = Inr z \<longleftrightarrow>
   w \<noteq> 0 \<and> (\<exists>c. unat c = div_ceil (unat units * 1000000) (unat w) \<and> k c = Inr z)" (is "?l \<longleftrightarrow> ?r")
proof
  assume ?l
  then show ?r by (auto simp: unat_units_ex unsigned_eq_0_iff)
next
  assume ?r
  then obtain c where "w \<noteq> 0" and c: "unat c = div_ceil (unat units * 1000000) (unat w)" "k c = Inr z" by blast
  moreover have "(ucast w :: u128) \<noteq> 0" using \<open>w \<noteq> 0\<close> by (simp add: word_unat_eq_iff)
  ultimately show ?l
    by (auto simp: unat_units_ex intro!: exI[of _ "ucast c"] exI[of _ c])
qed

lemma decay_Inr:
  fixes w :: u32
  assumes "last_ordinal a < ordinal" and "w \<noteq> 0"
  shows "(if (ucast ordinal :: u64) < ucast (last_ordinal a) + ucast w then
            let delta = ordinal - last_ordinal a;
                decay = make_ratio (ucast w - ucast delta) (ucast w)
            in ratio_mult (value_ex a) decay
          else Inr 0) = Inr v \<longleftrightarrow>
     (unat ordinal < unat (last_ordinal a) + unat w \<longrightarrow>
        unat (value_ex a) * (unat w - (unat ordinal - unat (last_ordinal a))) < 2 ^ 64) \<and>
     unat v = decayed (unat (value_ex a)) (unat (last_ordinal a)) (unat ordinal) (unat w)"
proof -
  have ne: "unat (last_ordinal a) \<noteq> unat ordinal" using assms(1) by (simp add: word_less_nat_alt)
  have w: "(ucast w :: u64) \<noteq> 0" using assms(2) by (simp add: word_unat_eq_iff)
  show ?thesis
    using ne w assms
    by (auto simp: Let_def ratio_mult_Inr make_ratio_def ucast_less_add_iff decayed_def
          unat_remaining_window unsigned_eq_0_iff)
qed

lemma usage_accumulator_eqI:
  fixes a a' :: usage_accumulator
  shows "a' = a \<longleftrightarrow> last_ordinal a' = last_ordinal a \<and> unat (value_ex a') = unat (value_ex a) \<and>
    unat (consumed a') = unat (consumed a)"
  by (cases a; cases a') (auto simp: word_unat_eq_iff)

lemma usage_consumed_bound: "div_ceil n 1000000 \<le> 18446744073710" if "n < 2 ^ 64"
proof -
  have "n div 1000000 \<le> (2 ^ 64 - 1) div 1000000" using that by (intro div_le_mono) simp
  then show ?thesis by (simp add: div_ceil_def)
qed

lemma accumulator_add_Inr:
  "accumulator_add a units ordinal w = Inr a' \<longleftrightarrow>
     w \<noteq> 0 \<and> units \<le> max_raw_value \<and> unat (consumed a) + unat units < 2 ^ 64 \<and>
     unat (value_ex a) + div_ceil (unat units * 1000000) (unat w) < 2 ^ 64 \<and>
     last_ordinal a \<le> ordinal \<and>
     (last_ordinal a < ordinal \<and> unat ordinal < unat (last_ordinal a) + unat w \<longrightarrow>
        unat (value_ex a) * (unat w - (unat ordinal - unat (last_ordinal a))) < 2 ^ 64) \<and>
     last_ordinal a' = ordinal \<and>
     unat (value_ex a') =
       decayed (unat (value_ex a)) (unat (last_ordinal a)) (unat ordinal) (unat w) +
       div_ceil (unat units * 1000000) (unat w) \<and>
     unat (consumed a') =
       (if last_ordinal a = ordinal then unat (consumed a)
        else div_ceil (decayed (unat (value_ex a)) (unat (last_ordinal a)) (unat ordinal) (unat w)) 1000000) +
       unat units"
  (is "?l \<longleftrightarrow> ?r")
proof (cases "w = 0 \<or> \<not> last_ordinal a \<le> ordinal")
  case True
  then show ?thesis
    by (auto simp: accumulator_add_def integer_divide_ceil_def checked_div_def split: if_splits)
next
  case False
  then have w: "w \<noteq> 0" and ord: "last_ordinal a \<le> ordinal" by auto
  have w': "(ucast w :: u128) \<noteq> 0" using w by (simp add: word_unat_eq_iff)
  let ?c = "div_ceil (unat units * 1000000) (unat w)"
  let ?d = "decayed (unat (value_ex a)) (unat (last_ordinal a)) (unat ordinal) (unat w)"
  have d: "?d \<le> unat (value_ex a)"
    using w ord by (intro decayed_le) (simp_all add: word_le_nat_alt unat_gt_0)
  show ?thesis
  proof (cases "last_ordinal a = ordinal")
    case True
    then have "?d = unat (value_ex a)" by (simp add: decayed_def)
    then show ?thesis using True w
      unfolding accumulator_add_def eos_assert_Inr contribution_Inr le_max_minus_iff ex_unat_eq
      by (auto simp: usage_accumulator_eqI unat_add_no_overflow unat_of_nat)
  next
    case False
    with ord have lt: "last_ordinal a < ordinal" by simp
    have bnd: "div_ceil ?d 1000000 + unat units < 2 ^ 64" if "units \<le> max_raw_value"
    proof -
      have "?d < 2 ^ 64" using d unsigned_less[of "value_ex a", where ?'a = nat] by simp
      from usage_consumed_bound[OF this] units_le_max_raw[OF that] show ?thesis by simp
    qed
    have avg: "average (a\<lparr>value_ex := v, last_ordinal := ordinal\<rparr>) = Inr c \<longleftrightarrow> unat c = div_ceil (unat v) 1000000" for v c
      by (simp add: average_def precision_nonzero unat_precision)
    show ?thesis using False lt w d bnd
      unfolding accumulator_add_def eos_assert_Inr contribution_Inr le_max_minus_iff ex_unat_eq
      by (simp add: decay_Inr Let_def avg ex_unat_eq conj_assoc del: if_split)
         (auto simp: usage_accumulator_eqI unat_add_no_overflow unat_of_nat)
  qed
qed

lemma value_ex_at_eq:
  "\<exists>v. value_ex_at a ordinal w = Inr v \<and>
     unat v = (if decay_last_ordinal a < ordinal
               then decayed (unat (decay_value_ex a)) (unat (decay_last_ordinal a)) (unat ordinal) (unat w)
               else unat (decay_value_ex a))"
proof (cases "decay_last_ordinal a < ordinal \<and> unat ordinal < unat (decay_last_ordinal a) + unat w")
  case True
  define r where "r = unat w - (unat ordinal - unat (decay_last_ordinal a))"
  have ord: "unat (decay_last_ordinal a) < unat ordinal" using True by (simp add: word_less_nat_alt)
  have rem: "unat (ucast w - ucast (ordinal - decay_last_ordinal a) :: u128) = r"
  proof -
    have "unat (ordinal - decay_last_ordinal a) = unat ordinal - unat (decay_last_ordinal a)"
      using ord by (simp add: unat_sub_no_underflow)
    moreover have "unat ordinal - unat (decay_last_ordinal a) \<le> unat w" using True by arith
    ultimately show ?thesis by (simp add: unat_sub_no_underflow r_def)
  qed
  have "r < 2 ^ 32" using unsigned_less[of w, where ?'a = nat] by (simp add: r_def)
  then have no: "unat (decay_value_ex a) * r < 2 ^ 64 * 2 ^ 32"
    using unsigned_less[of "decay_value_ex a", where ?'a = nat] by (intro mult_strict_mono) simp_all
  have w: "(ucast w :: u128) \<noteq> 0" using True ord by (auto simp: word_unat_eq_iff)
  define d where "d = unat (decay_value_ex a) * r div unat w"
  have "d = decayed (unat (decay_value_ex a)) (unat (decay_last_ordinal a)) (unat ordinal) (unat w)"
    using True ord by (simp add: d_def r_def decayed_def)
  moreover have "d \<le> unat (decay_value_ex a)"
    using calculation decayed_le True ord by simp
  then have "d < 2 ^ 64" using unsigned_less[of "decay_value_ex a", where ?'a = nat] by simp
  then have "ratio_mult (ucast (decay_value_ex a)) (make_ratio (ucast w - ucast (ordinal - decay_last_ordinal a)) (ucast w)) =
      Inr (of_nat d :: u128)"
    using no w unfolding ratio_mult_Inr by (simp add: make_ratio_def rem d_def unat_of_nat)
  moreover have "downgrade_cast_u64 (of_nat d) = Inr (of_nat d)"
    using \<open>d < 2 ^ 64\<close> by (simp add: unat_of_nat)
  ultimately show ?thesis using True \<open>d < 2 ^ 64\<close>
    by (intro exI[of _ "of_nat d"]) (simp add: value_ex_at_def ucast_less_add_iff Let_def unat_of_nat)
next
  case False
  then show ?thesis
    using word_less_nat_alt[of "decay_last_ordinal a" ordinal]
    by (auto simp: value_ex_at_def ucast_less_add_iff decayed_def)
qed

text \<open>
  The limits the rule can leave: at least the maximum and at most its multiple, when the
  multiplier is positive and the multiple is representable.
\<close>

definition elastic_bounds :: "elastic_limit_parameters \<Rightarrow> u64 \<Rightarrow> bool" where
  "elastic_bounds p r \<longleftrightarrow>
     elp_max_multiplier p = 0 \<or> 2 ^ 64 \<le> unat (elp_max p) * unat (elp_max_multiplier p) \<or>
     (elp_max p \<le> r \<and> unat r \<le> unat (elp_max p) * unat (elp_max_multiplier p))"

lemma update_elastic_limit_elastic_bounds:
  assumes "update_elastic_limit current_limit average_usage p = Inr r"
  shows "elastic_bounds p r"
proof (cases "elp_max_multiplier p = 0 \<or> 2 ^ 64 \<le> unat (elp_max p) * unat (elp_max_multiplier p)")
  case False
  then have m: "unat (elp_max p * ucast (elp_max_multiplier p)) = unat (elp_max p) * unat (elp_max_multiplier p)"
    by (simp add: unat_mult_no_overflow)
  have "1 \<le> unat (elp_max_multiplier p)" using False by (simp add: Suc_le_eq unat_gt_0)
  then have "elp_max p \<le> elp_max p * ucast (elp_max_multiplier p)"
    unfolding word_le_nat_alt m by (cases "unat (elp_max_multiplier p)") simp_all
  with assms m show ?thesis
    by (auto simp: elastic_bounds_def update_elastic_limit_def min_def max_def word_le_nat_alt)
qed (auto simp: elastic_bounds_def)

section \<open>Properties\<close>

text \<open>
  C8. Adding usage to a moving-average accumulator succeeds exactly when the window is positive,
  the ordinal does not go back and no 64-bit quantity overflows; it then stores the exact value
  of the decayed average plus the new contribution, with no wrap-around.
\<close>

theorem accumulator_add_exact:
  "accumulator_add a units ordinal w = Inr a' \<longleftrightarrow>
     w \<noteq> 0 \<and> units \<le> max_raw_value \<and> unat (consumed a) + unat units < 2 ^ 64 \<and>
     unat (value_ex a) + div_ceil (unat units * 1000000) (unat w) < 2 ^ 64 \<and>
     last_ordinal a \<le> ordinal \<and>
     decay_product (unat (value_ex a)) (unat (last_ordinal a)) (unat ordinal) (unat w) < 2 ^ 64 \<and>
     last_ordinal a' = ordinal \<and>
     unat (value_ex a') =
       decayed (unat (value_ex a)) (unat (last_ordinal a)) (unat ordinal) (unat w) +
       div_ceil (unat units * 1000000) (unat w) \<and>
     unat (consumed a') =
       (if last_ordinal a = ordinal then unat (consumed a)
        else div_ceil (decayed (unat (value_ex a)) (unat (last_ordinal a)) (unat ordinal) (unat w)) 1000000) +
       unat units"
proof -
  have "decay_product (unat (value_ex a)) (unat (last_ordinal a)) (unat ordinal) (unat w) < 2 ^ 64 \<longleftrightarrow>
    (last_ordinal a < ordinal \<and> unat ordinal < unat (last_ordinal a) + unat w \<longrightarrow>
       unat (value_ex a) * (unat w - (unat ordinal - unat (last_ordinal a))) < 2 ^ 64)"
    by (auto simp: decay_product_def word_less_nat_alt)
  then show ?thesis unfolding accumulator_add_Inr by (simp only:)
qed

text \<open>
  C9. Adding a representable amount to a decay accumulator always succeeds: the value saturates at
  the largest 64-bit integer instead of wrapping around, and the ordinal never goes back.
\<close>

theorem decay_add_saturates:
  assumes "units \<le> max_raw_value"
  shows "\<exists>a'. decay_add a units ordinal w = Inr a' \<and>
    decay_last_ordinal a' = max (decay_last_ordinal a) ordinal \<and>
    unat (decay_value_ex a') =
      min (unat units * 1000000 +
           (if decay_last_ordinal a < ordinal
            then decayed (unat (decay_value_ex a)) (unat (decay_last_ordinal a)) (unat ordinal) (unat w)
            else unat (decay_value_ex a)))
          (2 ^ 64 - 1)"
proof -
  obtain v where v: "value_ex_at a ordinal w = Inr v" and
    uv: "unat v = (if decay_last_ordinal a < ordinal
       then decayed (unat (decay_value_ex a)) (unat (decay_last_ordinal a)) (unat ordinal) (unat w)
       else unat (decay_value_ex a))"
    using value_ex_at_eq by blast
  define n :: u128 where "n = min (ucast units * ucast rate_limiting_precision + ucast v) (ucast (-1 :: u64))"
  have "unat units * 1000000 + unat v < 2 ^ 128"
    using unsigned_less[of units, where ?'a = nat] unsigned_less[of v, where ?'a = nat] by simp
  then have un: "unat n = min (unat units * 1000000 + unat v) (2 ^ 64 - 1)"
    unfolding n_def min_def word_le_nat_alt
    by (simp add: unat_add_no_overflow unat_units_ex unat_max_word)
  then have "unat n < 2 ^ 64" by simp
  then have c: "downgrade_cast_u64 n = Inr (ucast n)"
    by (simp add: unsigned_ucast_eq take_bit_nat_eq_self)
  have st: "(if decay_last_ordinal a < ordinal
      then res_bind (value_ex_at a ordinal w) (\<lambda>v. Inr (a\<lparr>decay_value_ex := v, decay_last_ordinal := ordinal\<rparr>))
      else Inr a) = Inr \<lparr>decay_last_ordinal = max (decay_last_ordinal a) ordinal, decay_value_ex = v\<rparr>"
  proof (cases "decay_last_ordinal a < ordinal")
    case False
    then have "v = decay_value_ex a" using uv by (simp add: word_unat_eq_iff)
    with False show ?thesis by (cases a) (simp add: max_absorb1)
  qed (simp add: v max_def)
  have "decay_add a units ordinal w =
      Inr \<lparr>decay_last_ordinal = max (decay_last_ordinal a) ordinal, decay_value_ex = ucast n\<rparr>"
    using assms c unfolding decay_add_def st n_def by simp
  then show ?thesis
    using un \<open>unat n < 2 ^ 64\<close> uv by (simp add: unsigned_ucast_eq take_bit_nat_eq_self)
qed

theorem decay_add_saturates_witness:
  "\<exists>a'. decay_add \<lparr>decay_last_ordinal = 3, decay_value_ex = -1\<rparr> 5 3 10 = Inr a' \<and>
     decay_last_ordinal a' = 3 \<and> unat (decay_value_ex a') = 2 ^ 64 - 1"
proof -
  have "(5 :: u64) \<le> max_raw_value" by code_simp
  from decay_add_saturates[OF this, of "\<lparr>decay_last_ordinal = 3, decay_value_ex = -1\<rparr>" 3 10]
  show ?thesis by (simp add: unat_max_word)
qed

text \<open>
  The virtual limit of an elastic resource stays between the resource's maximum and its
  maximum times the multiplier, whatever the current limit and the average usage are.
\<close>

theorem update_elastic_limit_bounds:
  assumes "update_elastic_limit current_limit average_usage p = Inr r"
    and "0 < elp_max_multiplier p"
    and "unat (elp_max p) * unat (elp_max_multiplier p) < 2 ^ 64"
  shows "elp_max p \<le> r \<and> unat r \<le> unat (elp_max p) * unat (elp_max_multiplier p)"
  using update_elastic_limit_elastic_bounds[OF assms(1)] assms(2,3) by (auto simp: elastic_bounds_def)

theorem update_elastic_limit_bounds_witness:
  "\<exists>r. update_elastic_limit 100 50
      \<lparr>elp_target = 10, elp_max = 100, elp_periods = 120, elp_max_multiplier = 1000,
       elp_contract_rate = make_ratio 99 100, elp_expand_rate = make_ratio 1000 999\<rparr> = Inr r \<and>
     100 \<le> r \<and> unat r \<le> 100000"
proof -
  let ?p = "\<lparr>elp_target = 10, elp_max = 100, elp_periods = 120, elp_max_multiplier = 1000,
       elp_contract_rate = make_ratio 99 100, elp_expand_rate = make_ratio 1000 999\<rparr>"
  have "update_elastic_limit 100 50 ?p = Inr 100" by code_simp
  from update_elastic_limit_bounds[OF this] this show ?thesis by simp
qed

end
