(* ===== verification/Resource_Limits.thy ===== *)
theory Resource_Limits
  imports Names Tables Accumulators "HOL-Library.Product_Lexorder"
begin

text \<open>
  The resource limits manager (\<^verbatim>\<open>libraries/chain/resource_limits.cpp\<close> with the objects of
  \<^verbatim>\<open>resource_limits_private.hpp\<close>): the per-account limits, current and pending, the
  per-account usage, the chain-wide totals and the elastic block limits, and every operation
  the controller calls on them.

  The two single-row tables (configuration and state) exist from \<open>initialize_database\<close> on and
  are fields of the model's database; the two tables keyed by account are ordered tables. The
  calls of the deep-mind logger only print and are not modelled. The set of accounts an
  operation takes is the list of its members in ascending order.
\<close>

section \<open>Objects\<close>

record resource_limits_object =
  net_weight :: i64
  cpu_weight :: i64
  ram_bytes :: i64

definition resource_limits_object_default :: resource_limits_object where
  "resource_limits_object_default = \<lparr>net_weight = -1, cpu_weight = -1, ram_bytes = -1\<rparr>"

record resource_usage_object =
  net_usage :: usage_accumulator
  cpu_usage :: usage_accumulator
  ram_usage :: u64

definition resource_usage_object_default :: resource_usage_object where
  "resource_usage_object_default =
     \<lparr>net_usage = usage_accumulator_init, cpu_usage = usage_accumulator_init, ram_usage = 0\<rparr>"

record resource_limits_config_object =
  cpu_limit_parameters :: elastic_limit_parameters
  net_limit_parameters :: elastic_limit_parameters
  account_cpu_usage_average_window :: u32
  account_net_usage_average_window :: u32

record resource_limits_state_object =
  average_block_net_usage :: usage_accumulator
  average_block_cpu_usage :: usage_accumulator
  pending_net_usage :: u64
  pending_cpu_usage :: u64
  total_net_weight :: u64
  total_cpu_weight :: u64
  total_ram_bytes :: u64
  virtual_net_limit :: u64
  virtual_cpu_limit :: u64

record resource_db =
  rl_limits :: "(bool \<times> name, resource_limits_object) table"
  rl_usage :: "(name, resource_usage_object) table"
  rl_state :: resource_limits_state_object
  rl_config :: resource_limits_config_object

section \<open>Configuration\<close>

definition maximum_elastic_resource_multiplier :: u32 where
  "maximum_elastic_resource_multiplier = 1000"

definition EOS_PERCENT :: "u64 \<Rightarrow> u32 \<Rightarrow> u64" where
  "EOS_PERCENT v percentage = (v * ucast percentage) div 10000"

definition default_config :: resource_limits_config_object where
  "default_config =
    \<lparr>cpu_limit_parameters =
       \<lparr>elp_target = EOS_PERCENT 200000 (10 * 100), elp_max = 200000, elp_periods = 60 * 1000 div 500,
        elp_max_multiplier = 1000, elp_contract_rate = make_ratio 99 100,
        elp_expand_rate = make_ratio 1000 999\<rparr>,
     net_limit_parameters =
       \<lparr>elp_target = EOS_PERCENT (1024 * 1024) (10 * 100), elp_max = 1024 * 1024,
        elp_periods = 60 * 1000 div 500, elp_max_multiplier = 1000,
        elp_contract_rate = make_ratio 99 100, elp_expand_rate = make_ratio 1000 999\<rparr>,
     account_cpu_usage_average_window = 24 * 60 * 60 * 1000 div 500,
     account_net_usage_average_window = 24 * 60 * 60 * 1000 div 500\<rparr>"

definition initialize_database :: resource_db where
  "initialize_database =
    \<lparr>rl_limits = [], rl_usage = [],
     rl_state =
       \<lparr>average_block_net_usage = usage_accumulator_init, average_block_cpu_usage = usage_accumulator_init,
        pending_net_usage = 0, pending_cpu_usage = 0, total_net_weight = 0, total_cpu_weight = 0,
        total_ram_bytes = 0,
        virtual_net_limit = elp_max (net_limit_parameters default_config),
        virtual_cpu_limit = elp_max (cpu_limit_parameters default_config)\<rparr>,
     rl_config = default_config\<rparr>"

section \<open>Operations\<close>

definition update_virtual_cpu_limit ::
  "resource_limits_config_object \<Rightarrow> resource_limits_state_object \<Rightarrow> resource_limits_state_object res" where
  "update_virtual_cpu_limit cfg s =
     res_bind (average (average_block_cpu_usage s)) (\<lambda>avg.
     res_bind (update_elastic_limit (virtual_cpu_limit s) avg (cpu_limit_parameters cfg)) (\<lambda>l.
     Inr (s\<lparr>virtual_cpu_limit := l\<rparr>)))"

definition update_virtual_net_limit ::
  "resource_limits_config_object \<Rightarrow> resource_limits_state_object \<Rightarrow> resource_limits_state_object res" where
  "update_virtual_net_limit cfg s =
     res_bind (average (average_block_net_usage s)) (\<lambda>avg.
     res_bind (update_elastic_limit (virtual_net_limit s) avg (net_limit_parameters cfg)) (\<lambda>l.
     Inr (s\<lparr>virtual_net_limit := l\<rparr>)))"

definition initialize_account :: "name \<Rightarrow> resource_db \<Rightarrow> resource_db res" where
  "initialize_account account db =
     res_bind (tbl_create (False, account) resource_limits_object_default (rl_limits db)) (\<lambda>limits.
     res_bind (tbl_create account resource_usage_object_default (rl_usage db)) (\<lambda>usage.
     Inr (db\<lparr>rl_limits := limits, rl_usage := usage\<rparr>)))"

definition set_block_parameters ::
  "elastic_limit_parameters \<Rightarrow> elastic_limit_parameters \<Rightarrow> resource_db \<Rightarrow> resource_db res" where
  "set_block_parameters cpu net db =
     res_bind (elastic_limit_parameters_validate cpu) (\<lambda>_.
     res_bind (elastic_limit_parameters_validate net) (\<lambda>_.
     if cpu_limit_parameters (rl_config db) = cpu \<and> net_limit_parameters (rl_config db) = net then Inr db
     else Inr (db\<lparr>rl_config := (rl_config db)\<lparr>cpu_limit_parameters := cpu, net_limit_parameters := net\<rparr>\<rparr>)))"

definition update_one_account_usage :: "u32 \<Rightarrow> name \<Rightarrow> resource_db \<Rightarrow> resource_db res" where
  "update_one_account_usage time_slot a db =
     res_bind (tbl_get (rl_usage db) a) (\<lambda>bu.
     res_bind (accumulator_add (net_usage bu) 0 time_slot (account_net_usage_average_window (rl_config db))) (\<lambda>nu.
     res_bind (accumulator_add (cpu_usage bu) 0 time_slot (account_cpu_usage_average_window (rl_config db))) (\<lambda>cu.
     Inr (db\<lparr>rl_usage := tbl_insert a (bu\<lparr>net_usage := nu, cpu_usage := cu\<rparr>) (rl_usage db)\<rparr>))))"

definition update_account_usage :: "name list \<Rightarrow> u32 \<Rightarrow> resource_db \<Rightarrow> resource_db res" where
  "update_account_usage accounts time_slot = for_each (update_one_account_usage time_slot) accounts"

definition get_account_limits :: "resource_db \<Rightarrow> name \<Rightarrow> resource_limits_object res" where
  "get_account_limits db account =
     (case tbl_find (rl_limits db) (True, account) of
        Some pending_buo \<Rightarrow> Inr pending_buo
      | None \<Rightarrow> tbl_get (rl_limits db) (False, account))"

text \<open>
  The test that both halves of \<open>add_transaction_usage\<close> make, on the quantities of one resource:
  the weight of the account, the total weight, the averaging window, the virtual limit and the
  account's accumulated usage.
\<close>

definition check_window_usage :: "exn \<Rightarrow> i64 \<Rightarrow> u64 \<Rightarrow> u32 \<Rightarrow> u64 \<Rightarrow> u64 \<Rightarrow> unit res" where
  "check_window_usage e weight total_weight window virtual_limit usage_value_ex =
     (if 0 \<le>s weight \<and> 0 < total_weight then
        let window_size = ucast window :: u128;
            virtual_network_capacity_in_window = ucast virtual_limit * window_size;
            used_in_window = (ucast usage_value_ex * window_size) div ucast rate_limiting_precision;
            user_weight = scast weight :: u128;
            all_user_weight = ucast total_weight :: u128;
            max_user_use_in_window = (virtual_network_capacity_in_window * user_weight) div all_user_weight
        in eos_assert (used_in_window \<le> max_user_use_in_window) e (Inr ())
      else Inr ())"

definition add_transaction_usage_account ::
  "u64 \<Rightarrow> u64 \<Rightarrow> u32 \<Rightarrow> name \<Rightarrow> resource_db \<Rightarrow> resource_db res" where
  "add_transaction_usage_account cpu net time_slot a db =
     res_bind (tbl_get (rl_usage db) a) (\<lambda>bu.
     res_bind (get_account_limits db a) (\<lambda>limits.
     res_bind (accumulator_add (net_usage bu) net time_slot (account_net_usage_average_window (rl_config db))) (\<lambda>nu.
     res_bind (accumulator_add (cpu_usage bu) cpu time_slot (account_cpu_usage_average_window (rl_config db))) (\<lambda>cu.
     res_bind (check_window_usage tx_cpu_usage_exceeded (cpu_weight limits) (total_cpu_weight (rl_state db))
                 (account_cpu_usage_average_window (rl_config db)) (virtual_cpu_limit (rl_state db)) (value_ex cu)) (\<lambda>_.
     res_bind (check_window_usage tx_net_usage_exceeded (net_weight limits) (total_net_weight (rl_state db))
                 (account_net_usage_average_window (rl_config db)) (virtual_net_limit (rl_state db)) (value_ex nu)) (\<lambda>_.
     Inr (db\<lparr>rl_usage := tbl_insert a (bu\<lparr>net_usage := nu, cpu_usage := cu\<rparr>) (rl_usage db)\<rparr>)))))))"

definition add_transaction_usage ::
  "name list \<Rightarrow> u64 \<Rightarrow> u64 \<Rightarrow> u32 \<Rightarrow> resource_db \<Rightarrow> resource_db res" where
  "add_transaction_usage accounts cpu net time_slot db =
     res_bind (for_each (add_transaction_usage_account cpu net time_slot) accounts db) (\<lambda>db.
     let st = (rl_state db)\<lparr>pending_cpu_usage := pending_cpu_usage (rl_state db) + cpu,
                            pending_net_usage := pending_net_usage (rl_state db) + net\<rparr> in
     eos_assert (pending_cpu_usage st \<le> elp_max (cpu_limit_parameters (rl_config db))) block_resource_exhausted (
     eos_assert (pending_net_usage st \<le> elp_max (net_limit_parameters (rl_config db))) block_resource_exhausted (
     Inr (db\<lparr>rl_state := st\<rparr>))))"

text \<open>A signed change is negated before it is converted to an unsigned amount, which overflows for the least one.\<close>

definition int64_min :: i64 where
  "int64_min = 9223372036854775808"

definition add_pending_ram_usage :: "name \<Rightarrow> i64 \<Rightarrow> resource_db \<Rightarrow> resource_db res" where
  "add_pending_ram_usage account ram_delta db =
     (if ram_delta = 0 then Inr db
      else
        res_bind (tbl_get (rl_usage db) account) (\<lambda>u.
        eos_assert (ram_delta \<le>s 0 \<or> ram_delta \<le> -1 - ram_usage u) transaction_exception (
        if ram_delta = int64_min then Inl undefined_behavior
        else eos_assert (0 \<le>s ram_delta \<or> - ram_delta \<le> ram_usage u) transaction_exception (
        Inr (db\<lparr>rl_usage := tbl_insert account (u\<lparr>ram_usage := ram_usage u + ram_delta\<rparr>) (rl_usage db)\<rparr>)))))"

definition verify_account_ram_usage :: "resource_db \<Rightarrow> name \<Rightarrow> unit res" where
  "verify_account_ram_usage db account =
     res_bind (get_account_limits db account) (\<lambda>limits.
     res_bind (tbl_get (rl_usage db) account) (\<lambda>usage.
     if 0 \<le>s ram_bytes limits
     then eos_assert (ram_usage usage \<le> ram_bytes limits) ram_usage_exceeded (Inr ())
     else Inr ()))"

definition get_account_ram_usage :: "resource_db \<Rightarrow> name \<Rightarrow> i64 res" where
  "get_account_ram_usage db account =
     res_bind (tbl_get (rl_usage db) account) (\<lambda>usage. Inr (ram_usage usage))"

definition find_or_create_pending_limits ::
  "name \<Rightarrow> resource_db \<Rightarrow> (resource_limits_object \<times> resource_db) res" where
  "find_or_create_pending_limits account db =
     (case tbl_find (rl_limits db) (True, account) of
        None \<Rightarrow>
          res_bind (tbl_get (rl_limits db) (False, account)) (\<lambda>limits.
          res_bind (tbl_create (True, account) limits (rl_limits db)) (\<lambda>t.
          Inr (limits, db\<lparr>rl_limits := t\<rparr>)))
      | Some pending_limits \<Rightarrow> Inr (pending_limits, db))"

definition set_account_limits ::
  "name \<Rightarrow> i64 \<Rightarrow> i64 \<Rightarrow> i64 \<Rightarrow> resource_db \<Rightarrow> (bool \<times> resource_db) res" where
  "set_account_limits account ram net cpu db =
     res_bind (find_or_create_pending_limits account db) (\<lambda>(limits, db).
     let decreased_limit = (if 0 \<le>s ram then ram_bytes limits <s 0 \<or> ram <s ram_bytes limits else False);
         limits' = limits\<lparr>ram_bytes := ram, net_weight := net, cpu_weight := cpu\<rparr>
     in Inr (decreased_limit, db\<lparr>rl_limits := tbl_insert (True, account) limits' (rl_limits db)\<rparr>))"

definition is_unlimited_cpu :: "resource_db \<Rightarrow> name \<Rightarrow> bool" where
  "is_unlimited_cpu db account =
     (case tbl_find (rl_limits db) (False, account) of
        Some buo \<Rightarrow> cpu_weight buo = -1
      | None \<Rightarrow> False)"

text \<open>\<open>update_state_and_value\<close> returns the new total; the new value is the pending one.\<close>

definition update_state_and_value :: "u64 \<Rightarrow> i64 \<Rightarrow> i64 \<Rightarrow> u64 res" where
  "update_state_and_value tot v pending_value =
     res_bind
       (if 0 <s v then eos_assert (v \<le> tot) rate_limiting_state_inconsistent (Inr (tot - v))
        else Inr tot) (\<lambda>tot.
     if 0 <s pending_value
     then eos_assert (pending_value \<le> -1 - tot) rate_limiting_state_inconsistent (Inr (tot + pending_value))
     else Inr tot)"

definition process_one_limit_update ::
  "resource_limits_object \<Rightarrow> resource_limits_object \<Rightarrow> resource_limits_state_object \<Rightarrow>
   resource_limits_state_object res" where
  "process_one_limit_update rlo pending rso =
     res_bind (update_state_and_value (total_ram_bytes rso) (ram_bytes rlo) (ram_bytes pending)) (\<lambda>ram.
     res_bind (update_state_and_value (total_cpu_weight rso) (cpu_weight rlo) (cpu_weight pending)) (\<lambda>cpu.
     res_bind (update_state_and_value (total_net_weight rso) (net_weight rlo) (net_weight pending)) (\<lambda>net.
     Inr (rso\<lparr>total_ram_bytes := ram, total_cpu_weight := cpu, total_net_weight := net\<rparr>))))"

function process_limits_loop ::
  "resource_limits_state_object \<Rightarrow> (bool \<times> name, resource_limits_object) table \<Rightarrow>
   (resource_limits_state_object \<times> (bool \<times> name, resource_limits_object) table) res" where
  "process_limits_loop rso t =
     (case tbl_lower_bound t (True, 0) of
        None \<Rightarrow> Inr (rso, t)
      | Some ((pending, owner), row) \<Rightarrow>
          if \<not> pending then Inr (rso, t)
          else
            res_bind (tbl_get t (False, owner)) (\<lambda>rlo.
            res_bind (process_one_limit_update rlo row rso) (\<lambda>rso.
            process_limits_loop rso
              (tbl_remove (True, owner)
                (tbl_insert (False, owner)
                  (rlo\<lparr>ram_bytes := ram_bytes row, cpu_weight := cpu_weight row, net_weight := net_weight row\<rparr>) t)))))"
  by pat_completeness auto
termination
proof (relation "measure (\<lambda>(rso, t). length (filter (\<lambda>r. fst (fst r)) t))", goal_cases)
  case (2 rso t kr key row pending owner rlo rso')
  define t' where "t' = tbl_insert (False, owner)
    (rlo\<lparr>ram_bytes := ram_bytes row, cpu_weight := cpu_weight row, net_weight := net_weight row\<rparr>) t"
  have "tbl_lower_bound t (True, 0) = Some ((True, owner), row)" using 2 by simp
  then have "((True, owner), row) \<in> set t'"
    unfolding t'_def by (simp add: mem_tbl_insert_other tbl_lower_bound_Some)
  then have "length (filter (\<lambda>r. fst (fst r)) (tbl_remove (True, owner) t')) < length (filter (\<lambda>r. fst (fst r)) t')"
    by (rule length_filter_tbl_remove_less) simp
  moreover have "filter (\<lambda>r. fst (fst r)) t' = filter (\<lambda>r. fst (fst r)) t"
    unfolding t'_def by (rule filter_tbl_insert_other) simp
  ultimately show ?case by (simp only: t'_def in_measure prod.case)
qed simp

definition process_account_limit_updates :: "resource_db \<Rightarrow> resource_db res" where
  "process_account_limit_updates db =
     res_bind (process_limits_loop (rl_state db) (rl_limits db)) (\<lambda>(rso, t).
     Inr (db\<lparr>rl_state := rso, rl_limits := t\<rparr>))"

definition process_block_usage :: "u32 \<Rightarrow> resource_db \<Rightarrow> resource_db res" where
  "process_block_usage block_num db =
     (let st = rl_state db; config = rl_config db in
      res_bind (accumulator_add (average_block_cpu_usage st) (pending_cpu_usage st) block_num
                  (elp_periods (cpu_limit_parameters config))) (\<lambda>cu.
      res_bind (update_virtual_cpu_limit config (st\<lparr>average_block_cpu_usage := cu\<rparr>)) (\<lambda>st.
      let st = st\<lparr>pending_cpu_usage := 0\<rparr> in
      res_bind (accumulator_add (average_block_net_usage st) (pending_net_usage st) block_num
                  (elp_periods (net_limit_parameters config))) (\<lambda>nu.
      res_bind (update_virtual_net_limit config (st\<lparr>average_block_net_usage := nu\<rparr>)) (\<lambda>st.
      Inr (db\<lparr>rl_state := st\<lparr>pending_net_usage := 0\<rparr>\<rparr>))))))"

definition get_total_cpu_weight :: "resource_db \<Rightarrow> u64" where
  "get_total_cpu_weight db = total_cpu_weight (rl_state db)"

definition get_total_net_weight :: "resource_db \<Rightarrow> u64" where
  "get_total_net_weight db = total_net_weight (rl_state db)"

definition get_virtual_block_cpu_limit :: "resource_db \<Rightarrow> u64" where
  "get_virtual_block_cpu_limit db = virtual_cpu_limit (rl_state db)"

definition get_virtual_block_net_limit :: "resource_db \<Rightarrow> u64" where
  "get_virtual_block_net_limit db = virtual_net_limit (rl_state db)"

definition get_block_cpu_limit :: "resource_db \<Rightarrow> u64" where
  "get_block_cpu_limit db = elp_max (cpu_limit_parameters (rl_config db)) - pending_cpu_usage (rl_state db)"

definition get_block_net_limit :: "resource_db \<Rightarrow> u64" where
  "get_block_net_limit db = elp_max (net_limit_parameters (rl_config db)) - pending_net_usage (rl_state db)"

text \<open>A \<^verbatim>\<open>block_timestamp_type\<close> is its 32-bit slot number.\<close>

record account_resource_limit =
  arl_used :: i64
  arl_available :: i64
  arl_max :: i64
  arl_last_usage_update_time :: u32
  arl_current_used :: i64

text \<open>
  The bodies of \<open>get_account_cpu_limit_ex\<close> and \<open>get_account_net_limit_ex\<close> are the same code over
  the quantities of one resource: the weight of the account, the total weight, the averaging
  window, the block maximum, the virtual limit and the account's accumulated usage.
\<close>

definition used_in_window :: "usage_accumulator \<Rightarrow> u32 \<Rightarrow> u128 res" where
  "used_in_window u window =
     integer_divide_ceil (ucast (value_ex u) * ucast window :: u128) (ucast rate_limiting_precision)"

definition account_limit_ex ::
  "i64 \<Rightarrow> u64 \<Rightarrow> u32 \<Rightarrow> u64 \<Rightarrow> u64 \<Rightarrow> usage_accumulator \<Rightarrow> u32 \<Rightarrow> u32 option \<Rightarrow>
   (account_resource_limit \<times> bool) res" where
  "account_limit_ex weight total_weight window block_max virtual_limit u greylist_limit current_time =
     (if weight <s 0 \<or> total_weight = 0 then
        Inr (\<lparr>arl_used = -1, arl_available = -1, arl_max = -1,
              arl_last_usage_update_time = last_ordinal u, arl_current_used = -1\<rparr>, False)
      else
        let window_size = ucast window :: u128;
            greylisted_virtual_limit = block_max * ucast greylist_limit;
            greylisted = (greylist_limit < maximum_elastic_resource_multiplier \<and>
                          greylisted_virtual_limit < virtual_limit);
            capacity_in_window = window_size * ucast (if greylisted then greylisted_virtual_limit else virtual_limit);
            user_weight = scast weight :: u128;
            all_user_weight = ucast total_weight :: u128;
            max_user_use_in_window = (capacity_in_window * user_weight) div all_user_weight
        in
        res_bind (used_in_window u window) (\<lambda>used.
        res_bind (if max_user_use_in_window \<le> used then Inr 0
                  else downgrade_cast_i64 (max_user_use_in_window - used)) (\<lambda>available.
        res_bind (downgrade_cast_i64 used) (\<lambda>arl_u.
        res_bind (downgrade_cast_i64 max_user_use_in_window) (\<lambda>arl_m.
        res_bind
          (case current_time of
             None \<Rightarrow> Inr arl_u
           | Some slot \<Rightarrow>
               if last_ordinal u < slot then
                 res_bind (accumulator_add u 0 slot (ucast window_size)) (\<lambda>history_usage.
                 res_bind (used_in_window history_usage window) downgrade_cast_i64)
               else Inr arl_u) (\<lambda>current_used.
        Inr (\<lparr>arl_used = arl_u, arl_available = available, arl_max = arl_m,
              arl_last_usage_update_time = last_ordinal u, arl_current_used = current_used\<rparr>, greylisted)))))))"

definition get_account_cpu_limit_ex ::
  "resource_db \<Rightarrow> name \<Rightarrow> u32 \<Rightarrow> u32 option \<Rightarrow> (account_resource_limit \<times> bool) res" where
  "get_account_cpu_limit_ex db account greylist_limit current_time =
     res_bind (tbl_get (rl_usage db) account) (\<lambda>usage.
     res_bind (get_account_limits db account) (\<lambda>limits.
     account_limit_ex (cpu_weight limits) (total_cpu_weight (rl_state db))
       (account_cpu_usage_average_window (rl_config db)) (elp_max (cpu_limit_parameters (rl_config db)))
       (virtual_cpu_limit (rl_state db)) (cpu_usage usage) greylist_limit current_time))"

definition get_account_net_limit_ex ::
  "resource_db \<Rightarrow> name \<Rightarrow> u32 \<Rightarrow> u32 option \<Rightarrow> (account_resource_limit \<times> bool) res" where
  "get_account_net_limit_ex db account greylist_limit current_time =
     res_bind (tbl_get (rl_usage db) account) (\<lambda>usage.
     res_bind (get_account_limits db account) (\<lambda>limits.
     account_limit_ex (net_weight limits) (total_net_weight (rl_state db))
       (account_net_usage_average_window (rl_config db)) (elp_max (net_limit_parameters (rl_config db)))
       (virtual_net_limit (rl_state db)) (net_usage usage) greylist_limit current_time))"

definition get_account_cpu_limit :: "resource_db \<Rightarrow> name \<Rightarrow> u32 \<Rightarrow> (i64 \<times> bool) res" where
  "get_account_cpu_limit db account greylist_limit =
     res_bind (get_account_cpu_limit_ex db account greylist_limit None) (\<lambda>(arl, greylisted).
     Inr (arl_available arl, greylisted))"

definition get_account_net_limit :: "resource_db \<Rightarrow> name \<Rightarrow> u32 \<Rightarrow> (i64 \<times> bool) res" where
  "get_account_net_limit db account greylist_limit =
     res_bind (get_account_net_limit_ex db account greylist_limit None) (\<lambda>(arl, greylisted).
     Inr (arl_available arl, greylisted))"

declare process_limits_loop.simps [simp del]

section \<open>The transition system of the manager\<close>

text \<open>
  One call of an operation that changes the database, when it does not throw; a call that throws
  leaves the database as it was, because its caller undoes its session.
\<close>

inductive rl_step :: "resource_db \<Rightarrow> resource_db \<Rightarrow> bool" where
  step_initialize_account: "initialize_account a db = Inr db' \<Longrightarrow> rl_step db db'"
| step_set_block_parameters: "set_block_parameters cpu net db = Inr db' \<Longrightarrow> rl_step db db'"
| step_update_account_usage: "update_account_usage as slot db = Inr db' \<Longrightarrow> rl_step db db'"
| step_add_transaction_usage: "add_transaction_usage as cpu_us net_us slot db = Inr db' \<Longrightarrow> rl_step db db'"
| step_add_pending_ram_usage: "add_pending_ram_usage a delta db = Inr db' \<Longrightarrow> rl_step db db'"
| step_set_account_limits: "set_account_limits a ram netw cpuw db = Inr (dec, db') \<Longrightarrow> rl_step db db'"
| step_process_account_limit_updates: "process_account_limit_updates db = Inr db' \<Longrightarrow> rl_step db db'"
| step_process_block_usage: "process_block_usage n db = Inr db' \<Longrightarrow> rl_step db db'"

definition rl_reachable :: "resource_db \<Rightarrow> bool" where
  "rl_reachable db \<longleftrightarrow> rl_step\<^sup>*\<^sup>* initialize_database db"

text \<open>
  A weight that is not positive counts for nothing. The active rows are those that are not
  pending, and the totals of the state are the sums of their positive weights.
\<close>

definition pos_part :: "i64 \<Rightarrow> nat" where
  "pos_part w = (if 0 <s w then unat w else 0)"

definition active_sum ::
  "(resource_limits_object \<Rightarrow> i64) \<Rightarrow> (bool \<times> name, resource_limits_object) table \<Rightarrow> nat" where
  "active_sum f t = tbl_sum (\<lambda>(k, r). if fst k then 0 else pos_part (f r)) t"

definition pending_sum ::
  "(resource_limits_object \<Rightarrow> i64) \<Rightarrow> (bool \<times> name, resource_limits_object) table \<Rightarrow> nat" where
  "pending_sum f t = tbl_sum (\<lambda>(k, r). if fst k then pos_part (f r) else 0) t"

definition limits_wf :: "(bool \<times> name, resource_limits_object) table \<Rightarrow> bool" where
  "limits_wf t \<longleftrightarrow> tbl_wf t \<and>
     (\<forall>a. tbl_find t (True, a) \<noteq> None \<longrightarrow> tbl_find t (False, a) \<noteq> None)"

definition totals_ok ::
  "resource_limits_state_object \<Rightarrow> (bool \<times> name, resource_limits_object) table \<Rightarrow> bool" where
  "totals_ok st t \<longleftrightarrow>
     unat (total_ram_bytes st) = active_sum ram_bytes t \<and>
     unat (total_cpu_weight st) = active_sum cpu_weight t \<and>
     unat (total_net_weight st) = active_sum net_weight t"

definition rl_inv :: "resource_db \<Rightarrow> bool" where
  "rl_inv db \<longleftrightarrow> limits_wf (rl_limits db) \<and> tbl_wf (rl_usage db) \<and> totals_ok (rl_state db) (rl_limits db)"

lemma update_state_and_value_Inr:
  "update_state_and_value tot v p = Inr tot' \<longleftrightarrow>
     pos_part v \<le> unat tot \<and> unat tot - pos_part v + pos_part p < 2 ^ 64 \<and>
     unat tot' = unat tot - pos_part v + pos_part p"
proof -
  have tot: "unat tot < 2 ^ 64" using unsigned_less[of tot, where ?'a = nat] by simp
  define mid where "mid = (if 0 <s v then tot - v else tot)"
  have mid: "unat mid = unat tot - pos_part v" if "pos_part v \<le> unat tot"
    using that by (auto simp: mid_def pos_part_def unat_sub_no_underflow)
  have fin: "unat (if 0 <s p then mid + p else mid) = unat mid + pos_part p"
    if "unat mid + pos_part p < 2 ^ 64"
    using that by (auto simp: pos_part_def unat_add_no_overflow)
  have "update_state_and_value tot v p = Inr tot' \<longleftrightarrow>
      pos_part v \<le> unat tot \<and> unat mid + pos_part p < 2 ^ 64 \<and> tot' = (if 0 <s p then mid + p else mid)"
    using unsigned_less[of mid, where ?'a = nat]
    by (auto simp: update_state_and_value_def mid_def pos_part_def word_le_nat_alt[of v]
        le_max_minus_iff)
  also have "\<dots> \<longleftrightarrow> pos_part v \<le> unat tot \<and> unat mid + pos_part p < 2 ^ 64 \<and> unat tot' = unat mid + pos_part p"
    using fin by (auto simp: word_unat_eq_iff)
  also have "\<dots> \<longleftrightarrow> pos_part v \<le> unat tot \<and> unat tot - pos_part v + pos_part p < 2 ^ 64 \<and>
     unat tot' = unat tot - pos_part v + pos_part p"
    using mid by auto
  finally show ?thesis .
qed

lemma update_state_and_value_succeeds:
  assumes "pos_part v \<le> unat tot" "unat tot - pos_part v + pos_part p < 2 ^ 64"
  shows "\<exists>tot'. update_state_and_value tot v p = Inr tot'"
  using assms ex_unat_eq[of "unat tot - pos_part v + pos_part p" "\<lambda>_ :: u64. True"]
  by (simp add: update_state_and_value_Inr)

lemma tbl_sum_split: "tbl_sum g t + tbl_sum h t = tbl_sum (\<lambda>r. g r + h r) t"
  by (induction t) simp_all

lemma active_sum_insert_pending [simp]: "active_sum f (tbl_insert (True, a) r t) = active_sum f t"
  unfolding active_sum_def by (induction "(True, a)" r t rule: tbl_insert.induct) auto

lemma active_sum_insert_new:
  "tbl_find t (False, a) = None \<Longrightarrow> active_sum f (tbl_insert (False, a) r t) = active_sum f t + pos_part (f r)"
  unfolding active_sum_def by (simp add: tbl_sum_insert_new)

lemma active_sum_member: "tbl_find t (False, a) = Some r \<Longrightarrow> pos_part (f r) \<le> active_sum f t"
  using tbl_sum_member[of t "(False, a)" r "\<lambda>(k, r). if fst k then 0 else pos_part (f r)"]
  by (simp add: active_sum_def)

lemma pending_sum_member: "tbl_find t (True, a) = Some r \<Longrightarrow> pos_part (f r) \<le> pending_sum f t"
  using tbl_sum_member[of t "(True, a)" r "\<lambda>(k, r). if fst k then pos_part (f r) else 0"]
  by (simp add: pending_sum_def)

text \<open>One round of the loop: the pending row replaces the active one and is removed.\<close>

definition apply_pending ::
  "name \<Rightarrow> resource_limits_object \<Rightarrow> (bool \<times> name, resource_limits_object) table \<Rightarrow>
   (bool \<times> name, resource_limits_object) table" where
  "apply_pending a r t = tbl_remove (True, a) (tbl_insert (False, a) r t)"

lemma apply_pending_sums:
  assumes "tbl_wf t" "tbl_find t (True, a) = Some r" "tbl_find t (False, a) = Some old"
  shows "active_sum f (apply_pending a r t) + pos_part (f old) = active_sum f t + pos_part (f r)"
    and "pending_sum f (apply_pending a r t) + pos_part (f r) = pending_sum f t"
proof -
  have i: "tbl_sum g (apply_pending a r t) + g ((True, a), r) + g ((False, a), old) = tbl_sum g t + g ((False, a), r)"
    for g :: "(bool \<times> name) \<times> resource_limits_object \<Rightarrow> nat"
    using tbl_sum_remove[of "tbl_insert (False, a) r t" "(True, a)" r g]
      tbl_sum_insert_old[of t "(False, a)" old g r] assms by (simp add: apply_pending_def)
  show "active_sum f (apply_pending a r t) + pos_part (f old) = active_sum f t + pos_part (f r)"
    using i[of "\<lambda>(k, r). if fst k then 0 else pos_part (f r)"] by (simp add: active_sum_def)
  show "pending_sum f (apply_pending a r t) + pos_part (f r) = pending_sum f t"
    using i[of "\<lambda>(k, r). if fst k then pos_part (f r) else 0"] by (simp add: pending_sum_def)
qed

lemma tbl_find_apply_pending [simp]:
  "tbl_wf t \<Longrightarrow> tbl_find (apply_pending a r t) k =
     (if k = (True, a) then None else if k = (False, a) then Some r else tbl_find t k)"
  by (auto simp: apply_pending_def)

lemma limits_wf_apply_pending: "limits_wf t \<Longrightarrow> limits_wf (apply_pending a r t)"
  by (auto simp: limits_wf_def apply_pending_def)

lemma apply_pending_fewer:
  assumes "tbl_wf t" "tbl_find t (True, a) = Some r"
  shows "length (filter (\<lambda>r. fst (fst r)) (apply_pending a r t)) < length (filter (\<lambda>r. fst (fst r)) t)"
proof -
  have "((True, a), r) \<in> set (tbl_insert (False, a) r t)"
    using assms by (simp add: mem_tbl_insert_other tbl_find_iff)
  then show ?thesis
    using length_filter_tbl_remove_less[where P = fst] filter_tbl_insert_other[of fst "(False, a)"]
    unfolding apply_pending_def by (metis fst_conv)
qed

text \<open>The loop in terms of its rounds.\<close>

lemma process_limits_loop_done:
  assumes "\<And>a. tbl_find t (True, a) = None"
  shows "process_limits_loop rso t = Inr (rso, t)"
proof (cases "tbl_lower_bound t (True, 0)")
  case None
  then show ?thesis by (simp add: process_limits_loop.simps)
next
  case (Some kr)
  obtain p a r where kr: "kr = ((p, a), r)" by (metis surj_pair)
  then have "((p, a), r) \<in> set t" "p"
    using tbl_lower_bound_Some[of t "(True, 0)" "(p, a)" r] Some by auto
  then show ?thesis using assms[of a] by (force simp: tbl_find_None image_iff)
qed

lemma process_limits_loop_round:
  assumes "limits_wf t" "tbl_find t (True, b) \<noteq> None"
  obtains a r old where "tbl_find t (True, a) = Some r" "tbl_find t (False, a) = Some old"
    "process_limits_loop rso t =
       res_bind (process_one_limit_update old r rso) (\<lambda>rso'. process_limits_loop rso' (apply_pending a r t))"
proof -
  obtain p a r where lb: "tbl_lower_bound t (True, 0) = Some ((p, a), r)"
  proof (cases "tbl_lower_bound t (True, 0)")
    case None
    moreover have "(True, b) \<in> fst ` set t" using assms(2) by (simp add: tbl_find_None)
    ultimately have "(True, b) < (True, 0)" unfolding tbl_lower_bound_None by blast
    then show ?thesis by simp
  next
    case (Some kr)
    then show ?thesis using that by (metis surj_pair)
  qed
  from tbl_lower_bound_Some[OF lb] have p: "p" and m: "((p, a), r) \<in> set t" by auto
  have r: "tbl_find t (True, a) = Some r"
    using m p assms(1) by (auto simp: limits_wf_def tbl_find_iff)
  then obtain old where old: "tbl_find t (False, a) = Some old"
    using assms(1) by (auto simp: limits_wf_def)
  have upd: "old\<lparr>ram_bytes := ram_bytes r, cpu_weight := cpu_weight r, net_weight := net_weight r\<rparr> = r" by simp
  have "process_limits_loop rso t =
      res_bind (process_one_limit_update old r rso) (\<lambda>rso'. process_limits_loop rso' (apply_pending a r t))"
    using lb p old by (subst process_limits_loop.simps) (simp add: tbl_get_def apply_pending_def upd)
  with r old that show thesis by blast
qed

lemma process_one_limit_update_Inr:
  assumes "totals_ok rso t" "tbl_wf t" "tbl_find t (True, a) = Some r" "tbl_find t (False, a) = Some old"
    and "process_one_limit_update old r rso = Inr rso'"
  shows "totals_ok rso' (apply_pending a r t)"
proof -
  have "active_sum f (apply_pending a r t) = active_sum f t - pos_part (f old) + pos_part (f r)" for f
    using apply_pending_sums(1)[OF assms(2-4), of f] active_sum_member[OF assms(4), of f] by linarith
  then show ?thesis using assms(1,5)
    by (auto simp: process_one_limit_update_def totals_ok_def update_state_and_value_Inr)
qed

lemma process_one_limit_update_succeeds:
  assumes "totals_ok rso t" "tbl_find t (True, a) = Some r" "tbl_find t (False, a) = Some old"
    and "\<And>f. f \<in> {ram_bytes, cpu_weight, net_weight} \<Longrightarrow> active_sum f t + pending_sum f t < 2 ^ 64"
  shows "\<exists>rso'. process_one_limit_update old r rso = Inr rso'"
proof -
  have u: "\<exists>x. update_state_and_value tot (f old) (f r) = Inr x"
    if "unat tot = active_sum f t" "f \<in> {ram_bytes, cpu_weight, net_weight}" for tot f
    using assms(4)[OF that(2)] active_sum_member[OF assms(3), of f] pending_sum_member[OF assms(2), of f] that(1)
    by (intro update_state_and_value_succeeds) linarith+
  show ?thesis
    using u[of "total_ram_bytes rso" ram_bytes] u[of "total_cpu_weight rso" cpu_weight]
      u[of "total_net_weight rso" net_weight] assms(1)
    by (auto simp: process_one_limit_update_def totals_ok_def)
qed

lemma process_limits_loop_correct:
  "limits_wf t \<Longrightarrow> totals_ok rso t \<Longrightarrow> process_limits_loop rso t = Inr (rso', t') \<Longrightarrow>
     limits_wf t' \<and> totals_ok rso' t' \<and> (\<forall>a. tbl_find t' (True, a) = None) \<and>
     (\<forall>a. tbl_find t' (False, a) =
        (case tbl_find t (True, a) of Some r \<Rightarrow> Some r | None \<Rightarrow> tbl_find t (False, a)))"
proof (induction "length (filter (\<lambda>r. fst (fst r)) t)" arbitrary: rso t rule: less_induct)
  case less
  show ?case
  proof (cases "\<exists>b. tbl_find t (True, b) \<noteq> None")
    case False
    then show ?thesis using less.prems process_limits_loop_done[of t rso] by auto
  next
    case True
    then obtain a r old where r: "tbl_find t (True, a) = Some r" "tbl_find t (False, a) = Some old"
      and eq: "process_limits_loop rso t =
        res_bind (process_one_limit_update old r rso) (\<lambda>rso'. process_limits_loop rso' (apply_pending a r t))"
      using process_limits_loop_round[OF less.prems(1)] by metis
    obtain rso1 where st: "process_one_limit_update old r rso = Inr rso1"
      and rest: "process_limits_loop rso1 (apply_pending a r t) = Inr (rso', t')"
      using less.prems(3) eq by auto
    have wf: "tbl_wf t" using less.prems(1) by (simp add: limits_wf_def)
    have "totals_ok rso1 (apply_pending a r t)"
      by (rule process_one_limit_update_Inr[OF less.prems(2) wf r st])
    note IH = less.hyps[OF apply_pending_fewer[OF wf r(1)] limits_wf_apply_pending[OF less.prems(1)] this rest]
    then show ?thesis using wf r by (auto split: option.splits)
  qed
qed

lemma process_limits_loop_succeeds:
  "limits_wf t \<Longrightarrow> totals_ok rso t \<Longrightarrow>
   (\<And>f. f \<in> {ram_bytes, cpu_weight, net_weight} \<Longrightarrow> active_sum f t + pending_sum f t < 2 ^ 64) \<Longrightarrow>
   \<exists>rso' t'. process_limits_loop rso t = Inr (rso', t')"
proof (induction "length (filter (\<lambda>r. fst (fst r)) t)" arbitrary: rso t rule: less_induct)
  case less
  show ?case
  proof (cases "\<exists>b. tbl_find t (True, b) \<noteq> None")
    case False
    then show ?thesis using process_limits_loop_done[of t rso] by auto
  next
    case True
    then obtain a r old where r: "tbl_find t (True, a) = Some r" "tbl_find t (False, a) = Some old"
      and eq: "process_limits_loop rso t =
        res_bind (process_one_limit_update old r rso) (\<lambda>rso'. process_limits_loop rso' (apply_pending a r t))"
      using process_limits_loop_round[OF less.prems(1)] by metis
    obtain rso1 where st: "process_one_limit_update old r rso = Inr rso1"
      using process_one_limit_update_succeeds[OF less.prems(2) r less.prems(3)] by blast
    have wf: "tbl_wf t" using less.prems(1) by (simp add: limits_wf_def)
    have "totals_ok rso1 (apply_pending a r t)"
      by (rule process_one_limit_update_Inr[OF less.prems(2) wf r st])
    moreover have "active_sum f (apply_pending a r t) + pending_sum f (apply_pending a r t) < 2 ^ 64"
      if "f \<in> {ram_bytes, cpu_weight, net_weight}" for f
      using less.prems(3)[OF that] apply_pending_sums[OF wf r, of f] by linarith
    ultimately show ?thesis
      using less.hyps[OF apply_pending_fewer[OF wf r(1)] limits_wf_apply_pending[OF less.prems(1)]] st eq by auto
  qed
qed

section \<open>The invariant\<close>

lemma get_account_limits_eq:
  "get_account_limits db a = Inr l \<longleftrightarrow>
     (case tbl_find (rl_limits db) (True, a) of Some r \<Rightarrow> Some r | None \<Rightarrow> tbl_find (rl_limits db) (False, a)) = Some l"
  by (auto simp: get_account_limits_def split: option.splits)

lemma rl_inv_init: "rl_inv initialize_database"
  by (simp add: rl_inv_def initialize_database_def limits_wf_def totals_ok_def active_sum_def)

lemma set_account_limits_Inr:
  "set_account_limits a ram netw cpuw db = Inr (dec, db') \<longleftrightarrow>
     (\<exists>l. get_account_limits db a = Inr l \<and>
       (dec \<longleftrightarrow> 0 \<le>s ram \<and> (ram_bytes l <s 0 \<or> ram <s ram_bytes l)) \<and>
       db' = db\<lparr>rl_limits := tbl_insert (True, a) \<lparr>net_weight = netw, cpu_weight = cpuw, ram_bytes = ram\<rparr> (rl_limits db)\<rparr>)"
proof -
  have upd: "l\<lparr>ram_bytes := ram, net_weight := netw, cpu_weight := cpuw\<rparr> =
      \<lparr>net_weight = netw, cpu_weight = cpuw, ram_bytes = ram\<rparr>" for l :: resource_limits_object
    by simp
  show ?thesis
    unfolding set_account_limits_def find_or_create_pending_limits_def get_account_limits_def Let_def upd
    by (cases "tbl_find (rl_limits db) (True, a)"; cases "tbl_find (rl_limits db) (False, a)")
       (auto simp: tbl_get_def tbl_create_def)
qed

lemma rl_inv_initialize_account:
  assumes "rl_inv db" "initialize_account a db = Inr db'"
  shows "rl_inv db'"
  using assms
  by (auto simp: rl_inv_def initialize_account_def limits_wf_def totals_ok_def active_sum_insert_new
      resource_limits_object_default_def pos_part_def)

lemma rl_inv_update_account_usage:
  assumes "rl_inv db" "update_account_usage as slot db = Inr db'"
  shows "rl_inv db'"
  using assms(2,1) unfolding update_account_usage_def
  by (rule for_each_invariant) (auto simp: update_one_account_usage_def rl_inv_def)

lemma rl_inv_add_transaction_usage:
  assumes "rl_inv db" "add_transaction_usage as cpu_us net_us slot db = Inr db'"
  shows "rl_inv db'"
proof -
  obtain db1 where 1: "for_each (add_transaction_usage_account cpu_us net_us slot) as db = Inr db1"
    and 2: "db' = db1\<lparr>rl_state := (rl_state db1)\<lparr>pending_cpu_usage := pending_cpu_usage (rl_state db1) + cpu_us,
      pending_net_usage := pending_net_usage (rl_state db1) + net_us\<rparr>\<rparr>"
    using assms(2) by (auto simp: add_transaction_usage_def Let_def)
  have "rl_inv db1" using 1 assms(1)
    by (rule for_each_invariant) (auto simp: add_transaction_usage_account_def rl_inv_def)
  then show ?thesis unfolding 2 by (simp add: rl_inv_def totals_ok_def)
qed

lemma rl_inv_add_pending_ram_usage:
  assumes "rl_inv db" "add_pending_ram_usage a d db = Inr db'"
  shows "rl_inv db'"
  using assms by (auto simp: add_pending_ram_usage_def rl_inv_def split: if_splits)

lemma rl_inv_set_account_limits:
  assumes "rl_inv db" "set_account_limits a ram netw cpuw db = Inr (dec, db')"
  shows "rl_inv db'"
proof -
  obtain l where "get_account_limits db a = Inr l" and
    db': "db' = db\<lparr>rl_limits := tbl_insert (True, a) \<lparr>net_weight = netw, cpu_weight = cpuw, ram_bytes = ram\<rparr> (rl_limits db)\<rparr>"
    using assms(2) by (auto simp: set_account_limits_Inr)
  then have "tbl_find (rl_limits db) (False, a) \<noteq> None"
    using assms(1) by (auto simp: get_account_limits_eq rl_inv_def limits_wf_def split: option.splits)
  then show ?thesis using assms(1) unfolding db' by (auto simp: rl_inv_def limits_wf_def totals_ok_def)
qed

lemma rl_inv_process_account_limit_updates:
  assumes "rl_inv db" "process_account_limit_updates db = Inr db'"
  shows "rl_inv db'"
  using assms process_limits_loop_correct[of "rl_limits db" "rl_state db"]
  by (auto simp: process_account_limit_updates_def rl_inv_def)

lemma rl_inv_process_block_usage:
  assumes "rl_inv db" "process_block_usage n db = Inr db'"
  shows "rl_inv db'"
  using assms
  by (auto simp: process_block_usage_def update_virtual_cpu_limit_def update_virtual_net_limit_def Let_def
      rl_inv_def totals_ok_def)

lemma rl_inv_step: "rl_step db db' \<Longrightarrow> rl_inv db \<Longrightarrow> rl_inv db'"
proof (induction rule: rl_step.induct)
  case (step_set_block_parameters cpu net db db')
  then show ?case by (auto simp: set_block_parameters_def rl_inv_def split: if_splits)
qed (blast intro: rl_inv_initialize_account rl_inv_update_account_usage rl_inv_add_transaction_usage
    rl_inv_add_pending_ram_usage rl_inv_set_account_limits rl_inv_process_account_limit_updates
    rl_inv_process_block_usage)+

lemma rl_inv_reachable: "rl_reachable db \<Longrightarrow> rl_inv db"
  unfolding rl_reachable_def
  by (induction rule: rtranclp_induct) (auto intro: rl_inv_init rl_inv_step)

end
