(* ===== verification/Resource_Billing.thy ===== *)
theory Resource_Billing
  imports Resource_Limits
begin

text \<open>
  What the operations of the resource limits manager guarantee: the totals of every reachable
  database, the pending limits taken over at a block boundary, the bill of a transaction, the RAM
  accounting, and the figures the limit queries report.
\<close>

section \<open>Billing a transaction\<close>

text \<open>
  The use of an account in its window, over the naturals: the averaged usage times the window is at
  most the account's share, by weight, of the virtual capacity of the window.
\<close>

definition window_share :: "i64 \<Rightarrow> u64 \<Rightarrow> u32 \<Rightarrow> u64 \<Rightarrow> nat" where
  "window_share weight total_weight window virtual_limit =
     unat virtual_limit * unat window * unat weight div unat total_weight"

definition window_respected :: "i64 \<Rightarrow> u64 \<Rightarrow> u32 \<Rightarrow> u64 \<Rightarrow> u64 \<Rightarrow> bool" where
  "window_respected weight total_weight window virtual_limit v \<longleftrightarrow>
     weight <s 0 \<or> total_weight = 0 \<or>
     2 ^ 128 \<le> unat virtual_limit * unat window * unat weight \<or>
     unat v * unat window div 1000000 \<le> window_share weight total_weight window virtual_limit"

text \<open>
  What an accumulator of usage holds after an amount was added at a time, over the naturals: the average
  has decayed by the time that passed and has grown by the amount, rounded up.
\<close>

definition accumulates :: "usage_accumulator \<Rightarrow> u64 \<Rightarrow> u32 \<Rightarrow> u32 \<Rightarrow> usage_accumulator \<Rightarrow> bool" where
  "accumulates acc units ordinal window acc' \<longleftrightarrow>
     last_ordinal acc' = ordinal \<and>
     unat (value_ex acc') =
       decayed (unat (value_ex acc)) (unat (last_ordinal acc)) (unat ordinal) (unat window) +
       div_ceil (unat units * 1000000) (unat window) \<and>
     unat (consumed acc') =
       (if last_ordinal acc = ordinal then unat (consumed acc)
        else div_ceil (decayed (unat (value_ex acc)) (unat (last_ordinal acc)) (unat ordinal) (unat window)) 1000000) +
       unat units"

lemma accumulator_add_accumulates:
  "accumulator_add acc units ordinal window = Inr acc' \<Longrightarrow> accumulates acc units ordinal window acc'"
  unfolding accumulator_add_Inr accumulates_def by blast

lemma unat_window_product:
  "unat (ucast (v :: u64) * ucast (w :: u32) :: u128) = unat v * unat w"
proof -
  have "unat v * unat w < 2 ^ 64 * 2 ^ 32"
    using unsigned_less[of v, where ?'a = nat] unsigned_less[of w, where ?'a = nat]
    by (intro mult_strict_mono) simp_all
  then show ?thesis by (simp add: unat_mult_no_overflow)
qed

lemma check_window_usage_Inr:
  assumes "check_window_usage e weight tot window virt v = Inr u"
  shows "window_respected weight tot window virt v"
proof (cases "weight <s 0 \<or> tot = 0 \<or> 2 ^ 128 \<le> unat virt * unat window * unat weight")
  case False
  then have pos: "0 \<le>s weight" and t: "0 < tot"
    and no: "unat virt * unat window * unat weight < 2 ^ 128"
    by (auto simp: word_sless_alt word_sle_eq word_neq_0_conv)
  have "unat (ucast virt * ucast window * scast weight :: u128) = unat virt * unat window * unat weight"
    using no pos by (subst unat_mult_no_overflow) (simp_all add: unat_window_product unat_scast_nonneg)
  then have m: "unat ((ucast virt * ucast window * scast weight :: u128) div ucast tot) =
      window_share weight tot window virt"
    by (simp add: unat_div_distrib window_share_def)
  have u: "unat ((ucast v * ucast window :: u128) div ucast rate_limiting_precision) =
      unat v * unat window div 1000000"
    by (simp add: unat_div_distrib unat_window_product unat_precision)
  have "(ucast v * ucast window :: u128) div ucast rate_limiting_precision \<le>
      (ucast virt * ucast window * scast weight :: u128) div ucast tot"
    using assms pos t by (simp add: check_window_usage_def Let_def)
  then show ?thesis unfolding word_le_nat_alt m u window_respected_def by blast
qed (auto simp: window_respected_def)

lemma add_transaction_usage_accounts:
  "for_each (add_transaction_usage_account cpu_us net_us slot) as db = Inr db' \<Longrightarrow> distinct as \<Longrightarrow>
   tbl_wf (rl_usage db) \<Longrightarrow>
   rl_limits db' = rl_limits db \<and> rl_state db' = rl_state db \<and> rl_config db' = rl_config db \<and>
   (\<forall>a. a \<notin> set as \<longrightarrow> tbl_find (rl_usage db') a = tbl_find (rl_usage db) a) \<and>
   (\<forall>a \<in> set as. \<exists>bu l nu cu.
      tbl_find (rl_usage db) a = Some bu \<and> get_account_limits db a = Inr l \<and>
      accumulator_add (net_usage bu) net_us slot (account_net_usage_average_window (rl_config db)) = Inr nu \<and>
      accumulator_add (cpu_usage bu) cpu_us slot (account_cpu_usage_average_window (rl_config db)) = Inr cu \<and>
      tbl_find (rl_usage db') a = Some (bu\<lparr>net_usage := nu, cpu_usage := cu\<rparr>) \<and>
      window_respected (cpu_weight l) (total_cpu_weight (rl_state db))
        (account_cpu_usage_average_window (rl_config db)) (virtual_cpu_limit (rl_state db)) (value_ex cu) \<and>
      window_respected (net_weight l) (total_net_weight (rl_state db))
        (account_net_usage_average_window (rl_config db)) (virtual_net_limit (rl_state db)) (value_ex nu))"
proof (induction as arbitrary: db)
  case (Cons x as)
  obtain db1 where 1: "add_transaction_usage_account cpu_us net_us slot x db = Inr db1"
    and rest: "for_each (add_transaction_usage_account cpu_us net_us slot) as db1 = Inr db'"
    using Cons.prems(1) by auto
  obtain bu l nu cu where x: "tbl_find (rl_usage db) x = Some bu" "get_account_limits db x = Inr l"
      "accumulator_add (net_usage bu) net_us slot (account_net_usage_average_window (rl_config db)) = Inr nu"
      "accumulator_add (cpu_usage bu) cpu_us slot (account_cpu_usage_average_window (rl_config db)) = Inr cu"
    and w: "window_respected (cpu_weight l) (total_cpu_weight (rl_state db))
        (account_cpu_usage_average_window (rl_config db)) (virtual_cpu_limit (rl_state db)) (value_ex cu)"
      "window_respected (net_weight l) (total_net_weight (rl_state db))
        (account_net_usage_average_window (rl_config db)) (virtual_net_limit (rl_state db)) (value_ex nu)"
    and db1: "db1 = db\<lparr>rl_usage := tbl_insert x (bu\<lparr>net_usage := nu, cpu_usage := cu\<rparr>) (rl_usage db)\<rparr>"
    using 1 check_window_usage_Inr unfolding add_transaction_usage_account_def res_bind_Inr tbl_get_Inr by blast
  have lim: "get_account_limits db1 = get_account_limits db"
    by (rule ext) (simp add: get_account_limits_def db1 split: option.split)
  have "distinct as" "tbl_wf (rl_usage db1)" "x \<notin> set as" using Cons.prems db1 by simp_all
  note IH = Cons.IH[OF rest this(1,2), unfolded lim]
  have "rl_limits db1 = rl_limits db" "rl_state db1 = rl_state db" "rl_config db1 = rl_config db"
    by (simp_all add: db1)
  note IH = IH[unfolded this]
  have other: "tbl_find (rl_usage db1) a = tbl_find (rl_usage db) a" if "a \<noteq> x" for a
    using that Cons.prems(3) by (simp add: db1)
  have "tbl_find (rl_usage db') x = Some (bu\<lparr>net_usage := nu, cpu_usage := cu\<rparr>)"
    using IH \<open>x \<notin> set as\<close> Cons.prems(3) by (simp add: db1)
  then have here: "\<exists>bu l nu cu.
      tbl_find (rl_usage db) x = Some bu \<and> get_account_limits db x = Inr l \<and>
      accumulator_add (net_usage bu) net_us slot (account_net_usage_average_window (rl_config db)) = Inr nu \<and>
      accumulator_add (cpu_usage bu) cpu_us slot (account_cpu_usage_average_window (rl_config db)) = Inr cu \<and>
      tbl_find (rl_usage db') x = Some (bu\<lparr>net_usage := nu, cpu_usage := cu\<rparr>) \<and>
      window_respected (cpu_weight l) (total_cpu_weight (rl_state db))
        (account_cpu_usage_average_window (rl_config db)) (virtual_cpu_limit (rl_state db)) (value_ex cu) \<and>
      window_respected (net_weight l) (total_net_weight (rl_state db))
        (account_net_usage_average_window (rl_config db)) (virtual_net_limit (rl_state db)) (value_ex nu)"
    using x w by blast
  have "a \<noteq> x" if "a \<in> set as" for a using that \<open>x \<notin> set as\<close> by blast
  then show ?case using IH here other by simp
qed simp

section \<open>An example\<close>

text \<open>Two accounts, the first with limits in force and the second with pending ones.\<close>

definition example_run :: "resource_db res" where
  "example_run =
     res_bind (initialize_account 1 initialize_database) (\<lambda>db.
     res_bind (initialize_account 2 db) (\<lambda>db.
     res_bind (set_account_limits 1 5000 10 20 db) (\<lambda>(_, db).
     res_bind (process_account_limit_updates db) (\<lambda>db.
     res_bind (set_account_limits 2 700 3 4 db) (\<lambda>(_, db). Inr db)))))"

definition example_db :: resource_db where
  "example_db = res_value initialize_database example_run"

lemma example_run_Inr: "example_run = Inr example_db"
  unfolding example_db_def by (rule res_value_Inr) code_simp

lemma rl_reachable_init: "rl_reachable initialize_database"
  by (simp add: rl_reachable_def)

lemma rl_reachable_step: "rl_reachable db \<Longrightarrow> rl_step db db' \<Longrightarrow> rl_reachable db'"
  unfolding rl_reachable_def by (rule rtranclp.rtrancl_into_rtrancl)

lemma example_reachable: "rl_reachable example_db"
proof -
  obtain db1 db2 d3 db3 db4 d5 where
    "initialize_account 1 initialize_database = Inr db1" "initialize_account 2 db1 = Inr db2"
    "set_account_limits 1 5000 10 20 db2 = Inr (d3, db3)" "process_account_limit_updates db3 = Inr db4"
    "set_account_limits 2 700 3 4 db4 = Inr (d5, example_db)"
    using example_run_Inr unfolding example_run_def by auto
  then have "rl_step initialize_database db1" "rl_step db1 db2" "rl_step db2 db3" "rl_step db3 db4"
    "rl_step db4 example_db"
    by (blast intro: rl_step.intros)+
  then show ?thesis using rl_reachable_init rl_reachable_step by blast
qed

section \<open>RAM\<close>

lemma int64_min_iff: "ram_delta = int64_min \<longleftrightarrow> sint ram_delta = - (2 ^ 63)"
proof -
  have "sint int64_min = - (2 ^ 63)" by (simp add: int64_min_def)
  then show ?thesis by (metis signed_word_eqI)
qed

lemma int64_min_negative: "int64_min \<le>s 0"
  by (simp add: int64_min_def word_sle_eq)

lemma ram_delta_guard:
  "(ram_delta \<le>s 0 \<or> ram_delta \<le> -1 - u) \<and> (0 \<le>s ram_delta \<or> - ram_delta \<le> u) \<longleftrightarrow>
     0 \<le> int (unat u) + sint ram_delta \<and> int (unat u) + sint ram_delta < 2 ^ 64"
  for ram_delta :: i64 and u :: u64
proof -
  define n where "n = unat u"
  define m where "m = unat ram_delta"
  have n: "n < 2 ^ 64" using unsigned_less[of u, where ?'a = nat] by (simp add: n_def)
  show ?thesis
  proof (cases "0 \<le>s ram_delta")
    case True
    then have "sint ram_delta = int m" unfolding m_def by (simp flip: uint_eq_sint_nonneg)
    moreover have "ram_delta \<le> -1 - u \<longleftrightarrow> n + m < 2 ^ 64" by (simp add: le_max_minus_iff n_def m_def)
    ultimately show ?thesis using True n unfolding n_def[symmetric] by (auto simp: word_sle_eq)
  next
    case False
    then have "ram_delta <s 0" by (simp add: word_sless_alt word_sle_eq)
    from uint_uminus_neg[OF this] have "- ram_delta \<le> u \<longleftrightarrow> - sint ram_delta \<le> int n"
      by (simp add: word_le_def n_def)
    then show ?thesis using False n unfolding n_def[symmetric] by (auto simp: word_sle_eq)
  qed
qed

section \<open>Limit queries\<close>

lemma div_ceil_mono: "m \<le> n \<Longrightarrow> div_ceil m d \<le> div_ceil n d"
proof -
  assume "m \<le> n"
  then have le: "m div d \<le> n div d" by (rule div_le_mono)
  show ?thesis
  proof (cases "m div d = n div d")
    case True
    then have "m mod d \<le> n mod d"
      using \<open>m \<le> n\<close> by (metis add_le_cancel_left mult_div_mod_eq)
    then show ?thesis using True by (simp add: div_ceil_def)
  qed (use le in \<open>simp add: div_ceil_def\<close>)
qed

lemma used_in_window_Inr: "used_in_window u w = Inr x \<longleftrightarrow> unat x = div_ceil (unat (value_ex u) * unat w) 1000000"
proof -
  have "(ucast rate_limiting_precision :: u128) \<noteq> 0" by (simp add: word_unat_eq_iff unat_precision)
  then show ?thesis by (simp add: used_in_window_def unat_window_product unat_precision)
qed

lemma accumulator_add_zero_le:
  assumes "accumulator_add u 0 slot w = Inr u'"
  shows "value_ex u' \<le> value_ex u"
proof -
  have "unat (value_ex u') = decayed (unat (value_ex u)) (unat (last_ordinal u)) (unat slot) (unat w)"
    "0 < unat w" "unat (last_ordinal u) \<le> unat slot"
    using assms by (auto simp: accumulator_add_Inr div_ceil_def word_le_nat_alt word_unat_eq_iff)
  then show ?thesis by (simp add: word_le_nat_alt decayed_le)
qed

lemma account_limit_ex_figures:
  assumes "account_limit_ex weight tot window block_max virt u g t = Inr (arl, gl)"
    and lim: "\<not> (weight <s 0 \<or> tot = 0)"
  shows "sint (arl_available arl) = max 0 (sint (arl_max arl) - sint (arl_used arl)) \<and>
    0 \<le> sint (arl_current_used arl) \<and> sint (arl_current_used arl) \<le> sint (arl_used arl) \<and>
    sint (arl_used arl) = int (div_ceil (unat (value_ex u) * unat window) 1000000)"
proof -
  define m where "m = (ucast window * ucast (if g < maximum_elastic_resource_multiplier \<and> block_max * ucast g < virt
      then block_max * ucast g else virt) * scast weight :: u128) div ucast tot"
  obtain used a' u' m' c' where used: "used_in_window u window = Inr used"
    and av: "(if m \<le> used then Inr 0 else downgrade_cast_i64 (m - used)) = Inr a'"
    and us: "downgrade_cast_i64 used = Inr u'"
    and mx: "downgrade_cast_i64 m = Inr m'"
    and cu: "(case t of None \<Rightarrow> Inr u' | Some slot \<Rightarrow>
       if last_ordinal u < slot then
         res_bind (accumulator_add u 0 slot (ucast (ucast window :: u128))) (\<lambda>h.
           res_bind (used_in_window h window) downgrade_cast_i64)
       else Inr u') = Inr c'"
    and arl: "arl_used arl = u'" "arl_available arl = a'" "arl_max arl = m'" "arl_current_used arl = c'"
    using assms(1) unfolding account_limit_ex_def if_not_P[OF lim] Let_def m_def[symmetric] res_bind_Inr
    by (elim exE conjE) (rule that, assumption+, auto)
  have U: "sint (u') = int (unat used)" and M: "sint (m') = int (unat m)"
    using us mx by (auto simp: sint_eq_unat)
  have "sint (a') = max 0 (int (unat m) - int (unat used))"
  proof -
    have "unat a' = unat m - unat used" "unat a' < 2 ^ 63"
      using av mx by (auto simp: word_le_nat_alt unat_sub_no_underflow split: if_splits)
    moreover have "int (x - y) = max 0 (int x - int y)" for x y by simp
    ultimately show ?thesis using sint_eq_unat[of a'] by metis
  qed
  moreover have "0 \<le> sint (c') \<and> sint (c') \<le> int (unat used)"
  proof (cases "c' = u'")
    case False
    then obtain h slot x where h: "accumulator_add u 0 slot (ucast (ucast window :: u128)) = Inr h"
      and x: "used_in_window h window = Inr x" "downgrade_cast_i64 x = Inr (c')"
      using cu by (auto split: option.splits if_splits)
    have "unat (value_ex h) * unat window \<le> unat (value_ex u) * unat window"
      using accumulator_add_zero_le[OF h] by (simp add: word_le_nat_alt)
    then have "unat x \<le> unat used" using x(1) used by (simp add: used_in_window_Inr div_ceil_mono)
    moreover have "unat c' = unat x" "sint c' = int (unat c')" using x(2) by (simp_all add: sint_eq_unat)
    ultimately show ?thesis by (simp only: of_nat_le_iff of_nat_0_le_iff simp_thms)
  qed (simp add: U)
  moreover have "unat used = div_ceil (unat (value_ex u) * unat window) 1000000"
    using used by (simp add: used_in_window_Inr)
  ultimately show ?thesis unfolding arl U M by simp
qed

section \<open>Properties\<close>

text \<open>
  C1. In every database the manager can reach from the initial one, the total RAM, CPU weight and NET
  weight of the chain are the exact sums of the positive limits of all accounts, and every
  account with a pending change of its limits has limits in force.
\<close>

theorem reachable_totals:
  assumes "rl_reachable db"
  shows "unat (total_ram_bytes (rl_state db)) = active_sum ram_bytes (rl_limits db) \<and>
    unat (total_cpu_weight (rl_state db)) = active_sum cpu_weight (rl_limits db) \<and>
    unat (total_net_weight (rl_state db)) = active_sum net_weight (rl_limits db) \<and>
    (\<forall>a. tbl_find (rl_limits db) (True, a) \<noteq> None \<longrightarrow> tbl_find (rl_limits db) (False, a) \<noteq> None)"
  using rl_inv_reachable[OF assms] by (simp add: rl_inv_def totals_ok_def limits_wf_def)

theorem reachable_totals_witness:
  "rl_reachable example_db \<and> active_sum ram_bytes (rl_limits example_db) = 5000 \<and>
   active_sum cpu_weight (rl_limits example_db) = 20 \<and> active_sum net_weight (rl_limits example_db) = 10"
proof -
  have "unat (total_ram_bytes (rl_state example_db)) = 5000" "unat (total_cpu_weight (rl_state example_db)) = 20"
    "unat (total_net_weight (rl_state example_db)) = 10"
    by code_simp+
  then show ?thesis using reachable_totals[OF example_reachable] example_reachable by simp
qed

text \<open>
  C2. Processing the account limit updates empties the pending rows and puts in force, for every
  account, exactly the limits that the limit query reported before: the pending ones where there were
  any, and the old ones for every other account.
\<close>

theorem process_account_limit_updates_correct:
  assumes "rl_reachable db" and "process_account_limit_updates db = Inr db'"
  shows "tbl_find (rl_limits db') (True, a) = None \<and>
    (tbl_find (rl_limits db') (False, a) = Some l \<longleftrightarrow> get_account_limits db a = Inr l) \<and>
    rl_usage db' = rl_usage db"
proof -
  obtain rso t where "process_limits_loop (rl_state db) (rl_limits db) = Inr (rso, t)"
    and db': "db' = db\<lparr>rl_state := rso, rl_limits := t\<rparr>"
    using assms(2) by (auto simp: process_account_limit_updates_def)
  then show ?thesis
    using rl_inv_reachable[OF assms(1)] process_limits_loop_correct[of "rl_limits db" "rl_state db" rso t]
    by (simp add: rl_inv_def get_account_limits_eq)
qed

theorem process_account_limit_updates_correct_witness:
  "\<exists>db'. process_account_limit_updates example_db = Inr db' \<and> tbl_find (rl_limits db') (True, 2) = None \<and>
     tbl_find (rl_limits db') (False, 2) = Some \<lparr>net_weight = 3, cpu_weight = 4, ram_bytes = 700\<rparr>"
proof -
  have "\<not> isl (process_account_limit_updates example_db)" by code_simp
  then obtain db' where db': "process_account_limit_updates example_db = Inr db'"
    by (rule not_isl_obtain)
  have "get_account_limits example_db 2 = Inr \<lparr>net_weight = 3, cpu_weight = 4, ram_bytes = 700\<rparr>"
    by code_simp
  then show ?thesis
    using process_account_limit_updates_correct[OF example_reachable db', of 2] db' by simp
qed

text \<open>
  C3. Processing the account limit updates always ends, and the inconsistency exceptions inside it cannot
  be thrown in a reachable database as long as the positive limits, in force and pending, of each
  resource add up to less than two to the power 64.
\<close>

theorem process_account_limit_updates_succeeds:
  assumes "rl_reachable db"
    and "active_sum ram_bytes (rl_limits db) + pending_sum ram_bytes (rl_limits db) < 2 ^ 64"
    and "active_sum cpu_weight (rl_limits db) + pending_sum cpu_weight (rl_limits db) < 2 ^ 64"
    and "active_sum net_weight (rl_limits db) + pending_sum net_weight (rl_limits db) < 2 ^ 64"
  shows "\<exists>db'. process_account_limit_updates db = Inr db'"
  using process_limits_loop_succeeds[of "rl_limits db" "rl_state db"] rl_inv_reachable[OF assms(1)] assms(2-4)
  by (auto simp: rl_inv_def process_account_limit_updates_def)

theorem process_account_limit_updates_succeeds_witness:
  "rl_reachable example_db \<and> (\<exists>db'. process_account_limit_updates example_db = Inr db')"
proof -
  have "active_sum ram_bytes (rl_limits example_db) + pending_sum ram_bytes (rl_limits example_db) = 5700"
    "active_sum cpu_weight (rl_limits example_db) + pending_sum cpu_weight (rl_limits example_db) = 24"
    "active_sum net_weight (rl_limits example_db) + pending_sum net_weight (rl_limits example_db) = 13"
    by code_simp+
  then show ?thesis
    using process_account_limit_updates_succeeds[OF example_reachable] example_reachable by simp
qed

text \<open>
  C4. A transaction that is billed without an exception is billed exactly: the usage of the block grows by what
  the transaction used and stays within the limits of the block, and the two averages of every billed account
  decay and grow by what the transaction used. The usage of the account in its window, the transaction
  included, is then at most its share by weight of the virtual limit, for both resources. The RAM of the billed
  accounts, the accounts that are not billed, the limits, the configuration and the rest of the state are as before.
\<close>

theorem add_transaction_usage_within_limits:
  assumes "add_transaction_usage accounts cpu_us net_us slot db = Inr db'"
    and "distinct accounts" and "tbl_wf (rl_usage db)"
  shows "rl_state db' = (rl_state db)\<lparr>pending_cpu_usage := pending_cpu_usage (rl_state db) + cpu_us,
      pending_net_usage := pending_net_usage (rl_state db) + net_us\<rparr> \<and>
    unat (get_block_cpu_limit db') + unat (pending_cpu_usage (rl_state db')) = unat (elp_max (cpu_limit_parameters (rl_config db))) \<and>
    unat (get_block_net_limit db') + unat (pending_net_usage (rl_state db')) = unat (elp_max (net_limit_parameters (rl_config db))) \<and>
    rl_limits db' = rl_limits db \<and> rl_config db' = rl_config db \<and>
    (a \<notin> set accounts \<longrightarrow> tbl_find (rl_usage db') a = tbl_find (rl_usage db) a) \<and>
    (a \<in> set accounts \<longrightarrow> (\<exists>u u' l.
       tbl_find (rl_usage db) a = Some u \<and> tbl_find (rl_usage db') a = Some u' \<and>
       get_account_limits db a = Inr l \<and> ram_usage u' = ram_usage u \<and>
       accumulates (cpu_usage u) cpu_us slot (account_cpu_usage_average_window (rl_config db)) (cpu_usage u') \<and>
       accumulates (net_usage u) net_us slot (account_net_usage_average_window (rl_config db)) (net_usage u') \<and>
       window_respected (cpu_weight l) (total_cpu_weight (rl_state db))
         (account_cpu_usage_average_window (rl_config db)) (virtual_cpu_limit (rl_state db)) (value_ex (cpu_usage u')) \<and>
       window_respected (net_weight l) (total_net_weight (rl_state db))
         (account_net_usage_average_window (rl_config db)) (virtual_net_limit (rl_state db)) (value_ex (net_usage u'))))"
proof -
  obtain db1 where 1: "for_each (add_transaction_usage_account cpu_us net_us slot) accounts db = Inr db1"
    and db': "db' = db1\<lparr>rl_state := (rl_state db1)\<lparr>pending_cpu_usage := pending_cpu_usage (rl_state db1) + cpu_us,
      pending_net_usage := pending_net_usage (rl_state db1) + net_us\<rparr>\<rparr>"
    and le: "pending_cpu_usage (rl_state db1) + cpu_us \<le> elp_max (cpu_limit_parameters (rl_config db1))"
      "pending_net_usage (rl_state db1) + net_us \<le> elp_max (net_limit_parameters (rl_config db1))"
    using assms(1) by (auto simp: add_transaction_usage_def Let_def)
  note A = add_transaction_usage_accounts[OF 1 assms(2,3)]
  have "unat (get_block_cpu_limit db') + unat (pending_cpu_usage (rl_state db')) = unat (elp_max (cpu_limit_parameters (rl_config db)))"
    "unat (get_block_net_limit db') + unat (pending_net_usage (rl_state db')) = unat (elp_max (net_limit_parameters (rl_config db)))"
    using A le unfolding get_block_cpu_limit_def get_block_net_limit_def db'
    by (simp_all add: unat_sub word_le_nat_alt)
  moreover have "a \<in> set accounts \<Longrightarrow> \<exists>u u' l.
       tbl_find (rl_usage db) a = Some u \<and> tbl_find (rl_usage db1) a = Some u' \<and>
       get_account_limits db a = Inr l \<and> ram_usage u' = ram_usage u \<and>
       accumulates (cpu_usage u) cpu_us slot (account_cpu_usage_average_window (rl_config db)) (cpu_usage u') \<and>
       accumulates (net_usage u) net_us slot (account_net_usage_average_window (rl_config db)) (net_usage u') \<and>
       window_respected (cpu_weight l) (total_cpu_weight (rl_state db))
         (account_cpu_usage_average_window (rl_config db)) (virtual_cpu_limit (rl_state db)) (value_ex (cpu_usage u')) \<and>
       window_respected (net_weight l) (total_net_weight (rl_state db))
         (account_net_usage_average_window (rl_config db)) (virtual_net_limit (rl_state db)) (value_ex (net_usage u'))"
    using A accumulator_add_accumulates by fastforce
  ultimately show ?thesis using A unfolding db' by simp
qed

theorem add_transaction_usage_within_limits_witness:
  "\<exists>db' u'. add_transaction_usage [1, 2] 150 96 7 example_db = Inr db' \<and>
     pending_cpu_usage (rl_state db') = 150 \<and> pending_net_usage (rl_state db') = 96 \<and>
     rl_limits db' = rl_limits example_db \<and> tbl_find (rl_usage db') 1 = Some u' \<and>
     unat (consumed (cpu_usage u')) = 150 \<and> unat (consumed (net_usage u')) = 96 \<and>
     unat (value_ex (cpu_usage u')) = 869"
proof -
  have "\<not> isl (add_transaction_usage [1, 2] 150 96 7 example_db)" by code_simp
  then obtain db' where db': "add_transaction_usage [1, 2] 150 96 7 example_db = Inr db'"
    by (rule not_isl_obtain)
  have d: "distinct [1, 2 :: name]" and t: "tbl_wf (rl_usage example_db)" by code_simp+
  have u: "tbl_find (rl_usage example_db) 1 = Some resource_usage_object_default" by code_simp
  have p: "pending_cpu_usage (rl_state example_db) = 0" "pending_net_usage (rl_state example_db) = 0"
      "account_cpu_usage_average_window (rl_config example_db) = 172800"
      "cpu_usage resource_usage_object_default = usage_accumulator_init"
      "net_usage resource_usage_object_default = usage_accumulator_init" by code_simp+
  obtain u' where "tbl_find (rl_usage db') 1 = Some u'"
      "accumulates usage_accumulator_init 150 7 172800 (cpu_usage u')"
      "accumulates usage_accumulator_init 96 7 (account_net_usage_average_window (rl_config example_db)) (net_usage u')"
    using add_transaction_usage_within_limits[OF db' d t, of 1] u p by auto
  then have "tbl_find (rl_usage db') 1 = Some u'" "unat (consumed (cpu_usage u')) = 150"
      "unat (consumed (net_usage u')) = 96" "unat (value_ex (cpu_usage u')) = 869"
    by (simp_all add: accumulates_def usage_accumulator_init_def decayed_def div_ceil_def)
  then show ?thesis using add_transaction_usage_within_limits[OF db' d t, of 1] db' p by auto
qed

text \<open>
  C5. A change of the RAM an account uses is exact: it is accepted when and only when the new amount is
  neither negative nor beyond 64 bits, and the amount stored is then the old one plus the signed
  change, with no other row touched. The least 64-bit integer is the only change whose negation the code cannot compute.
\<close>

theorem add_pending_ram_usage_exact:
  assumes "tbl_find (rl_usage db) a = Some u" and "ram_delta \<noteq> 0"
  shows "add_pending_ram_usage a ram_delta db =
    (if sint ram_delta = - (2 ^ 63) then Inl undefined_behavior
     else if 0 \<le> int (unat (ram_usage u)) + sint ram_delta \<and> int (unat (ram_usage u)) + sint ram_delta < 2 ^ 64
     then Inr (db\<lparr>rl_usage := tbl_insert a
        (u\<lparr>ram_usage := word_of_int (int (unat (ram_usage u)) + sint ram_delta)\<rparr>) (rl_usage db)\<rparr>)
     else Inl transaction_exception)"
proof -
  have "add_pending_ram_usage a ram_delta db =
      (if ram_delta = int64_min then Inl undefined_behavior
       else if (ram_delta \<le>s 0 \<or> ram_delta \<le> -1 - ram_usage u) \<and> (0 \<le>s ram_delta \<or> - ram_delta \<le> ram_usage u)
       then Inr (db\<lparr>rl_usage := tbl_insert a (u\<lparr>ram_usage := ram_usage u + ram_delta\<rparr>) (rl_usage db)\<rparr>)
       else Inl transaction_exception)"
    using assms int64_min_negative by (auto simp: add_pending_ram_usage_def tbl_get_def eos_assert_def)
  then show ?thesis unfolding ram_delta_guard int64_min_iff add_eq_word_of_int[of "ram_usage u" ram_delta] .
qed

theorem add_pending_ram_usage_exact_witness:
  "\<not> isl (add_pending_ram_usage 1 300 example_db) \<and>
   add_pending_ram_usage 1 (-1) example_db = Inl transaction_exception"
proof -
  have u: "tbl_find (rl_usage example_db) 1 = Some resource_usage_object_default" by code_simp
  have r: "ram_usage resource_usage_object_default = 0" by code_simp
  show ?thesis
    using add_pending_ram_usage_exact[OF u, of 300] add_pending_ram_usage_exact[OF u, of "-1"] by (simp add: r)
qed

text \<open>
  Setting the limits of an account that has limits succeeds, the limit query then returns exactly the
  values set, and the result says whether the RAM limit became tighter; the limits of every
  other account and the unlimited-CPU status of every account are as before.
\<close>

theorem set_account_limits_get:
  assumes "rl_reachable db" and "get_account_limits db a = Inr l"
  shows "\<exists>db'. set_account_limits a ram netw cpuw db =
      Inr (0 \<le> sint ram \<and> (sint (ram_bytes l) < 0 \<or> sint ram < sint (ram_bytes l)), db') \<and>
    get_account_limits db' a = Inr \<lparr>net_weight = netw, cpu_weight = cpuw, ram_bytes = ram\<rparr> \<and>
    (b \<noteq> a \<longrightarrow> get_account_limits db' b = get_account_limits db b) \<and>
    is_unlimited_cpu db' b = is_unlimited_cpu db b"
proof -
  let ?db' = "db\<lparr>rl_limits := tbl_insert (True, a) \<lparr>net_weight = netw, cpu_weight = cpuw, ram_bytes = ram\<rparr> (rl_limits db)\<rparr>"
  have "tbl_wf (rl_limits db)" using rl_inv_reachable[OF assms(1)] by (simp add: rl_inv_def limits_wf_def)
  then show ?thesis using assms(2)
    by (intro exI[of _ ?db'])
       (simp add: set_account_limits_Inr word_sless_alt word_sle_eq get_account_limits_def is_unlimited_cpu_def
          tbl_get_def split: option.split)
qed

theorem set_account_limits_get_witness:
  "\<exists>db'. set_account_limits 1 400 6 7 example_db = Inr (True, db') \<and>
     get_account_limits db' 1 = Inr \<lparr>net_weight = 6, cpu_weight = 7, ram_bytes = 400\<rparr>"
proof -
  have "get_account_limits example_db 1 = Inr \<lparr>net_weight = 10, cpu_weight = 20, ram_bytes = 5000\<rparr>"
    by code_simp
  from set_account_limits_get[OF example_reachable this, of 400 6 7 2] show ?thesis by auto
qed

text \<open>
  C7. The figures the CPU limit query reports for a limited account are consistent: the use is
  the averaged usage over the window rounded up, what is available is the maximum minus the use and
  never negative, and the use at a later time never exceeds the recorded use.
\<close>

theorem get_account_cpu_limit_ex_figures:
  assumes "get_account_cpu_limit_ex db a g t = Inr (arl, gl)"
    and "get_account_limits db a = Inr l" and "tbl_find (rl_usage db) a = Some u"
  shows "if cpu_weight l <s 0 \<or> total_cpu_weight (rl_state db) = 0
    then arl_used arl = -1 \<and> arl_available arl = -1 \<and> arl_max arl = -1 \<and> \<not> gl
    else sint (arl_available arl) = max 0 (sint (arl_max arl) - sint (arl_used arl)) \<and>
      0 \<le> sint (arl_current_used arl) \<and> sint (arl_current_used arl) \<le> sint (arl_used arl) \<and>
      sint (arl_used arl) = int (div_ceil (unat (value_ex (cpu_usage u)) *
        unat (account_cpu_usage_average_window (rl_config db))) 1000000)"
proof (cases "cpu_weight l <s 0 \<or> total_cpu_weight (rl_state db) = 0")
  case True
  then show ?thesis using assms by (auto simp: get_account_cpu_limit_ex_def tbl_get_def account_limit_ex_def)
next
  case False
  have "account_limit_ex (cpu_weight l) (total_cpu_weight (rl_state db))
      (account_cpu_usage_average_window (rl_config db)) (elp_max (cpu_limit_parameters (rl_config db)))
      (virtual_cpu_limit (rl_state db)) (cpu_usage u) g t = Inr (arl, gl)"
    using assms by (simp add: get_account_cpu_limit_ex_def tbl_get_def)
  from account_limit_ex_figures[OF this False] show ?thesis unfolding if_not_P[OF False] .
qed

theorem get_account_cpu_limit_ex_figures_witness:
  "\<exists>arl gl. get_account_cpu_limit_ex example_db 1 1000 None = Inr (arl, gl) \<and>
     sint (arl_available arl) = max 0 (sint (arl_max arl) - sint (arl_used arl)) \<and> sint (arl_used arl) = 0"
proof -
  have "\<not> isl (get_account_cpu_limit_ex example_db 1 1000 None)" by code_simp
  then obtain arl gl where q: "get_account_cpu_limit_ex example_db 1 1000 None = Inr (arl, gl)"
    by (metis res_value_Inr surj_pair)
  have l: "get_account_limits example_db 1 = Inr \<lparr>net_weight = 10, cpu_weight = 20, ram_bytes = 5000\<rparr>"
    by code_simp
  have u: "tbl_find (rl_usage example_db) 1 = Some resource_usage_object_default" by code_simp
  have "value_ex (cpu_usage resource_usage_object_default) = 0" "total_cpu_weight (rl_state example_db) = 20"
    by code_simp+
  then show ?thesis using get_account_cpu_limit_ex_figures[OF q l u] q
    by (intro exI[of _ arl] exI[of _ gl]) (simp add: div_ceil_def word_sless_alt)
qed

text \<open>
  C6. Closing a block folds the usage of the block into the block averages, resets the pending usage of
  both resources, and leaves each virtual limit between the block maximum and the maximum times the
  multiplier; limits, totals, account usage and configuration are as before.
\<close>

theorem process_block_usage_correct:
  assumes "process_block_usage n db = Inr db'"
  shows "pending_cpu_usage (rl_state db') = 0 \<and> pending_net_usage (rl_state db') = 0 \<and>
    accumulator_add (average_block_cpu_usage (rl_state db)) (pending_cpu_usage (rl_state db)) n
      (elp_periods (cpu_limit_parameters (rl_config db))) = Inr (average_block_cpu_usage (rl_state db')) \<and>
    accumulator_add (average_block_net_usage (rl_state db)) (pending_net_usage (rl_state db)) n
      (elp_periods (net_limit_parameters (rl_config db))) = Inr (average_block_net_usage (rl_state db')) \<and>
    elastic_bounds (cpu_limit_parameters (rl_config db)) (virtual_cpu_limit (rl_state db')) \<and>
    elastic_bounds (net_limit_parameters (rl_config db)) (virtual_net_limit (rl_state db')) \<and>
    rl_limits db' = rl_limits db \<and> rl_usage db' = rl_usage db \<and> rl_config db' = rl_config db \<and>
    total_cpu_weight (rl_state db') = total_cpu_weight (rl_state db) \<and>
    total_net_weight (rl_state db') = total_net_weight (rl_state db) \<and>
    total_ram_bytes (rl_state db') = total_ram_bytes (rl_state db)"
  using assms
  by (auto simp: process_block_usage_def update_virtual_cpu_limit_def update_virtual_net_limit_def Let_def
      intro: update_elastic_limit_elastic_bounds)

theorem process_block_usage_correct_witness:
  "\<exists>db'. process_block_usage 5 example_db = Inr db' \<and> pending_cpu_usage (rl_state db') = 0 \<and>
     rl_limits db' = rl_limits example_db"
proof -
  have "\<not> isl (process_block_usage 5 example_db)" by code_simp
  then obtain db' where db': "process_block_usage 5 example_db = Inr db'" by (rule not_isl_obtain)
  then show ?thesis using process_block_usage_correct[OF db'] by simp
qed

end
