(* ===== verification/Merkle.thy ===== *)
theory Merkle
  imports Prelude
begin

text \<open>
  The Merkle roots of \<^verbatim>\<open>merkle.cpp\<close> and the incremental Merkle tree of
  \<^verbatim>\<open>incremental_merkle.hpp\<close>. A digest is the four 64-bit words of a SHA-256 value; the hash of a
  pair of digests (\<^verbatim>\<open>digest_type::hash\<close> of the \<^verbatim>\<open>fc\<close> library) is the parameter \<open>hash\<close>.
\<close>

section \<open>Definitions\<close>

record digest =
  hash0 :: u64
  hash1 :: u64
  hash2 :: u64
  hash3 :: u64

definition digest_default :: digest where
  "digest_default = \<lparr>hash0 = 0, hash1 = 0, hash2 = 0, hash3 = 0\<rparr>"

definition make_canonical_left :: "digest \<Rightarrow> digest" where
  "make_canonical_left val = val\<lparr>hash0 := hash0 val AND 0xFFFFFFFFFFFFFF7F\<rparr>"

definition make_canonical_right :: "digest \<Rightarrow> digest" where
  "make_canonical_right val = val\<lparr>hash0 := hash0 val OR 0x0000000000000080\<rparr>"

definition is_canonical_left :: "digest \<Rightarrow> bool" where
  "is_canonical_left val \<longleftrightarrow> hash0 val AND 0x0000000000000080 = 0"

definition is_canonical_right :: "digest \<Rightarrow> bool" where
  "is_canonical_right val \<longleftrightarrow> hash0 val AND 0x0000000000000080 \<noteq> 0"

definition make_canonical_pair :: "digest \<Rightarrow> digest \<Rightarrow> digest \<times> digest" where
  "make_canonical_pair l r = (make_canonical_left l, make_canonical_right r)"

text \<open>One pass over the deque, writing the hashes of the pairs into its first half.\<close>

definition merkle_pass :: "(digest \<times> digest \<Rightarrow> digest) \<Rightarrow> digest list \<Rightarrow> digest list" where
  "merkle_pass hash ids =
     (let ids = (if length ids mod 2 \<noteq> 0 then ids @ [last ids] else ids);
          ids = foldl (\<lambda>ids i. ids[i := hash (make_canonical_pair (ids ! (2 * i)) (ids ! (2 * i + 1)))])
                  ids [0..<length ids div 2]
      in take (length ids div 2) ids)"

lemma length_foldl_update: "length (foldl (\<lambda>ids i. ids[i := f ids i]) ids is) = length ids"
  by (induction "is" arbitrary: ids) simp_all

lemma length_merkle_pass: "length (merkle_pass hash ids) = (length ids + 1) div 2"
  unfolding merkle_pass_def Let_def length_take length_foldl_update by (simp add: min_def) presburger

function merkle_loop :: "(digest \<times> digest \<Rightarrow> digest) \<Rightarrow> digest list \<Rightarrow> digest list" where
  "merkle_loop hash ids = (if 1 < length ids then merkle_loop hash (merkle_pass hash ids) else ids)"
  by pat_completeness auto
termination by (relation "measure (\<lambda>(hash, ids). length ids)") (simp_all add: length_merkle_pass)

definition merkle :: "(digest \<times> digest \<Rightarrow> digest) \<Rightarrow> digest list \<Rightarrow> digest" where
  "merkle hash ids = (if length ids = 0 then digest_default else hd (merkle_loop hash ids))"

definition next_power_of_2 :: "u64 \<Rightarrow> u64" where
  "next_power_of_2 val =
     (let v = val - 1;
          v = v OR drop_bit 1 v;
          v = v OR drop_bit 2 v;
          v = v OR drop_bit 4 v;
          v = v OR drop_bit 8 v;
          v = v OR drop_bit 16 v;
          v = v OR drop_bit 32 v
      in v + 1)"

definition clz_power_2 :: "u64 \<Rightarrow> int" where
  "clz_power_2 val =
     64 - (if val \<noteq> 0 then 1 else 0)
        - (if val AND 0x00000000FFFFFFFF \<noteq> 0 then 32 else 0)
        - (if val AND 0x0000FFFF0000FFFF \<noteq> 0 then 16 else 0)
        - (if val AND 0x00FF00FF00FF00FF \<noteq> 0 then 8 else 0)
        - (if val AND 0x0F0F0F0F0F0F0F0F \<noteq> 0 then 4 else 0)
        - (if val AND 0x3333333333333333 \<noteq> 0 then 2 else 0)
        - (if val AND 0x5555555555555555 \<noteq> 0 then 1 else 0)"

definition calcluate_max_depth :: "u64 \<Rightarrow> int" where
  "calcluate_max_depth node_count =
     (if node_count = 0 then 0 else clz_power_2 (next_power_of_2 node_count) + 1)"

record incremental_merkle =
  im_node_count :: u64
  im_active_nodes :: "digest list"

definition incremental_merkle_init :: incremental_merkle where
  "incremental_merkle_init = \<lparr>im_node_count = 0, im_active_nodes = []\<rparr>"

text \<open>
  The loop of \<open>append\<close>: the remaining depth, the index, whether a partial node was met, the top of the
  collapsed tree, the active nodes not yet read and the updated active nodes.
\<close>

fun append_loop ::
  "(digest \<times> digest \<Rightarrow> digest) \<Rightarrow> nat \<Rightarrow> u64 \<Rightarrow> bool \<Rightarrow> digest \<Rightarrow> digest list \<Rightarrow> digest list \<Rightarrow>
   (digest \<times> digest list) res" where
  "append_loop hash 0 index partial top_node active updated = Inr (top_node, updated)"
| "append_loop hash (Suc depth) index partial top_node active updated =
     (if index AND 1 = 0 then
        append_loop hash depth (drop_bit 1 index) True (hash (make_canonical_pair top_node top_node)) active
          (if \<not> partial then updated @ [top_node] else updated)
      else
        case active of
          [] \<Rightarrow> Inl undefined_behavior
        | left_value # rest \<Rightarrow>
            append_loop hash depth (drop_bit 1 index) partial (hash (make_canonical_pair left_value top_node)) rest
              (if partial then updated @ [left_value] else updated))"

definition im_append ::
  "(digest \<times> digest \<Rightarrow> digest) \<Rightarrow> incremental_merkle \<Rightarrow> digest \<Rightarrow> (digest \<times> incremental_merkle) res" where
  "im_append hash m d =
     res_bind (append_loop hash (nat (calcluate_max_depth (im_node_count m + 1) - 1)) (im_node_count m) False d
                 (im_active_nodes m) []) (\<lambda>(top_node, updated).
     let nodes = updated @ [top_node]
     in Inr (last nodes, m\<lparr>im_active_nodes := nodes, im_node_count := im_node_count m + 1\<rparr>))"

definition im_get_root :: "incremental_merkle \<Rightarrow> digest" where
  "im_get_root m = (if 0 < im_node_count m then last (im_active_nodes m) else digest_default)"

text \<open>Appending the digests of a list one after the other.\<close>

definition im_append_all ::
  "(digest \<times> digest \<Rightarrow> digest) \<Rightarrow> digest list \<Rightarrow> incremental_merkle \<Rightarrow> incremental_merkle res" where
  "im_append_all hash = for_each (\<lambda>d m. res_bind (im_append hash m d) (\<lambda>(root, m). Inr m))"

section \<open>The passes of the batch algorithm\<close>

declare merkle_loop.simps [simp del]

abbreviation node :: "(digest \<times> digest \<Rightarrow> digest) \<Rightarrow> digest \<Rightarrow> digest \<Rightarrow> digest" where
  "node hash l r \<equiv> hash (make_canonical_pair l r)"

text \<open>The nodes of the level above: each pair of neighbours, a last single node paired with itself.\<close>

fun level_up :: "(digest \<times> digest \<Rightarrow> digest) \<Rightarrow> digest list \<Rightarrow> digest list" where
  "level_up hash (a # b # xs) = node hash a b # level_up hash xs"
| "level_up hash [a] = [node hash a a]"
| "level_up hash [] = []"

lemma foldl_update_pairs:
  fixes h :: "'a \<Rightarrow> 'a \<Rightarrow> 'a"
  assumes "2 * k \<le> length ids"
  shows "foldl (\<lambda>ids i. ids[i := h (ids ! (2 * i)) (ids ! (2 * i + 1))]) ids [0..<k] =
    map (\<lambda>i. h (ids ! (2 * i)) (ids ! (2 * i + 1))) [0..<k] @ drop k ids"
  using assms
proof (induction k)
  case (Suc k)
  let ?m = "map (\<lambda>i. h (ids ! (2 * i)) (ids ! (2 * i + 1))) [0..<k]"
  have "(?m @ drop k ids) ! j = ids ! j" if "k \<le> j" "j < length ids" for j
    using that by (simp add: nth_append)
  moreover have "(?m @ drop k ids)[k := x] = ?m @ x # drop (Suc k) ids" for x
    using Suc.prems by (simp add: list_update_append Cons_nth_drop_Suc[symmetric])
  ultimately show ?case using Suc by simp
qed simp

lemma nth_level_up:
  "length (level_up hash ids) = (length ids + 1) div 2 \<and>
   (\<forall>i < (length ids + 1) div 2. level_up hash ids ! i =
      node hash (ids ! (2 * i)) (if 2 * i + 1 < length ids then ids ! (2 * i + 1) else ids ! (2 * i)))"
  by (induction hash ids rule: level_up.induct) (auto simp: nth_Cons split: nat.splits)

lemma merkle_pass_level_up: "merkle_pass hash ids = level_up hash ids"
proof -
  define ys where "ys = (if length ids mod 2 \<noteq> 0 then ids @ [last ids] else ids)"
  have len: "length ys div 2 = (length ids + 1) div 2" "2 * (length ys div 2) \<le> length ys"
    unfolding ys_def by (auto simp: mod2_eq_if)
  have "merkle_pass hash ids = map (\<lambda>i. node hash (ys ! (2 * i)) (ys ! (2 * i + 1))) [0..<length ys div 2]"
    unfolding merkle_pass_def Let_def ys_def[symmetric]
      foldl_update_pairs[OF len(2), where h = "node hash"] by simp
  moreover have "ys ! (2 * i) = ids ! (2 * i)"
    "ys ! (2 * i + 1) = (if 2 * i + 1 < length ids then ids ! (2 * i + 1) else ids ! (2 * i))"
    if "i < (length ids + 1) div 2" for i
    using that unfolding ys_def
    by (cases "ids = []"; auto simp: nth_append last_conv_nth mod2_eq_if less_Suc_eq elim!: oddE evenE)+
  ultimately show ?thesis
    using nth_level_up[of hash ids] by (intro nth_equalityI) (simp_all add: len)
qed

text \<open>Level \<open>c\<close> of the tree over the leaves \<open>xs\<close>.\<close>

definition level :: "(digest \<times> digest \<Rightarrow> digest) \<Rightarrow> nat \<Rightarrow> digest list \<Rightarrow> digest list" where
  "level hash c xs = (level_up hash ^^ c) xs"

lemma level_0 [simp]: "level hash 0 xs = xs"
  by (simp add: level_def)

lemma level_Suc: "level hash (Suc c) xs = level_up hash (level hash c xs)"
  by (simp add: level_def)

lemma length_level: "xs \<noteq> [] \<Longrightarrow> length (level hash c xs) = (length xs - 1) div 2 ^ c + 1"
proof (induction c)
  case (Suc c)
  then have "length (level hash (Suc c) xs) = ((length xs - 1) div 2 ^ c + 1 + 1) div 2"
    using nth_level_up[of hash "level hash c xs"] by (simp add: level_Suc)
  then show ?case by (simp add: mult.commute flip: div_mult2_eq)
qed simp

lemma level_not_Nil: "xs \<noteq> [] \<Longrightarrow> level hash c xs \<noteq> []"
  using length_level[of xs hash c] by auto

lemma last_level_Suc:
  assumes "xs \<noteq> []"
  shows "last (level hash (Suc c) xs) =
    (if even ((length xs - 1) div 2 ^ c) then node hash (last (level hash c xs)) (last (level hash c xs))
     else node hash (level hash c xs ! ((length xs - 1) div 2 ^ c - 1)) (last (level hash c xs)))"
proof -
  define ys where "ys = level hash c xs"
  define k where "k = (length xs - 1) div 2 ^ c"
  have len: "length ys = k + 1" using length_level[OF assms] by (simp add: ys_def k_def)
  then have ne: "ys \<noteq> []" "level_up hash ys \<noteq> []"
    using nth_level_up[of hash ys] by auto
  have l: "length (level_up hash ys) = (k + 2) div 2" using nth_level_up[of hash ys] len by simp
  then have "last (level_up hash ys) = level_up hash ys ! (k div 2)"
    using ne(2) by (simp add: last_conv_nth)
  also have "\<dots> = node hash (ys ! (2 * (k div 2))) (if 2 * (k div 2) + 1 < length ys then ys ! (2 * (k div 2) + 1) else ys ! (2 * (k div 2)))"
    using nth_level_up[of hash ys] len by simp
  finally show ?thesis
    using len ne(1) unfolding ys_def[symmetric] k_def[symmetric] level_Suc
    by (auto simp: last_conv_nth elim!: oddE evenE)
qed

text \<open>The depth of the tree over \<open>n + 1\<close> leaves.\<close>

definition is_depth :: "nat \<Rightarrow> nat \<Rightarrow> bool" where
  "is_depth n d \<longleftrightarrow> n < 2 ^ d \<and> (d = 0 \<or> 2 ^ (d - 1) \<le> n)"

lemma is_depth_Suc: "is_depth n (Suc d) \<Longrightarrow> 1 \<le> n \<and> is_depth (n div 2) d"
proof -
  assume "is_depth n (Suc d)"
  then have n: "n < 2 * 2 ^ d" "2 ^ d \<le> n" by (simp_all add: is_depth_def)
  then have "1 \<le> n" by (metis le_trans one_le_numeral one_le_power)
  moreover have "n div 2 < 2 ^ d" using n(1) by auto
  moreover have "2 ^ (d - 1) \<le> n div 2" if "d \<noteq> 0"
    using n(2) that by (cases d) auto
  ultimately show ?thesis by (auto simp: is_depth_def)
qed

lemma merkle_loop_level:
  "xs \<noteq> [] \<Longrightarrow> is_depth (length xs - 1) d \<Longrightarrow> merkle_loop hash xs = level hash d xs"
proof (induction d arbitrary: xs)
  case 0
  then have "length xs = 1" by (cases xs) (simp_all add: is_depth_def)
  then show ?case by (simp add: merkle_loop.simps)
next
  case (Suc d)
  have len: "length (level_up hash xs) - 1 = (length xs - 1) div 2"
    using Suc.prems(1) nth_level_up[of hash xs] by (cases xs) simp_all
  have "1 < length xs" using is_depth_Suc[OF Suc.prems(2)] by linarith
  moreover have "level_up hash xs \<noteq> []" using Suc.prems(1) nth_level_up[of hash xs] by (cases xs) auto
  ultimately have "merkle_loop hash xs = level hash d (level_up hash xs)"
    using Suc.IH[of "level_up hash xs"] is_depth_Suc[OF Suc.prems(2)] len
    by (subst merkle_loop.simps) (simp add: merkle_pass_level_up)
  then show ?case by (simp add: level_def funpow_swap1)
qed

lemma merkle_last_level:
  assumes "xs \<noteq> []" "is_depth (length xs - 1) d"
  shows "merkle hash xs = last (level hash d xs)"
proof -
  have "length (level hash d xs) = 1" using length_level[OF assms(1), of hash d] assms(2) by (simp add: is_depth_def)
  then obtain r where "level hash d xs = [r]" by (metis One_nat_def length_0_conv length_Suc_conv)
  then show ?thesis using assms by (simp add: merkle_def merkle_loop_level)
qed

section \<open>Complete subtrees\<close>

text \<open>The root of the complete subtree number \<open>i\<close> of height \<open>c\<close>.\<close>

fun subtree :: "(digest \<times> digest \<Rightarrow> digest) \<Rightarrow> digest list \<Rightarrow> nat \<Rightarrow> nat \<Rightarrow> digest" where
  "subtree hash xs 0 i = xs ! i"
| "subtree hash xs (Suc c) i = node hash (subtree hash xs c (2 * i)) (subtree hash xs c (2 * i + 1))"

lemma subtree_append:
  "(i + 1) * 2 ^ c \<le> length xs \<Longrightarrow> subtree hash (xs @ ys) c i = subtree hash xs c i"
proof (induction c arbitrary: i)
  case (Suc c)
  have "(2 * i + 1) * 2 ^ c \<le> length xs" "(2 * i + 1 + 1) * 2 ^ c \<le> length xs"
    using Suc.prems by (simp_all add: algebra_simps)
  then show ?case using Suc.IH[of "2 * i"] Suc.IH[of "2 * i + 1"] by simp
qed (simp add: nth_append)

lemma level_subtree:
  "(i + 1) * 2 ^ c \<le> length xs \<Longrightarrow> level hash c xs ! i = subtree hash xs c i"
proof (induction c arbitrary: i)
  case (Suc c)
  have b: "(2 * i + 1) * 2 ^ c \<le> length xs" "(2 * i + 1 + 1) * 2 ^ c \<le> length xs"
    using Suc.prems by (simp_all add: algebra_simps)
  have ne: "xs \<noteq> []" using Suc.prems by auto
  have "2 * i + 1 \<le> (length xs - 1) div 2 ^ c"
  proof -
    have "(2 * i + 1) * 2 ^ c + 2 ^ c \<le> length xs" "(1 :: nat) \<le> 2 ^ c" using b(2) by simp_all
    then have "(2 * i + 1) * 2 ^ c \<le> length xs - 1" by linarith
    then show ?thesis by (simp add: less_eq_div_iff_mult_less_eq)
  qed
  then have "2 * i + 1 < length (level hash c xs)" using length_level[OF ne, of hash c] by simp
  then show ?case
    using Suc.IH[OF b(1)] Suc.IH[OF b(2)] nth_level_up[of hash "level hash c xs"] by (simp add: level_Suc)
qed simp

section \<open>The loop of the append\<close>

text \<open>The complete subtrees that the tree over \<open>xs\<close> ends with, one for each binary digit of its size.\<close>

definition left_nodes :: "(digest \<times> digest \<Rightarrow> digest) \<Rightarrow> digest list \<Rightarrow> nat list \<Rightarrow> digest list" where
  "left_nodes hash xs js =
     map (\<lambda>j. subtree hash xs j (length xs div 2 ^ j - 1)) (filter (\<lambda>j. odd (length xs div 2 ^ j)) js)"

lemma left_nodes_append [simp]: "left_nodes hash xs (js @ ks) = left_nodes hash xs js @ left_nodes hash xs ks"
  by (simp add: left_nodes_def)

lemma left_nodes_Nil [simp]: "left_nodes hash xs [] = []"
  by (simp add: left_nodes_def)

lemma left_nodes_Cons:
  "left_nodes hash xs (j # js) =
     (if odd (length xs div 2 ^ j) then [subtree hash xs j (length xs div 2 ^ j - 1)] else []) @ left_nodes hash xs js"
  by (simp add: left_nodes_def)

lemma left_nodes_high: "length xs < 2 ^ d \<Longrightarrow> left_nodes hash xs [d..<e] = []"
proof -
  assume l: "length xs < 2 ^ d"
  have "length xs div 2 ^ j = 0" if "d \<le> j" for j
  proof -
    have "(2 :: nat) ^ d \<le> 2 ^ j" using that by (simp add: power_increasing)
    with l have "length xs < 2 ^ j" by (rule less_le_trans)
    then show ?thesis by simp
  qed
  then show ?thesis by (auto simp: left_nodes_def filter_empty_conv)
qed

text \<open>The carry of the increment of the node count, level by level.\<close>

definition met_left :: "nat \<Rightarrow> nat \<Rightarrow> bool" where
  "met_left n c \<longleftrightarrow> (\<exists>j<c. even (n div 2 ^ j))"

lemma met_left_0 [simp]: "\<not> met_left n 0"
  by (simp add: met_left_def)

lemma met_left_Suc: "met_left n (Suc c) \<longleftrightarrow> met_left n c \<or> even (n div 2 ^ c)"
  by (auto simp: met_left_def less_Suc_eq)

lemma carry: "Suc n div 2 ^ c = (if met_left n c then n div 2 ^ c else Suc (n div 2 ^ c))"
proof (induction c)
  case (Suc c)
  have "Suc n div 2 ^ Suc c = (Suc n div 2 ^ c) div 2" "n div 2 ^ Suc c = n div 2 ^ c div 2"
    by (simp_all add: mult.commute flip: div_mult2_eq)
  then show ?case using Suc by (auto simp: met_left_Suc elim!: evenE oddE)
qed simp

lemma unat_index_step:
  "(w :: u64) AND 1 = 0 \<longleftrightarrow> even (unat w)" "unat (drop_bit 1 w) = unat w div 2"
  by (simp_all add: and_one_eq drop_bit_Suc word_unat_eq_iff unat_mod_distrib unat_div_distrib even_iff_mod_2_eq_zero)

lemma append_loop_correct:
  assumes "c \<le> d" and "ys = xs @ [x]"
    and "unat index = length xs div 2 ^ c"
  shows "append_loop hash (d - c) index (met_left (length xs) c) (last (level hash c ys))
      (left_nodes hash xs [c..<d] @ rest) (left_nodes hash ys [0..<c]) =
    Inr (last (level hash d ys), left_nodes hash ys [0..<d])"
  using assms(1,3)
proof (induction "d - c" arbitrary: c index)
  case 0
  then show ?case by simp
next
  case (Suc k)
  define i where "i = length xs div 2 ^ c"
  have c: "c < d" and k: "d - c = Suc (d - Suc c)" using Suc.hyps(2) by linarith+
  have up: "[0..<Suc c] = [0..<c] @ [c]" "[c..<d] = [c] @ [Suc c..<d]" using c by (simp_all add: upt_conv_Cons)
  have len: "length ys - 1 = length xs" "ys \<noteq> []" "length ys = Suc (length xs)" using assms(2) by simp_all
  have idx: "index AND 1 = 0 \<longleftrightarrow> even i" "unat (drop_bit 1 index) = length xs div 2 ^ Suc c"
    using Suc.prems(2) unat_index_step[of index] by (simp_all add: i_def mult.commute flip: div_mult2_eq)
  note IH = Suc.hyps(1)[OF _ _ idx(2)]
  have full: "subtree hash ys c i = last (level hash c ys)" if "\<not> met_left (length xs) c"
  proof -
    have "Suc i = Suc (length xs) div 2 ^ c" using that carry[of "length xs" c] by (simp add: i_def)
    then have "(i + 1) * 2 ^ c \<le> length ys" using len(3) by (metis Suc_eq_plus1 div_times_less_eq_dividend)
    moreover have "last (level hash c ys) = level hash c ys ! i"
      using length_level[OF len(2), of hash c] level_not_Nil[OF len(2), of hash c] len(1) by (simp add: last_conv_nth i_def)
    ultimately show ?thesis by (simp add: level_subtree)
  qed
  have left: "level hash c ys ! (i - 1) = subtree hash ys c (i - 1)"
    "subtree hash ys c (i - 1) = subtree hash xs c (i - 1)" if "odd i"
  proof -
    have "(i - 1 + 1) * 2 ^ c \<le> length xs" using that by (simp add: i_def odd_pos)
    then show "level hash c ys ! (i - 1) = subtree hash ys c (i - 1)"
      "subtree hash ys c (i - 1) = subtree hash xs c (i - 1)"
      using subtree_append[of "i - 1" c xs hash "[x]"] assms(2) len(3) by (simp_all add: level_subtree)
  qed
  have ys_i: "length ys div 2 ^ c = (if met_left (length xs) c then i else Suc i)"
    using carry[of "length xs" c] len(3) by (simp add: i_def)
  show ?case
  proof (cases "even i")
    case True
    have "last (level hash (Suc c) ys) = node hash (last (level hash c ys)) (last (level hash c ys))"
      using last_level_Suc[OF len(2), of hash c] True len(1) by (simp add: i_def)
    moreover have "left_nodes hash xs [c..<d] = left_nodes hash xs [Suc c..<d]"
      using True by (simp add: up(2) left_nodes_Cons i_def)
    moreover have "left_nodes hash ys [0..<Suc c] = (if \<not> met_left (length xs) c
        then left_nodes hash ys [0..<c] @ [last (level hash c ys)] else left_nodes hash ys [0..<c])"
      using True full by (simp add: up(1) left_nodes_Cons ys_i del: upt_Suc)
    ultimately show ?thesis
      using IH Suc.hyps(2) c idx(1) True unfolding k
      by (cases "met_left (length xs) c") (simp_all add: met_left_Suc flip: i_def)
  next
    case False
    have "last (level hash (Suc c) ys) = node hash (subtree hash xs c (i - 1)) (last (level hash c ys))"
      using last_level_Suc[OF len(2), of hash c] False len(1) left by (simp add: i_def)
    moreover have "left_nodes hash xs [c..<d] = subtree hash xs c (i - 1) # left_nodes hash xs [Suc c..<d]"
      using False by (simp add: up(2) left_nodes_Cons i_def)
    moreover have "left_nodes hash ys [0..<Suc c] = (if met_left (length xs) c
        then left_nodes hash ys [0..<c] @ [subtree hash xs c (i - 1)] else left_nodes hash ys [0..<c])"
      using False left by (simp add: up(1) left_nodes_Cons ys_i del: upt_Suc)
    ultimately show ?thesis
      using IH Suc.hyps(2) c idx(1) False unfolding k
      by (cases "met_left (length xs) c") (simp_all add: met_left_Suc flip: i_def)
  qed
qed

section \<open>Depth\<close>

lemma smear_step:
  fixes x v :: u64
  assumes "\<And>i. bit x i \<longleftrightarrow> (\<exists>j<k. bit v (i + j))"
  shows "bit (x OR drop_bit k x) i \<longleftrightarrow> (\<exists>j<2 * k. bit v (i + j))"
proof -
  have "bit (x OR drop_bit k x) i \<longleftrightarrow> (\<exists>j<k. bit v (i + j)) \<or> (\<exists>j<k. bit v (k + i + j))"
    by (simp add: bit_or_iff bit_drop_bit_eq assms)
  also have "\<dots> \<longleftrightarrow> (\<exists>j<2 * k. bit v (i + j))"
  proof
    assume "\<exists>j<2 * k. bit v (i + j)"
    then obtain j where j: "j < 2 * k" "bit v (i + j)" by blast
    show "(\<exists>j<k. bit v (i + j)) \<or> (\<exists>j<k. bit v (k + i + j))"
    proof (cases "j < k")
      case False
      then have "j - k < k" "k + i + (j - k) = i + j" using j(1) by simp_all
      then show ?thesis using j(2) by metis
    qed (use j in blast)
  next
    assume "(\<exists>j<k. bit v (i + j)) \<or> (\<exists>j<k. bit v (k + i + j))"
    then show "\<exists>j<2 * k. bit v (i + j)"
    proof (elim disjE exE conjE)
      fix j assume "j < k" "bit v (k + i + j)"
      then show ?thesis by (intro exI[of _ "k + j"]) (simp add: ac_simps)
    qed force
  qed
  finally show ?thesis .
qed

definition smear :: "u64 \<Rightarrow> u64" where
  "smear v =
     (let v = v OR drop_bit 1 v;
          v = v OR drop_bit 2 v;
          v = v OR drop_bit 4 v;
          v = v OR drop_bit 8 v;
          v = v OR drop_bit 16 v
      in v OR drop_bit 32 v)"

lemma next_power_of_2_smear: "next_power_of_2 (n + 1) = smear n + 1"
  by (simp add: next_power_of_2_def smear_def Let_def)

lemma bit_smear: "bit (smear v) i \<longleftrightarrow> (\<exists>j<64. bit v (i + j))"
proof -
  have "bit v i \<longleftrightarrow> (\<exists>j<1. bit v (i + j))" for i by simp
  from smear_step[OF smear_step[OF smear_step[OF smear_step[OF smear_step[OF smear_step[OF this]]]]]]
  show ?thesis by (simp add: smear_def Let_def)
qed

lemma is_depth_exists: "\<exists>d. is_depth n d"
proof -
  have "n < 2 ^ n" by (rule less_exp)
  then obtain d where d: "n < 2 ^ d" "\<And>k. k < d \<Longrightarrow> \<not> n < 2 ^ k"
    using exists_least_iff[of "\<lambda>d. n < 2 ^ d"] by metis
  have "d = 0 \<or> 2 ^ (d - 1) \<le> n" using d(2)[of "d - 1"] by (cases d) (simp_all add: not_less)
  with d(1) show ?thesis unfolding is_depth_def by blast
qed

lemma smear_is_depth:
  assumes "is_depth (unat v) d" "d < 64"
  shows "smear v + 1 = (2 ^ d :: u64)"
proof -
  have lt: "unat v < 2 ^ d" using assms(1) by (simp add: is_depth_def)
  have none: "\<not> bit v i" if "d \<le> i" for i
  proof -
    have "unat v < 2 ^ i" using lt by (rule less_le_trans) (use that in \<open>simp add: power_increasing\<close>)
    then have "\<not> bit (unat v) i" by (simp add: bit_nat_def)
    then show ?thesis by (simp add: bit_unsigned_iff)
  qed
  have top_bit: "bit v (d - 1)" if "d \<noteq> 0"
  proof -
    have "2 ^ (d - 1) \<le> unat v" "unat v < 2 * 2 ^ (d - 1)" using assms(1) that by (auto simp: is_depth_def power_eq_if)
    then have "unat v div 2 ^ (d - 1) = 1" by (intro div_nat_eqI) simp_all
    then have "bit (unat v) (d - 1)" by (simp add: bit_nat_def)
    then show ?thesis by (simp add: bit_unsigned_iff)
  qed
  have "smear v = mask d"
  proof (rule bit_eqI)
    fix i assume "possible_bit TYPE(64 word) i"
    then have i: "i < 64" by (simp add: possible_bit_def)
    show "bit (smear v) i = bit (mask d :: u64) i"
    proof (cases "i < d")
      case True
      then have "bit v (i + (d - 1 - i))" "d - 1 - i < 64" using top_bit assms(2) by simp_all
      then have "bit (smear v) i" unfolding bit_smear by blast
      then show ?thesis using True i by (simp add: bit_mask_iff)
    next
      case False
      then show ?thesis using none by (simp add: bit_smear bit_mask_iff)
    qed
  qed
  then show ?thesis by (simp add: mask_eq_exp_minus_1)
qed

lemma power_and_nonzero: "d < 64 \<Longrightarrow> (2 ^ d AND m \<noteq> 0) \<longleftrightarrow> bit (m :: u64) d"
proof -
  assume "d < 64"
  then have "bit (2 ^ d AND m) i \<longleftrightarrow> i = d \<and> bit m d" for i
    by (auto simp: bit_and_iff bit_exp_iff)
  then show ?thesis by (metis bit_0_eq bot_apply bit_eq_iff bot_bool_def)
qed

lemma clz_bits:
  "\<forall>d \<in> set [0..<64].
     (64 :: int) - 1 - (if bit (0x00000000FFFFFFFF :: int) d then 32 else 0)
       - (if bit (0x0000FFFF0000FFFF :: int) d then 16 else 0)
       - (if bit (0x00FF00FF00FF00FF :: int) d then 8 else 0)
       - (if bit (0x0F0F0F0F0F0F0F0F :: int) d then 4 else 0)
       - (if bit (0x3333333333333333 :: int) d then 2 else 0)
       - (if bit (0x5555555555555555 :: int) d then 1 else 0) = int d"
  by code_simp

lemma clz_power_2_power: "d < 64 \<Longrightarrow> clz_power_2 (2 ^ d) = int d"
proof -
  assume d: "d < 64"
  then have m: "(2 ^ d AND numeral m \<noteq> (0 :: u64)) \<longleftrightarrow> bit (numeral m :: int) d" for m
    by (simp add: power_and_nonzero)
  have "(2 :: u64) ^ d \<noteq> 0" using d by (simp add: exp_eq_zero_iff)
  then have "clz_power_2 (2 ^ d) = (64 :: int) - 1 - (if bit (0x00000000FFFFFFFF :: int) d then 32 else 0)
       - (if bit (0x0000FFFF0000FFFF :: int) d then 16 else 0)
       - (if bit (0x00FF00FF00FF00FF :: int) d then 8 else 0)
       - (if bit (0x0F0F0F0F0F0F0F0F :: int) d then 4 else 0)
       - (if bit (0x3333333333333333 :: int) d then 2 else 0)
       - (if bit (0x5555555555555555 :: int) d then 1 else 0)"
    unfolding clz_power_2_def m by (simp only: if_True not_False_eq_True)
  also have "\<dots> = int d" by (rule bspec[OF clz_bits]) (use d in simp)
  finally show ?thesis .
qed

lemma calcluate_max_depth_eq:
  assumes "is_depth (unat n) d" "d < 64"
  shows "calcluate_max_depth (n + 1) = int d + 1"
proof -
  have "n + 1 \<noteq> 0"
  proof
    assume "n + 1 = 0"
    then have "n = -1" by (simp add: eq_neg_iff_add_eq_0)
    then have "unat n = 2 ^ 64 - 1" by (simp add: unat_max_word)
    moreover have "unat n < 2 ^ d" using assms(1) by (simp add: is_depth_def)
    then have "unat n < 2 ^ 63" by (rule less_le_trans) (use assms(2) in \<open>intro power_increasing; simp\<close>)
    ultimately show False by simp
  qed
  then show ?thesis
    using smear_is_depth[OF assms] clz_power_2_power[OF assms(2)]
    by (simp add: calcluate_max_depth_def next_power_of_2_smear)
qed

section \<open>The invariant of the incremental tree\<close>

definition im_inv :: "(digest \<times> digest \<Rightarrow> digest) \<Rightarrow> digest list \<Rightarrow> incremental_merkle \<Rightarrow> bool" where
  "im_inv hash xs m \<longleftrightarrow>
     unat (im_node_count m) = length xs \<and> im_get_root m = merkle hash xs \<and>
     (\<exists>rest. im_active_nodes m = left_nodes hash xs [0..<64] @ rest)"

lemma im_inv_init: "im_inv hash [] incremental_merkle_init"
  by (simp add: im_inv_def incremental_merkle_init_def im_get_root_def merkle_def left_nodes_def)

lemma is_depth_bound: "is_depth n d \<Longrightarrow> n < 2 ^ 63 \<Longrightarrow> d < 64"
proof (rule ccontr)
  assume d: "is_depth n d" "n < 2 ^ 63" "\<not> d < 64"
  then have "(2 :: nat) ^ 63 \<le> 2 ^ (d - 1)" by (intro power_increasing) simp_all
  then show False using d by (simp add: is_depth_def)
qed

lemma left_nodes_upto:
  assumes "d < 64" "length xs < 2 ^ d"
  shows "left_nodes hash xs [0..<64] = left_nodes hash xs [0..<d]"
proof -
  have "[0..<64] = [0..<d] @ [d..<64]" using upt_add_eq_append[of 0 d "64 - d"] assms(1) by simp
  then show ?thesis by (simp add: left_nodes_high[OF assms(2)])
qed

lemma left_nodes_new:
  assumes "d < 64" "length xs \<le> 2 ^ d" "xs \<noteq> []"
  shows "\<exists>rest. left_nodes hash xs [0..<d] @ [last (level hash d xs)] = left_nodes hash xs [0..<64] @ rest"
proof (cases "length xs = 2 ^ d")
  case False
  then show ?thesis using assms by (auto simp: left_nodes_upto)
next
  case True
  have "[0..<64] = [0..<d] @ d # [Suc d..<64]"
    using upt_add_eq_append[of 0 d "64 - d"] assms(1) by (simp add: upt_conv_Cons)
  moreover have "left_nodes hash xs [Suc d..<64] = []" using True by (intro left_nodes_high) simp
  moreover have "subtree hash xs d 0 = last (level hash d xs)"
  proof -
    have "length (level hash d xs) = 1" using length_level[OF assms(3), of hash d] True by simp
    moreover have "level hash d xs ! 0 = subtree hash xs d 0" using True by (intro level_subtree) simp
    ultimately show ?thesis using level_not_Nil[OF assms(3), of hash d] by (simp add: last_conv_nth)
  qed
  ultimately show ?thesis using True by (simp add: left_nodes_Cons)
qed

lemma im_append_inv:
  assumes "im_inv hash xs m" "length xs < 2 ^ 63"
  shows "\<exists>m'. im_append hash m x = Inr (merkle hash (xs @ [x]), m') \<and> im_inv hash (xs @ [x]) m'"
proof -
  define ys where "ys = xs @ [x]"
  obtain rest where n: "unat (im_node_count m) = length xs"
    and act: "im_active_nodes m = left_nodes hash xs [0..<64] @ rest"
    using assms(1) by (auto simp: im_inv_def)
  obtain d where d: "is_depth (length xs) d" using is_depth_exists by blast
  have d64: "d < 64" by (rule is_depth_bound[OF d assms(2)])
  have lt: "length xs < 2 ^ d" using d by (simp add: is_depth_def)
  have "nat (calcluate_max_depth (im_node_count m + 1) - 1) = d"
    using calcluate_max_depth_eq[of "im_node_count m" d] d n d64 by simp
  moreover have "append_loop hash d (im_node_count m) False x (im_active_nodes m) [] =
      Inr (last (level hash d ys), left_nodes hash ys [0..<d])"
    using append_loop_correct[of 0 d ys xs x "im_node_count m" hash rest] n
    unfolding act left_nodes_upto[OF d64 lt] ys_def by simp
  moreover have root: "last (level hash d ys) = merkle hash ys"
    using merkle_last_level[of ys d hash] d by (simp add: ys_def)
  moreover have "im_inv hash ys (m\<lparr>im_active_nodes := left_nodes hash ys [0..<d] @ [last (level hash d ys)],
      im_node_count := im_node_count m + 1\<rparr>)"
  proof -
    have "unat (im_node_count m) + 1 < 2 ^ 64" using n assms(2) by simp
    then have "unat (im_node_count m + 1) = length ys" using n by (simp add: unat_add_no_overflow ys_def)
    moreover have "\<exists>rest. left_nodes hash ys [0..<d] @ [last (level hash d ys)] = left_nodes hash ys [0..<64] @ rest"
      using lt by (intro left_nodes_new[OF d64]) (simp_all add: ys_def)
    moreover have "0 < im_node_count m + 1" using calculation(1) by (simp add: word_less_nat_alt ys_def)
    ultimately show ?thesis using root by (simp add: im_inv_def im_get_root_def)
  qed
  ultimately show ?thesis by (simp add: im_append_def ys_def)
qed

lemma im_append_all_inv:
  "im_inv hash xs m \<Longrightarrow> length xs + length ys < 2 ^ 63 \<Longrightarrow>
   \<exists>m'. im_append_all hash ys m = Inr m' \<and> im_inv hash (xs @ ys) m'"
proof (induction ys arbitrary: xs m)
  case (Cons y ys)
  obtain m1 where 1: "im_append hash m y = Inr (merkle hash (xs @ [y]), m1)" "im_inv hash (xs @ [y]) m1"
    using im_append_inv[OF Cons.prems(1), of y] Cons.prems(2) by auto
  from Cons.IH[OF 1(2)] Cons.prems(2) obtain m' where
    "im_append_all hash ys m1 = Inr m'" "im_inv hash (xs @ y # ys) m'" by auto
  then show ?case using 1(1) by (simp add: im_append_all_def)
qed (simp add: im_append_all_def)

section \<open>Properties\<close>

text \<open>
  C11. Appending the leaves one after the other to an empty incremental tree never reads past its
  active nodes, and the root it ends with is the Merkle root that the batch algorithm computes from
  all the leaves at once, for every hash function and every number of leaves below two to the power
  63.
\<close>

theorem incremental_merkle_equals_merkle:
  assumes "length xs < 2 ^ 63"
  shows "\<exists>m. im_append_all hash xs incremental_merkle_init = Inr m \<and>
    im_get_root m = merkle hash xs \<and> unat (im_node_count m) = length xs"
  using im_append_all_inv[OF im_inv_init, of xs hash] assms by (auto simp: im_inv_def)

theorem incremental_merkle_equals_merkle_witness:
  "\<exists>m. im_append_all snd (replicate 5 digest_default) incremental_merkle_init = Inr m \<and>
     im_get_root m = merkle snd (replicate 5 digest_default) \<and> unat (im_node_count m) = 5"
  using incremental_merkle_equals_merkle[of "replicate 5 digest_default" snd] by simp

text \<open>
  The depth computed from the number of nodes is that of the smallest complete tree with
  that many leaves: the rounded-up count is the least power of two that is not below the count.
\<close>

theorem calcluate_max_depth_minimal:
  assumes "0 < n" and "unat n \<le> 2 ^ 63"
  shows "\<exists>d. calcluate_max_depth n = int d + 1 \<and> next_power_of_2 n = 2 ^ d \<and> unat n \<le> 2 ^ d \<and>
    (\<forall>e. unat n \<le> 2 ^ e \<longrightarrow> d \<le> e)"
proof -
  have n: "unat (n - 1) = unat n - 1" "1 \<le> unat n"
    using assms(1) by (simp_all add: unat_sub_no_underflow word_less_nat_alt)
  obtain d where d: "is_depth (unat (n - 1)) d" using is_depth_exists by blast
  have d64: "d < 64" using assms(2) n by (intro is_depth_bound[OF d]) linarith
  have "d \<le> e" if "unat n \<le> 2 ^ e" for e
  proof (rule ccontr)
    assume "\<not> d \<le> e"
    then have le: "(2 :: nat) ^ e \<le> 2 ^ (d - 1)" and "d \<noteq> 0" by (auto intro: power_increasing)
    then have "2 ^ (d - 1) \<le> unat n - 1" using d n by (simp add: is_depth_def)
    with le that n(2) show False by linarith
  qed
  then show ?thesis
    using calcluate_max_depth_eq[OF d d64] smear_is_depth[OF d d64] next_power_of_2_smear[of "n - 1"] d n
    by (intro exI[of _ d]) (auto simp: is_depth_def)
qed

theorem calcluate_max_depth_minimal_witness:
  "\<exists>d. calcluate_max_depth 5 = int d + 1 \<and> next_power_of_2 5 = 2 ^ d \<and> d \<le> 3"
  using calcluate_max_depth_minimal[of 5] by (auto dest!: spec[of _ "3 :: nat"])

end
