(* ===== verification/Authority.thy ===== *)
theory Authority
  imports Names "HOL-Library.Product_Lexorder"
begin

text \<open>
  Authorities (\<^verbatim>\<open>authority.hpp\<close>) and the block signing authorities of producer schedules
  (\<^verbatim>\<open>producer_schedule.hpp\<close>): weighted thresholds over keys, permissions and waits. A public key is an
  element of an ordered type \<open>'k\<close>; its serialized size is the parameter \<open>pack_size\<close>. The
  \<^verbatim>\<open>shared_\<close> variants of the records hold the same data in shared memory and are the same records
  here.
\<close>

section \<open>Definitions\<close>

text \<open>A permission level is an account and one of its permissions, ordered lexicographically.\<close>

type_synonym permission_level = "name \<times> name"

record permission_level_weight =
  plw_permission :: permission_level
  plw_weight :: u16

record 'k key_weight =
  kw_key :: 'k
  kw_weight :: u16

record wait_weight =
  ww_wait_sec :: u32
  ww_weight :: u16

record 'k authority =
  auth_threshold :: u32
  auth_keys :: "'k key_weight list"
  auth_accounts :: "permission_level_weight list"
  auth_waits :: "wait_weight list"

definition authority_default :: "'k authority" where
  "authority_default = \<lparr>auth_threshold = 0, auth_keys = [], auth_accounts = [], auth_waits = []\<rparr>"

definition authority_of_key :: "'k \<Rightarrow> u32 \<Rightarrow> 'k authority" where
  "authority_of_key k delay_sec =
     (let a = \<lparr>auth_threshold = 1, auth_keys = [\<lparr>kw_key = k, kw_weight = 1\<rparr>], auth_accounts = [], auth_waits = []\<rparr>
      in if 0 < delay_sec
         then a\<lparr>auth_threshold := 2, auth_waits := auth_waits a @ [\<lparr>ww_wait_sec = delay_sec, ww_weight = 1\<rparr>]\<rparr>
         else a)"

definition authority_of_permission :: "permission_level \<Rightarrow> u32 \<Rightarrow> 'k authority" where
  "authority_of_permission p delay_sec =
     (let a = \<lparr>auth_threshold = 1, auth_keys = [], auth_accounts = [\<lparr>plw_permission = p, plw_weight = 1\<rparr>], auth_waits = []\<rparr>
      in if 0 < delay_sec
         then a\<lparr>auth_threshold := 2, auth_waits := auth_waits a @ [\<lparr>ww_wait_sec = delay_sec, ww_weight = 1\<rparr>]\<rparr>
         else a)"

definition sort_fields :: "'k::linorder authority \<Rightarrow> 'k authority" where
  "sort_fields a =
     a\<lparr>auth_keys := sort_key (\<lambda>k. (kw_key k, kw_weight k)) (auth_keys a),
       auth_accounts := sort_key (\<lambda>p. (plw_permission p, plw_weight p)) (auth_accounts a),
       auth_waits := sort_key (\<lambda>w. (ww_wait_sec w, ww_weight w)) (auth_waits a)\<rparr>"

text \<open>What is billed for an object is its size rounded up to the alignment.\<close>

definition billable_alignment :: nat where
  "billable_alignment = 16"

definition billable_size_v :: "nat \<Rightarrow> nat" where
  "billable_size_v value = ((value + billable_alignment - 1) div billable_alignment) * billable_alignment"

definition billable_size_permission_level_weight :: nat where
  "billable_size_permission_level_weight = 24"

definition billable_size_key_weight :: nat where
  "billable_size_key_weight = 8"

definition billable_size_wait_weight :: nat where
  "billable_size_wait_weight = 16"

definition authority_get_billable_size :: "('k \<Rightarrow> nat) \<Rightarrow> 'k authority \<Rightarrow> nat" where
  "authority_get_billable_size pack_size a =
     (let accounts_size = length (auth_accounts a) * billable_size_v billable_size_permission_level_weight;
          waits_size = length (auth_waits a) * billable_size_v billable_size_wait_weight;
          keys_size = foldl (\<lambda>n k. n + billable_size_v billable_size_key_weight + pack_size (kw_key k)) 0 (auth_keys a)
      in accounts_size + waits_size + keys_size)"

text \<open>
  One of the three loops of \<open>validate\<close>: the previous element, the running total, and the elements;
  \<^const>\<open>None\<close> is the \<^verbatim>\<open>return false\<close> inside the loop.
\<close>

fun validate_loop :: "('a \<Rightarrow> 'b::linorder) \<Rightarrow> ('a \<Rightarrow> u16) \<Rightarrow> 'a option \<Rightarrow> u32 \<Rightarrow> 'a list \<Rightarrow> u32 option" where
  "validate_loop key weight prev total_weight [] = Some total_weight"
| "validate_loop key weight prev total_weight (x # xs) =
     (if (case prev of None \<Rightarrow> False | Some p \<Rightarrow> \<not> key p < key x) then None
      else validate_loop key weight (Some x) (total_weight + ucast (weight x)) xs)"

definition authority_validate :: "'k::linorder authority \<Rightarrow> bool" where
  "authority_validate auth =
     (if 2 ^ 16 < length (auth_keys auth) + length (auth_accounts auth) + length (auth_waits auth) then False
      else if auth_threshold auth = 0 then False
      else case validate_loop kw_key kw_weight None 0 (auth_keys auth) of
        None \<Rightarrow> False
      | Some total_weight \<Rightarrow>
          (case validate_loop plw_permission plw_weight None total_weight (auth_accounts auth) of
             None \<Rightarrow> False
           | Some total_weight \<Rightarrow>
               if 0 < length (auth_waits auth) \<and> ww_wait_sec (hd (auth_waits auth)) = 0 then False
               else case validate_loop ww_wait_sec ww_weight None total_weight (auth_waits auth) of
                      None \<Rightarrow> False
                    | Some total_weight \<Rightarrow> auth_threshold auth \<le> total_weight))"

subsection \<open>Block signing authorities and schedules\<close>

record 'k block_signing_authority =
  bsa_threshold :: u32
  bsa_keys :: "'k key_weight list"

definition keys_satisfy_and_relevant :: "'k block_signing_authority \<Rightarrow> 'k set \<Rightarrow> bool \<times> nat" where
  "keys_satisfy_and_relevant a presented_keys =
     (let (num_relevant_keys, total_weight) =
        foldl (\<lambda>(num_relevant_keys, total_weight) kw.
            if kw_key kw \<in> presented_keys then
              (num_relevant_keys + 1,
               if total_weight < bsa_threshold a
               then total_weight + min (-1 - total_weight) (ucast (kw_weight kw)) else total_weight)
            else (num_relevant_keys, total_weight)) (0, 0 :: u32) (bsa_keys a)
      in (bsa_threshold a \<le> total_weight, num_relevant_keys))"

record 'k producer_authority =
  pa_producer_name :: name
  pa_authority :: "'k block_signing_authority"

record 'k producer_authority_schedule =
  pas_version :: u32
  pas_producers :: "'k producer_authority list"

definition producer_authority_schedule_default :: "'k producer_authority_schedule" where
  "producer_authority_schedule_default = \<lparr>pas_version = 0, pas_producers = []\<rparr>"

record 'k producer_key =
  pk_producer_name :: name
  pk_block_signing_key :: 'k

record 'k producer_schedule_type =
  ps_version :: u32
  ps_producers :: "'k producer_key list"

definition producer_authority_schedule_of_legacy :: "'k producer_schedule_type \<Rightarrow> 'k producer_authority_schedule" where
  "producer_authority_schedule_of_legacy old =
     \<lparr>pas_version = ps_version old,
      pas_producers =
        map (\<lambda>p. \<lparr>pa_producer_name = pk_producer_name p,
                   pa_authority = \<lparr>bsa_threshold = 1, bsa_keys = [\<lparr>kw_key = pk_block_signing_key p, kw_weight = 1\<rparr>]\<rparr>\<rparr>)
          (ps_producers old)\<rparr>"

section \<open>Validation\<close>

lemma unat_weight_bound: "unat (w :: u16) \<le> 65535"
  using unsigned_less[of w, where ?'a = nat] by simp

lemma sum_weights_bound: "sum_list (map (\<lambda>x. unat (weight x :: u16)) xs) \<le> 65535 * length xs"
proof (induction xs)
  case (Cons x xs)
  then show ?case using unat_weight_bound[of "weight x"] by simp
qed simp

lemma validate_loop_Some:
  assumes "unat tot + sum_list (map (\<lambda>x. unat (weight x)) xs) < 2 ^ 32"
  shows "validate_loop key weight prev tot xs = Some tot' \<longleftrightarrow>
    sorted_wrt (<) (map key (case prev of None \<Rightarrow> xs | Some p \<Rightarrow> p # xs)) \<and>
    unat tot' = unat tot + sum_list (map (\<lambda>x. unat (weight x)) xs)"
  using assms
proof (induction xs arbitrary: prev tot)
  case Nil
  then show ?case by (cases prev) (auto simp: word_unat_eq_iff)
next
  case (Cons x xs)
  have t: "unat (tot + ucast (weight x)) = unat tot + unat (weight x)"
    using Cons.prems by (simp add: unat_add_no_overflow)
  have sw: "sorted_wrt (<) (map key (p # x # xs)) \<longleftrightarrow> key p < key x \<and> sorted_wrt (<) (map key (x # xs))" for p
    by (auto intro: less_trans)
  show ?case
    using Cons.IH[of "tot + ucast (weight x)" "Some x"] Cons.prems t sw
    by (cases prev) (simp_all add: add.assoc)
qed

lemma authority_validate_size:
  "authority_validate a \<Longrightarrow>
     length (auth_keys a) + length (auth_accounts a) + length (auth_waits a) \<le> 2 ^ 16 \<and> 0 < auth_threshold a"
  unfolding authority_validate_def by (simp add: word_neq_0_conv[symmetric] split: if_splits)

definition authority_weight :: "'k authority \<Rightarrow> nat" where
  "authority_weight a =
     sum_list (map (\<lambda>k. unat (kw_weight k)) (auth_keys a)) +
     sum_list (map (\<lambda>p. unat (plw_weight p)) (auth_accounts a)) +
     sum_list (map (\<lambda>w. unat (ww_weight w)) (auth_waits a))"

section \<open>Properties\<close>

text \<open>
  C12. The validation of an authority accepts exactly the authorities with at most 65536 factors, a
  positive threshold, strictly ascending keys, permissions and waits, no zero wait, and weights whose
  true sum reaches the threshold: the 32-bit total it computes never wraps around.
\<close>

theorem authority_validate_iff:
  "authority_validate a \<longleftrightarrow>
     length (auth_keys a) + length (auth_accounts a) + length (auth_waits a) \<le> 2 ^ 16 \<and>
     auth_threshold a \<noteq> 0 \<and>
     sorted_wrt (<) (map kw_key (auth_keys a)) \<and>
     sorted_wrt (<) (map plw_permission (auth_accounts a)) \<and>
     sorted_wrt (<) (map ww_wait_sec (auth_waits a)) \<and>
     0 \<notin> ww_wait_sec ` set (auth_waits a) \<and>
     unat (auth_threshold a) \<le> authority_weight a"
proof (cases "length (auth_keys a) + length (auth_accounts a) + length (auth_waits a) \<le> 2 ^ 16")
  case False
  then show ?thesis by (simp add: authority_validate_def)
next
  case True
  define K where "K = sum_list (map (\<lambda>k. unat (kw_weight k)) (auth_keys a))"
  define A where "A = sum_list (map (\<lambda>p. unat (plw_weight p)) (auth_accounts a))"
  define W where "W = sum_list (map (\<lambda>w. unat (ww_weight w)) (auth_waits a))"
  have "K + A + W < 2 ^ 32"
    using True sum_weights_bound[of kw_weight "auth_keys a"] sum_weights_bound[of plw_weight "auth_accounts a"]
      sum_weights_bound[of ww_weight "auth_waits a"] unfolding K_def A_def W_def by simp
  note bounds = this
  have k: "validate_loop kw_key kw_weight None 0 (auth_keys a) = Some t \<longleftrightarrow>
      sorted_wrt (<) (map kw_key (auth_keys a)) \<and> unat t = K" for t
    using validate_loop_Some[of 0 kw_weight "auth_keys a" kw_key None] bounds by (simp add: K_def)
  have p: "validate_loop plw_permission plw_weight None t (auth_accounts a) = Some t' \<longleftrightarrow>
      sorted_wrt (<) (map plw_permission (auth_accounts a)) \<and> unat t' = K + A" if "unat t = K" for t t'
    using validate_loop_Some[of t plw_weight "auth_accounts a" plw_permission None] bounds that by (simp add: A_def)
  have w: "validate_loop ww_wait_sec ww_weight None t (auth_waits a) = Some t' \<longleftrightarrow>
      sorted_wrt (<) (map ww_wait_sec (auth_waits a)) \<and> unat t' = K + A + W" if "unat t = K + A" for t t'
    using validate_loop_Some[of t ww_weight "auth_waits a" ww_wait_sec None] bounds that by (simp add: W_def)
  have z: "\<not> (0 < length (auth_waits a) \<and> ww_wait_sec (hd (auth_waits a)) = 0) \<longleftrightarrow> 0 \<notin> ww_wait_sec ` set (auth_waits a)"
    if "sorted_wrt (<) (map ww_wait_sec (auth_waits a))"
    using that by (cases "auth_waits a") auto
  have "authority_validate a \<longleftrightarrow> auth_threshold a \<noteq> 0 \<and>
      (\<exists>t1 t2 t3. validate_loop kw_key kw_weight None 0 (auth_keys a) = Some t1 \<and>
        validate_loop plw_permission plw_weight None t1 (auth_accounts a) = Some t2 \<and>
        \<not> (0 < length (auth_waits a) \<and> ww_wait_sec (hd (auth_waits a)) = 0) \<and>
        validate_loop ww_wait_sec ww_weight None t2 (auth_waits a) = Some t3 \<and> auth_threshold a \<le> t3)"
    using True by (auto simp: authority_validate_def split: option.splits if_splits)
  also have "\<dots> \<longleftrightarrow> auth_threshold a \<noteq> 0 \<and> sorted_wrt (<) (map kw_key (auth_keys a)) \<and>
      sorted_wrt (<) (map plw_permission (auth_accounts a)) \<and>
      sorted_wrt (<) (map ww_wait_sec (auth_waits a)) \<and> 0 \<notin> ww_wait_sec ` set (auth_waits a) \<and>
      unat (auth_threshold a) \<le> K + A + W" (is "?l \<longleftrightarrow> ?r")
  proof
    assume ?l
    then show ?r using z by (auto simp: k p w word_le_nat_alt)
  next
    assume ?r
    moreover obtain t1 t2 t3 :: u32 where "unat t1 = K" "unat t2 = K + A" "unat t3 = K + A + W"
      using bounds ex_unat_eq[of K "\<lambda>_ :: u32. True"] ex_unat_eq[of "K + A" "\<lambda>_ :: u32. True"]
        ex_unat_eq[of "K + A + W" "\<lambda>_ :: u32. True"] by auto
    ultimately have "validate_loop kw_key kw_weight None 0 (auth_keys a) = Some t1"
      "validate_loop plw_permission plw_weight None t1 (auth_accounts a) = Some t2"
      "validate_loop ww_wait_sec ww_weight None t2 (auth_waits a) = Some t3"
      "auth_threshold a \<le> t3" "auth_threshold a \<noteq> 0"
      "\<not> (0 < length (auth_waits a) \<and> ww_wait_sec (hd (auth_waits a)) = 0)"
      using z by (simp_all add: k p w word_le_nat_alt)
    then show ?l by blast
  qed
  finally show ?thesis using True by (simp add: authority_weight_def K_def A_def W_def)
qed

text \<open>
  The saturating tally of a block signing authority compares the exact sum of the weights of the
  presented keys with the threshold, and counts the entries whose key is presented.
\<close>

lemma keys_satisfy_and_relevant_eq:
  fixes a :: "'k block_signing_authority"
  shows "keys_satisfy_and_relevant a presented_keys =
     (unat (bsa_threshold a) \<le>
        sum_list (map (\<lambda>k. unat (kw_weight k)) (filter (\<lambda>k. kw_key k \<in> presented_keys) (bsa_keys a))),
      length (filter (\<lambda>k. kw_key k \<in> presented_keys) (bsa_keys a)))"
proof -
  define th where "th = bsa_threshold a"
  define f where "f = (\<lambda>(n :: nat, tot :: u32) (kw :: 'k key_weight).
            if kw_key kw \<in> presented_keys then
              (n + 1, if tot < th then tot + min (-1 - tot) (ucast (kw_weight kw)) else tot)
            else (n, tot))"
  have step: "unat th \<le> unat ((tot :: u32) + min (-1 - tot) (ucast w)) \<longleftrightarrow> unat th \<le> unat tot + unat (w :: u16)"
    "\<not> unat th \<le> unat (tot + min (-1 - tot) (ucast w)) \<Longrightarrow> unat (tot + min (-1 - tot) (ucast w)) = unat tot + unat w"
    for tot w
  proof -
    have "unat tot \<le> unat (-1 :: u32)" by (simp only: word_le_nat_alt[symmetric] word_order.extremum)
    then have m: "unat (-1 - tot) = 2 ^ 32 - 1 - unat tot"
      by (simp only: unat_sub_no_underflow unat_max_word) simp
    have "unat tot < 2 ^ 32" "unat th < 2 ^ 32"
      using unsigned_less[of tot, where ?'a = nat] unsigned_less[of th, where ?'a = nat] by simp_all
    moreover have "unat (min (-1 - tot) (ucast w)) = min (2 ^ 32 - 1 - unat tot) (unat w)"
      unfolding min_def word_le_nat_alt m by (simp add: m)
    ultimately have u: "unat (tot + min (-1 - tot) (ucast w)) = min (2 ^ 32 - 1) (unat tot + unat w)"
      by (subst unat_add_no_overflow) auto
    show "unat th \<le> unat (tot + min (-1 - tot) (ucast w)) \<longleftrightarrow> unat th \<le> unat tot + unat w"
      using u \<open>unat th < 2 ^ 32\<close> by auto
    show "\<not> unat th \<le> unat (tot + min (-1 - tot) (ucast w)) \<Longrightarrow> unat (tot + min (-1 - tot) (ucast w)) = unat tot + unat w"
      using u \<open>unat th < 2 ^ 32\<close> by auto
  qed
  have "fst (foldl f (n, tot) ks) = n + length (filter (\<lambda>k. kw_key k \<in> presented_keys) ks) \<and>
    (th \<le> snd (foldl f (n, tot) ks) \<longleftrightarrow>
      unat th \<le> unat tot + sum_list (map (\<lambda>k. unat (kw_weight k)) (filter (\<lambda>k. kw_key k \<in> presented_keys) ks)))"
    for n tot ks
  proof (induction ks arbitrary: n tot)
    case Nil
    then show ?case by (simp add: word_le_nat_alt)
  next
    case (Cons k ks)
    have "th \<le> snd (foldl f (n, tot) ks) \<longleftrightarrow> True" if "th \<le> tot" for n tot ks
      using that by (induction ks arbitrary: n tot) (auto simp: f_def)
    then show ?case
      using Cons.IH step[of tot "kw_weight k"]
      by (cases "th \<le> tot + min (-1 - tot) (ucast (kw_weight k))")
         (auto simp: f_def word_le_nat_alt word_less_nat_alt not_less)
  qed
  from this[of 0 0 "bsa_keys a"] show ?thesis
    unfolding keys_satisfy_and_relevant_def th_def[symmetric] f_def[symmetric]
    by (simp add: case_prod_beta Let_def)
qed

end
