(* ===== verification/Authority_Checker.thy ===== *)
theory Authority_Checker
  imports Authority Tables "HOL-Library.Sublist" "HOL-Library.Multiset"
begin

text \<open>
  The authority checker (\<^verbatim>\<open>authority_checker.hpp\<close>): whether the provided keys, permissions and delay
  satisfy an authority, where an authority may refer to other permissions. The function that finds
  the authority of a permission is the member \<open>permission_to_authority\<close>, which throws
  \<open>permission_query_exception\<close> for a permission that does not exist. A delay is a number of
  microseconds.
\<close>

section \<open>Definitions\<close>

record 'k authority_checker =
  permission_to_authority :: "permission_level \<Rightarrow> 'k authority res"
  recursion_depth_limit :: u16
  provided_keys :: "'k list"
  provided_permissions :: "permission_level list"
  provided_delay :: int

datatype permission_cache_status = being_evaluated | permission_unsatisfied | permission_satisfied

type_synonym permission_cache = "(permission_level, permission_cache_status) table"

datatype 'k meta_permission =
    AccountFactor permission_level_weight
  | KeyFactor "'k key_weight"
  | WaitFactor wait_weight

fun mp_weight :: "'k meta_permission \<Rightarrow> u16" where
  "mp_weight (AccountFactor p) = plw_weight p"
| "mp_weight (KeyFactor k) = kw_weight k"
| "mp_weight (WaitFactor w) = ww_weight w"

fun mp_priority :: "'k meta_permission \<Rightarrow> int" where
  "mp_priority (AccountFactor p) = 1"
| "mp_priority (KeyFactor k) = 2"
| "mp_priority (WaitFactor w) = 3"

text \<open>
  The multimap of meta permissions, which is ordered by descending weight and priority and keeps the
  order of insertion among equal ones.
\<close>

definition meta_permissions :: "'k authority \<Rightarrow> 'k meta_permission list" where
  "meta_permissions auth =
     sort_key (\<lambda>mp. (- int (unat (mp_weight mp)), - mp_priority mp))
       (map AccountFactor (auth_accounts auth) @ map KeyFactor (auth_keys auth) @ map WaitFactor (auth_waits auth))"

definition permission_status_in_cache :: "permission_cache \<Rightarrow> permission_level \<Rightarrow> permission_cache_status option" where
  "permission_status_in_cache permissions level =
     (case tbl_find permissions level of
        Some s \<Rightarrow> Some s
      | None \<Rightarrow> tbl_find permissions (fst level, 0))"

definition initialize_permission_cache :: "'k authority_checker \<Rightarrow> permission_cache" where
  "initialize_permission_cache c =
     foldl (\<lambda>cached_permissions p. tbl_insert p permission_satisfied cached_permissions) [] (provided_permissions c)"

text \<open>
  What an evaluation changes: the total weight, the cache and the markers of the used keys. The
  evaluation of a nested authority is the argument \<open>sat\<close>, which is \<^const>\<open>None\<close> at the limit of the
  recursion depth.
\<close>

type_synonym 'k nested = "'k authority \<Rightarrow> permission_cache \<Rightarrow> bool list \<Rightarrow> (bool \<times> permission_cache \<times> bool list) res"

definition visit_wait :: "'k authority_checker \<Rightarrow> wait_weight \<Rightarrow> u32 \<Rightarrow> u32" where
  "visit_wait c w total_weight =
     (if int (unat (ww_wait_sec w)) * 1000000 \<le> provided_delay c
      then total_weight + ucast (ww_weight w) else total_weight)"

fun find_index :: "'a \<Rightarrow> 'a list \<Rightarrow> nat option" where
  "find_index x [] = None"
| "find_index x (y # ys) = (if y = x then Some 0 else map_option Suc (find_index x ys))"

definition visit_key :: "'k authority_checker \<Rightarrow> 'k key_weight \<Rightarrow> u32 \<Rightarrow> bool list \<Rightarrow> u32 \<times> bool list" where
  "visit_key c k total_weight used =
     (case find_index (kw_key k) (provided_keys c) of
        Some i \<Rightarrow> (total_weight + ucast (kw_weight k), used[i := True])
      | None \<Rightarrow> (total_weight, used))"

definition visit_account ::
  "'k authority_checker \<Rightarrow> 'k nested option \<Rightarrow> permission_level_weight \<Rightarrow> u32 \<Rightarrow> permission_cache \<Rightarrow> bool list \<Rightarrow>
   (u32 \<times> permission_cache \<times> bool list) res" where
  "visit_account c sat p total_weight cache used =
     (case permission_status_in_cache cache (plw_permission p) of
        None \<Rightarrow>
          (case sat of
             None \<Rightarrow> Inr (total_weight, cache, used)
           | Some satisfied \<Rightarrow>
               (case permission_to_authority c (plw_permission p) of
                  Inl e \<Rightarrow> if e = permission_query_exception then Inr (total_weight, cache, used) else Inl e
                | Inr auth \<Rightarrow>
                    res_bind (satisfied auth (tbl_insert (plw_permission p) being_evaluated cache) used) (\<lambda>(r, cache, used).
                    if r then Inr (total_weight + ucast (plw_weight p),
                                   tbl_insert (plw_permission p) permission_satisfied cache, used)
                    else Inr (total_weight, tbl_insert (plw_permission p) permission_unsatisfied cache, used))))
      | Some status \<Rightarrow>
          Inr (if status = permission_satisfied then total_weight + ucast (plw_weight p) else total_weight, cache, used))"

fun visit ::
  "'k authority_checker \<Rightarrow> 'k nested option \<Rightarrow> 'k meta_permission \<Rightarrow> u32 \<Rightarrow> permission_cache \<Rightarrow> bool list \<Rightarrow>
   (u32 \<times> permission_cache \<times> bool list) res" where
  "visit c sat (WaitFactor w) total_weight cache used = Inr (visit_wait c w total_weight, cache, used)"
| "visit c sat (KeyFactor k) total_weight cache used =
     (let (total_weight, used) = visit_key c k total_weight used in Inr (total_weight, cache, used))"
| "visit c sat (AccountFactor p) total_weight cache used = visit_account c sat p total_weight cache used"

fun check_permissions ::
  "'k authority_checker \<Rightarrow> 'k nested option \<Rightarrow> u32 \<Rightarrow> 'k meta_permission list \<Rightarrow> u32 \<Rightarrow> permission_cache \<Rightarrow> bool list \<Rightarrow>
   (bool \<times> permission_cache \<times> bool list) res" where
  "check_permissions c sat threshold [] total_weight cache used = Inr (False, cache, used)"
| "check_permissions c sat threshold (p # ps) total_weight cache used =
     res_bind (visit c sat p total_weight cache used) (\<lambda>(total_weight, cache, used).
     if threshold \<le> total_weight then Inr (True, cache, used)
     else check_permissions c sat threshold ps total_weight cache used)"

text \<open>
  \<open>satisfied\<close> of an authority; the first argument counts the levels of recursion that remain, that is
  the limit minus \<^verbatim>\<open>depth\<close>. The markers of the keys are restored when the authority is not satisfied.
\<close>

primrec satisfied_authority :: "'k authority_checker \<Rightarrow> nat \<Rightarrow> 'k nested" where
  "satisfied_authority c 0 =
     (\<lambda>auth cache used.
       res_bind (check_permissions c None (auth_threshold auth) (meta_permissions auth) 0 cache used) (\<lambda>(r, cache, used').
       Inr (r, cache, if r then used' else used)))"
| "satisfied_authority c (Suc n) =
     (\<lambda>auth cache used.
       res_bind (check_permissions c (Some (satisfied_authority c n)) (auth_threshold auth) (meta_permissions auth) 0 cache used) (\<lambda>(r, cache, used').
       Inr (r, cache, if r then used' else used)))"

definition nested_at :: "'k authority_checker \<Rightarrow> nat \<Rightarrow> 'k nested option" where
  "nested_at c n = (case n of 0 \<Rightarrow> None | Suc m \<Rightarrow> Some (satisfied_authority c m))"

text \<open>The public overloads; without a cache a fresh one is made from the provided permissions.\<close>

definition satisfied_level ::
  "'k authority_checker \<Rightarrow> permission_level \<Rightarrow> permission_cache option \<Rightarrow> bool list \<Rightarrow>
   (bool \<times> permission_cache \<times> bool list) res" where
  "satisfied_level c permission cached_perms used =
     (let cache = (case cached_perms of None \<Rightarrow> initialize_permission_cache c | Some cache \<Rightarrow> cache) in
      res_bind (visit_account c (nested_at c (unat (recursion_depth_limit c)))
                  \<lparr>plw_permission = permission, plw_weight = 1\<rparr> 0 cache used) (\<lambda>(total_weight, cache, used).
      Inr (0 < total_weight, cache, used)))"

definition satisfied_level_delay ::
  "'k authority_checker \<Rightarrow> permission_level \<Rightarrow> int \<Rightarrow> permission_cache option \<Rightarrow> bool list \<Rightarrow>
   (bool \<times> permission_cache \<times> bool list) res" where
  "satisfied_level_delay c permission override_provided_delay cached_perms used =
     satisfied_level (c\<lparr>provided_delay := override_provided_delay\<rparr>) permission cached_perms used"

definition satisfied ::
  "'k authority_checker \<Rightarrow> 'k authority \<Rightarrow> permission_cache option \<Rightarrow> bool list \<Rightarrow>
   (bool \<times> permission_cache \<times> bool list) res" where
  "satisfied c auth cached_perms used =
     (let cache = (case cached_perms of None \<Rightarrow> initialize_permission_cache c | Some cache \<Rightarrow> cache) in
      satisfied_authority c (unat (recursion_depth_limit c)) auth cache used)"

definition satisfied_delay ::
  "'k authority_checker \<Rightarrow> 'k authority \<Rightarrow> int \<Rightarrow> permission_cache option \<Rightarrow> bool list \<Rightarrow>
   (bool \<times> permission_cache \<times> bool list) res" where
  "satisfied_delay c auth override_provided_delay cached_perms used =
     satisfied (c\<lparr>provided_delay := override_provided_delay\<rparr>) auth cached_perms used"

definition make_auth_checker ::
  "(permission_level \<Rightarrow> 'k authority res) \<Rightarrow> u16 \<Rightarrow> 'k list \<Rightarrow> permission_level list \<Rightarrow> int \<Rightarrow>
   'k authority_checker \<times> bool list" where
  "make_auth_checker pta limit keys perms delay =
     (\<lparr>permission_to_authority = pta, recursion_depth_limit = limit, provided_keys = keys,
       provided_permissions = perms, provided_delay = delay\<rparr>, replicate (length keys) False)"

definition filter_data_by_marker :: "'a list \<Rightarrow> bool list \<Rightarrow> bool \<Rightarrow> 'a list" where
  "filter_data_by_marker data markers val = map fst (filter (\<lambda>(d, m). m = val) (zip data markers))"

definition all_keys_used :: "bool list \<Rightarrow> bool" where
  "all_keys_used used \<longleftrightarrow> list_all (\<lambda>m. m = True) used"

definition used_keys :: "'k authority_checker \<Rightarrow> bool list \<Rightarrow> 'k list" where
  "used_keys c used = filter_data_by_marker (provided_keys c) used True"

definition unused_keys :: "'k authority_checker \<Rightarrow> bool list \<Rightarrow> 'k list" where
  "unused_keys c used = filter_data_by_marker (provided_keys c) used False"

section \<open>What it means to satisfy an authority\<close>

text \<open>
  The declarative reading: a wait is granted by the delay, a key by being provided, a permission by
  being provided (itself, or as the empty permission of its account) or by its authority being
  satisfied, and an authority by granted factors whose weights reach the threshold.
\<close>

inductive factor_ok :: "'k authority_checker \<Rightarrow> 'k meta_permission \<Rightarrow> bool"
  and permission_ok :: "'k authority_checker \<Rightarrow> permission_level \<Rightarrow> bool"
  and authority_ok :: "'k authority_checker \<Rightarrow> 'k authority \<Rightarrow> bool"
  for c where
  ok_wait: "int (unat (ww_wait_sec w)) * 1000000 \<le> provided_delay c \<Longrightarrow> factor_ok c (WaitFactor w)"
| ok_key: "kw_key k \<in> set (provided_keys c) \<Longrightarrow> factor_ok c (KeyFactor k)"
| ok_account: "permission_ok c (plw_permission p) \<Longrightarrow> factor_ok c (AccountFactor p)"
| ok_provided: "p \<in> set (provided_permissions c) \<Longrightarrow> permission_ok c p"
| ok_any: "permission_ok c (a, 0) \<Longrightarrow> permission_ok c (a, p)"
| ok_authority: "permission_to_authority c p = Inr auth \<Longrightarrow> authority_ok c auth \<Longrightarrow> permission_ok c p"
| ok_threshold: "subseq S (meta_permissions auth) \<Longrightarrow> (\<forall>f \<in> set S. factor_ok c f) \<Longrightarrow>
    unat (auth_threshold auth) \<le> sum_list (map (\<lambda>f. unat (mp_weight f)) S) \<Longrightarrow> authority_ok c auth"

definition cache_ok :: "'k authority_checker \<Rightarrow> permission_cache \<Rightarrow> bool" where
  "cache_ok c cache \<longleftrightarrow> tbl_wf cache \<and>
     (\<forall>p. tbl_find cache p = Some permission_satisfied \<longrightarrow> permission_ok c p)"

lemma cache_ok_insert:
  "cache_ok c cache \<Longrightarrow> s = permission_satisfied \<longrightarrow> permission_ok c p \<Longrightarrow> cache_ok c (tbl_insert p s cache)"
  by (auto simp: cache_ok_def)

lemma cache_ok_initial: "cache_ok c (initialize_permission_cache c)"
proof -
  have "cache_ok c (foldl (\<lambda>cache p. tbl_insert p permission_satisfied cache) t ps)"
    if "cache_ok c t" "set ps \<subseteq> set (provided_permissions c)" for t ps
    using that by (induction ps arbitrary: t) (auto intro: cache_ok_insert ok_provided)
  moreover have "cache_ok c []" by (simp add: cache_ok_def)
  ultimately show ?thesis unfolding initialize_permission_cache_def by blast
qed

lemma status_in_cache_ok:
  assumes "cache_ok c cache" "permission_status_in_cache cache p = Some permission_satisfied"
  shows "permission_ok c p"
proof (cases "tbl_find cache p")
  case None
  then have "permission_ok c (fst p, 0)"
    using assms by (simp add: permission_status_in_cache_def cache_ok_def)
  then show ?thesis using ok_any[of c "fst p" "snd p"] by simp
next
  case (Some s)
  then have "tbl_find cache p = Some permission_satisfied"
    using assms(2) by (simp add: permission_status_in_cache_def)
  then show ?thesis using assms(1) unfolding cache_ok_def by blast
qed

text \<open>The markers only grow, and only while their number stays.\<close>

definition marks_le :: "bool list \<Rightarrow> bool list \<Rightarrow> bool" where
  "marks_le used used' \<longleftrightarrow> list_all2 (\<lambda>a b. a \<longrightarrow> b) used used'"

lemma marks_le_refl [simp]: "marks_le used used"
  by (simp add: marks_le_def list_all2_same)

lemma marks_le_trans: "marks_le a b \<Longrightarrow> marks_le b d \<Longrightarrow> marks_le a d"
  unfolding marks_le_def using list_all2_trans[of "(\<longrightarrow>)" "(\<longrightarrow>)" "(\<longrightarrow>)" a b d] by simp

lemma marks_le_update: "marks_le used (used[i := True])"
  by (cases "i < length used") (auto simp: marks_le_def list_all2_conv_all_nth nth_list_update)

text \<open>What a nested evaluation must guarantee for the evaluation around it to be sound.\<close>

definition nested_sound :: "'k authority_checker \<Rightarrow> 'k nested option \<Rightarrow> bool" where
  "nested_sound c sat \<longleftrightarrow>
     (\<forall>f auth cache used r cache' used'. sat = Some f \<longrightarrow> cache_ok c cache \<longrightarrow>
        f auth cache used = Inr (r, cache', used') \<longrightarrow>
        cache_ok c cache' \<and> (r \<longrightarrow> authority_ok c auth) \<and> marks_le used used' \<and> (\<not> r \<longrightarrow> used' = used))"

lemma find_index_Some: "find_index x ys = Some i \<Longrightarrow> x \<in> set ys"
  by (induction ys arbitrary: i) (auto split: if_splits)

lemma visit_sound:
  assumes "nested_sound c sat" "cache_ok c cache" "visit c sat f tot cache used = Inr (tot', cache', used')"
  shows "cache_ok c cache' \<and> marks_le used used' \<and>
    (tot' = tot \<or> factor_ok c f \<and> tot' = tot + ucast (mp_weight f))"
proof (cases f)
  case (WaitFactor w)
  then show ?thesis using assms(2,3) by (auto simp: visit_wait_def intro: ok_wait split: if_splits)
next
  case (KeyFactor k)
  then show ?thesis using assms(2,3)
    by (auto simp: visit_key_def marks_le_update intro: ok_key dest: find_index_Some split: option.splits)
next
  case (AccountFactor p)
  show ?thesis
  proof (cases "permission_status_in_cache cache (plw_permission p)")
    case (Some s)
    then show ?thesis
      using AccountFactor assms(2,3) status_in_cache_ok[of c cache "plw_permission p"]
      by (auto simp: visit_account_def intro: ok_account split: if_splits)
  next
    case None
    show ?thesis
    proof (cases "tot' = tot \<and> cache' = cache \<and> used' = used")
      case False
      then obtain g auth r cache1 where g: "sat = Some g" "permission_to_authority c (plw_permission p) = Inr auth"
        "g auth (tbl_insert (plw_permission p) being_evaluated cache) used = Inr (r, cache1, used')"
        "tot' = (if r then tot + ucast (plw_weight p) else tot)"
        "cache' = tbl_insert (plw_permission p) (if r then permission_satisfied else permission_unsatisfied) cache1"
        using assms(3) None AccountFactor
        by (auto simp: visit_account_def split: option.splits sum.splits if_splits)
      have "cache_ok c (tbl_insert (plw_permission p) being_evaluated cache)"
        using assms(2) by (rule cache_ok_insert) simp
      with assms(1) g(1,3) have n: "cache_ok c cache1" "r \<longrightarrow> authority_ok c auth" "marks_le used used'"
        unfolding nested_sound_def by blast+
      have "permission_ok c (plw_permission p)" if r using n(2) that g(2) by (blast intro: ok_authority)
      then show ?thesis using n(1,3) g(4,5) AccountFactor
        by (auto intro!: cache_ok_insert intro: ok_account split: if_splits)
    qed (use assms(2) in simp)
  qed
qed

lemma check_permissions_sound:
  assumes "nested_sound c sat"
  shows "cache_ok c cache \<Longrightarrow> \<forall>f \<in> set S0. factor_ok c f \<Longrightarrow> unat tot \<le> sum_list (map (\<lambda>f. unat (mp_weight f)) S0) \<Longrightarrow>
    check_permissions c sat th ps tot cache used = Inr (r, cache', used') \<Longrightarrow>
    cache_ok c cache' \<and> marks_le used used' \<and>
    (r \<longrightarrow> (\<exists>S. subseq S ps \<and> (\<forall>f \<in> set S. factor_ok c f) \<and>
       unat th \<le> sum_list (map (\<lambda>f. unat (mp_weight f)) (S0 @ S))))"
proof (induction ps arbitrary: S0 tot cache used)
  case (Cons p ps)
  obtain tot1 cache1 used1 where v: "visit c sat p tot cache used = Inr (tot1, cache1, used1)"
    and rest: "(if th \<le> tot1 then Inr (True, cache1, used1)
      else check_permissions c sat th ps tot1 cache1 used1) = Inr (r, cache', used')"
    using Cons.prems(4) by auto
  note vs = visit_sound[OF assms Cons.prems(1) v]
  obtain T where T: "subseq T [p]" "\<forall>f \<in> set T. factor_ok c f"
    "unat tot1 \<le> sum_list (map (\<lambda>f. unat (mp_weight f)) (S0 @ T))"
  proof (cases "tot1 = tot")
    case True
    then show ?thesis using Cons.prems(3) that[of "[]"] by simp
  next
    case False
    then have f: "factor_ok c p" "tot1 = tot + ucast (mp_weight p)" using vs by auto
    have "unat tot1 \<le> unat tot + unat (mp_weight p)"
      unfolding f(2) by (simp add: unat_word_ariths)
    then show ?thesis using f(1) Cons.prems(3) that[of "[p]"] by simp
  qed
  show ?case
  proof (cases "th \<le> tot1")
    case True
    then have "unat th \<le> sum_list (map (\<lambda>f. unat (mp_weight f)) (S0 @ T))"
      using T(3) by (simp add: word_le_nat_alt)
    moreover have "subseq T ([p] @ ps)" by (rule subseq_order.order_trans[OF T(1)]) simp
    moreover have "r" "cache' = cache1" "used' = used1" using True rest by simp_all
    ultimately show ?thesis using vs T(2) unfolding append_Cons append_Nil by blast
  next
    case False
    then have rec: "check_permissions c sat th ps tot1 cache1 used1 = Inr (r, cache', used')" using rest by simp
    have "\<forall>f \<in> set (S0 @ T). factor_ok c f" using Cons.prems(2) T(2) by auto
    from Cons.IH[OF conjunct1[OF vs] this T(3) rec] have
      ih: "cache_ok c cache' \<and> marks_le used1 used' \<and> (r \<longrightarrow> (\<exists>S. subseq S ps \<and> (\<forall>f \<in> set S. factor_ok c f) \<and>
       unat th \<le> sum_list (map (\<lambda>f. unat (mp_weight f)) ((S0 @ T) @ S))))" .
    have "\<exists>S. subseq S (p # ps) \<and> (\<forall>f \<in> set S. factor_ok c f) \<and>
       unat th \<le> sum_list (map (\<lambda>f. unat (mp_weight f)) (S0 @ S))" if r1: r
    proof -
      obtain S where S: "subseq S ps" "\<forall>f \<in> set S. factor_ok c f"
        "unat th \<le> sum_list (map (\<lambda>f. unat (mp_weight f)) ((S0 @ T) @ S))"
        using mp[OF conjunct2[OF conjunct2[OF ih]] r1] by (elim exE conjE)
      have "subseq (T @ S) ([p] @ ps)" using T(1) S(1) by (rule list_emb_append_mono)
      moreover have "\<forall>f \<in> set (T @ S). factor_ok c f" using S(2) T(2) by auto
      ultimately show ?thesis using S(3) unfolding append_assoc append_Cons append_Nil by blast
    qed
    moreover have "marks_le used used'" using ih vs marks_le_trans by blast
    ultimately show ?thesis using ih by (intro conjI impI) simp_all
  qed
qed simp

lemma satisfied_body_sound:
  assumes "nested_sound c sat" "cache_ok c cache"
    and "res_bind (check_permissions c sat (auth_threshold auth) (meta_permissions auth) 0 cache used)
      (\<lambda>(r, cache, used'). Inr (r, cache, if r then used' else used)) = Inr (r, cache', used')"
  shows "cache_ok c cache' \<and> (r \<longrightarrow> authority_ok c auth) \<and> marks_le used used' \<and> (\<not> r \<longrightarrow> used' = used)"
proof -
  obtain used1 where cp: "check_permissions c sat (auth_threshold auth) (meta_permissions auth) 0 cache used = Inr (r, cache', used1)"
    and u: "used' = (if r then used1 else used)"
    using assms(3) by auto
  have "cache_ok c cache' \<and> marks_le used used1 \<and>
    (r \<longrightarrow> (\<exists>S. subseq S (meta_permissions auth) \<and> (\<forall>f \<in> set S. factor_ok c f) \<and>
       unat (auth_threshold auth) \<le> sum_list (map (\<lambda>f. unat (mp_weight f)) ([] @ S))))"
    by (rule check_permissions_sound[OF assms(1,2) _ _ cp]) simp_all
  moreover from this have "r \<longrightarrow> authority_ok c auth"
    unfolding append_Nil using ok_threshold[of _ auth c] by (elim conjE) (rule impI, drule (1) mp, elim exE conjE)
  ultimately show ?thesis using u by simp
qed

lemma satisfied_authority_sound: "nested_sound c (Some (satisfied_authority c n))"
proof (induction n)
  case 0
  have "nested_sound c None" by (simp add: nested_sound_def)
  then show ?case
    by (subst nested_sound_def, unfold satisfied_authority.simps option.inject)
       (intro allI impI, hypsubst, rule satisfied_body_sound)
next
  case (Suc n)
  then show ?case
    by (subst nested_sound_def, unfold satisfied_authority.simps option.inject)
       (intro allI impI, hypsubst, rule satisfied_body_sound)
qed

lemma nested_at_sound: "nested_sound c (nested_at c n)"
  by (cases n) (simp_all add: nested_at_def satisfied_authority_sound nested_sound_def[of c None])

section \<open>Authorities without permission factors\<close>

fun factor_granted :: "'k authority_checker \<Rightarrow> 'k meta_permission \<Rightarrow> bool" where
  "factor_granted c (WaitFactor w) \<longleftrightarrow> int (unat (ww_wait_sec w)) * 1000000 \<le> provided_delay c"
| "factor_granted c (KeyFactor k) \<longleftrightarrow> kw_key k \<in> set (provided_keys c)"
| "factor_granted c (AccountFactor p) \<longleftrightarrow> False"

definition granted_weight :: "'k authority_checker \<Rightarrow> 'k meta_permission list \<Rightarrow> nat" where
  "granted_weight c ps = sum_list (map (\<lambda>f. if factor_granted c f then unat (mp_weight f) else 0) ps)"

lemma find_index_None: "find_index x ys = None \<longleftrightarrow> x \<notin> set ys"
  by (induction ys) auto

lemma visit_flat:
  assumes "\<And>p. f \<noteq> AccountFactor p"
  shows "\<exists>used'. visit c sat f tot cache used =
    Inr (if factor_granted c f then tot + ucast (mp_weight f) else tot, cache, used')"
  using assms
  by (cases f) (auto simp: visit_wait_def visit_key_def find_index_None dest: find_index_Some split: option.split)

lemma check_permissions_flat:
  "\<forall>f \<in> set ps. \<forall>p. f \<noteq> AccountFactor p \<Longrightarrow> tot < th \<Longrightarrow>
   unat tot + sum_list (map (\<lambda>f. unat (mp_weight f)) ps) < 2 ^ 32 \<Longrightarrow>
   \<exists>used'. check_permissions c sat th ps tot cache used =
     Inr (unat th \<le> unat tot + granted_weight c ps, cache, used')"
proof (induction ps arbitrary: tot used)
  case Nil
  then show ?case by (simp add: granted_weight_def word_less_nat_alt)
next
  case (Cons f ps)
  define tot1 where "tot1 = (if factor_granted c f then tot + ucast (mp_weight f) else tot)"
  obtain used1 where v: "visit c sat f tot cache used = Inr (tot1, cache, used1)"
    using visit_flat[of f c sat tot cache used] Cons.prems(1) unfolding tot1_def by auto
  have t: "unat tot1 = unat tot + (if factor_granted c f then unat (mp_weight f) else 0)"
    using Cons.prems(3) by (simp add: tot1_def unat_add_no_overflow)
  have g: "unat tot + granted_weight c (f # ps) = unat tot1 + granted_weight c ps"
    using t by (simp add: granted_weight_def)
  show ?case
  proof (cases "th \<le> tot1")
    case True
    then have "unat th \<le> unat tot + granted_weight c (f # ps)" unfolding g by (simp add: word_le_nat_alt)
    then show ?thesis using v True by simp
  next
    case False
    have "unat tot1 + sum_list (map (\<lambda>f. unat (mp_weight f)) ps) < 2 ^ 32"
      using Cons.prems(3) t by (auto split: if_splits)
    from Cons.IH[OF _ _ this, of used1] Cons.prems(1) False show ?thesis using v g by auto
  qed
qed

lemma mset_meta_permissions:
  "mset (meta_permissions auth) = mset (map AccountFactor (auth_accounts auth)) +
     mset (map KeyFactor (auth_keys auth)) + mset (map WaitFactor (auth_waits auth))"
  by (simp add: meta_permissions_def)

lemma sum_meta_permissions:
  "sum_list (map g (meta_permissions auth)) = sum_list (map (\<lambda>p. g (AccountFactor p)) (auth_accounts auth)) +
     sum_list (map (\<lambda>k. g (KeyFactor k)) (auth_keys auth)) + sum_list (map (\<lambda>w. g (WaitFactor w)) (auth_waits auth))"
  for g :: "'k meta_permission \<Rightarrow> nat"
proof -
  have "sum_list (map g (meta_permissions auth)) = sum_mset (image_mset g (mset (meta_permissions auth)))"
    by (simp flip: sum_mset_sum_list)
  then show ?thesis unfolding mset_meta_permissions
    by (simp add: sum_mset_sum_list image_mset.compositionality comp_def flip: mset_map)
qed

section \<open>Exceptions\<close>

definition nested_throws :: "'k authority_checker \<Rightarrow> 'k nested option \<Rightarrow> bool" where
  "nested_throws c sat \<longleftrightarrow>
     (\<forall>f auth cache used e. sat = Some f \<longrightarrow> f auth cache used = Inl e \<longrightarrow>
        e \<noteq> permission_query_exception \<and> (\<exists>p. permission_to_authority c p = Inl e))"

lemma visit_throws:
  assumes "nested_throws c sat" "visit c sat f tot cache used = Inl e"
  shows "e \<noteq> permission_query_exception \<and> (\<exists>p. permission_to_authority c p = Inl e)"
proof (cases f)
  case (AccountFactor p)
  with assms(2) have va: "visit_account c sat p tot cache used = Inl e" by simp
  show ?thesis
  proof (cases "permission_to_authority c (plw_permission p) = Inl e \<and> e \<noteq> permission_query_exception")
    case False
    then obtain g auth where "sat = Some g"
      "g auth (tbl_insert (plw_permission p) being_evaluated cache) used = Inl e"
      using va by (auto simp: visit_account_def res_bind_Inl split: option.splits sum.splits if_splits)
    then show ?thesis using assms(1) unfolding nested_throws_def by blast
  qed blast
next
  case (KeyFactor k)
  then show ?thesis using assms(2) by (simp split: prod.splits)
qed (use assms(2) in simp)

lemma check_permissions_throws:
  "nested_throws c sat \<Longrightarrow> check_permissions c sat th ps tot cache used = Inl e \<Longrightarrow>
   e \<noteq> permission_query_exception \<and> (\<exists>p. permission_to_authority c p = Inl e)"
proof (induction ps arbitrary: tot cache used)
  case (Cons p ps)
  show ?case
  proof (cases "visit c sat p tot cache used = Inl e")
    case True
    then show ?thesis using visit_throws Cons.prems(1) by blast
  next
    case False
    then obtain tot1 cache1 used1 where "check_permissions c sat th ps tot1 cache1 used1 = Inl e"
      using Cons.prems(2) by (auto simp: res_bind_Inl split: if_splits)
    then show ?thesis using Cons.IH Cons.prems(1) by blast
  qed
qed simp

lemma satisfied_authority_throws: "nested_throws c (Some (satisfied_authority c n))"
proof (induction n)
  case 0
  have "nested_throws c None" by (simp add: nested_throws_def)
  then show ?case using check_permissions_throws[of c None]
    by (subst nested_throws_def) (auto simp: res_bind_Inl)
next
  case (Suc n)
  then show ?case using check_permissions_throws[of c "Some (satisfied_authority c n)"]
    by (subst nested_throws_def) (auto simp: res_bind_Inl)
qed

section \<open>Properties\<close>

definition example_checker :: "nat authority_checker" where
  "example_checker =
     \<lparr>permission_to_authority = (\<lambda>p. if p = (1, 2) then Inr (authority_of_key 7 0) else Inl permission_query_exception),
      recursion_depth_limit = 6, provided_keys = [5, 7], provided_permissions = [], provided_delay = 0\<rparr>"

lemma satisfied_level_ok:
  assumes "satisfied_level c p None used = Inr (True, cache', used')"
  shows "permission_ok c p"
proof -
  obtain tot where va: "visit c (nested_at c (unat (recursion_depth_limit c)))
      (AccountFactor \<lparr>plw_permission = p, plw_weight = 1\<rparr>) 0 (initialize_permission_cache c) used =
      Inr (tot, cache', used')" and "0 < tot"
    using assms by (auto simp: satisfied_level_def)
  then have "factor_ok c (AccountFactor \<lparr>plw_permission = p, plw_weight = 1\<rparr>)"
    using visit_sound[OF nested_at_sound cache_ok_initial va] by auto
  then show ?thesis by (cases rule: factor_ok.cases) simp_all
qed

text \<open>
  C13. The checker is sound: when it reports that a permission is satisfied, the permission is granted by
  the provided keys, permissions and delay in the declarative sense, through finitely many nested
  authorities whose thresholds are reached by granted factors.
\<close>

theorem satisfied_level_sound:
  assumes "satisfied_level c p None used = Inr (True, cache', used')"
  shows "permission_ok c p"
  by (rule satisfied_level_ok[OF assms])

theorem satisfied_level_sound_witness:
  "\<exists>cache' used'. satisfied_level example_checker (1, 2) None [False, False] = Inr (True, cache', used') \<and>
     permission_ok example_checker (1, 2)"
proof -
  have "satisfied_level example_checker (1, 2) None [False, False] =
      Inr (True, [((1, 2), permission_satisfied)], [False, True])" by code_simp
  from satisfied_level_sound[OF this] this show ?thesis by blast
qed

text \<open>
  An authority that is not satisfied uses no key: the markers are as before. One that is satisfied
  is granted in the declarative sense, and keeps the markers set before.
\<close>

theorem satisfied_marks_keys:
  assumes "satisfied c auth None used = Inr (r, cache', used')"
  shows "if r then authority_ok c auth \<and> list_all2 (\<longrightarrow>) used used' else used' = used"
  using satisfied_authority_sound[of c "unat (recursion_depth_limit c)"] cache_ok_initial[of c] assms
  unfolding nested_sound_def satisfied_def marks_le_def by (simp add: Let_def)

theorem satisfied_marks_keys_witness:
  "\<exists>cache' used'. satisfied example_checker (authority_of_key 9 0) None [True, False] = Inr (False, cache', used') \<and>
     used' = [True, False]"
proof -
  have "satisfied example_checker (authority_of_key 9 0) None [True, False] = Inr (False, [], [True, False])"
    by code_simp
  from satisfied_marks_keys[OF this] this show ?thesis by simp
qed

text \<open>
  C14. For a valid authority that names no other permission, the checker decides exactly whether the
  weights of its provided keys and elapsed waits add up to the threshold.
\<close>

theorem satisfied_flat_exact:
  assumes "authority_validate auth" and "auth_accounts auth = []"
  shows "\<exists>cache' used'. satisfied c auth cached_perms used =
    Inr (unat (auth_threshold auth) \<le>
           sum_list (map (\<lambda>k. unat (kw_weight k)) (filter (\<lambda>k. kw_key k \<in> set (provided_keys c)) (auth_keys auth))) +
           sum_list (map (\<lambda>w. unat (ww_weight w))
             (filter (\<lambda>w. int (unat (ww_wait_sec w)) * 1000000 \<le> provided_delay c) (auth_waits auth))),
         cache', used')"
proof -
  have no: "\<forall>f \<in> set (meta_permissions auth). \<forall>p. f \<noteq> AccountFactor p"
    using assms(2) by (auto simp: meta_permissions_def)
  have th: "0 < auth_threshold auth" using authority_validate_size[OF assms(1)] by simp
  have "authority_weight auth < 2 ^ 32"
    using authority_validate_size[OF assms(1)] sum_weights_bound[of kw_weight "auth_keys auth"] sum_weights_bound[of plw_weight "auth_accounts auth"]
      sum_weights_bound[of ww_weight "auth_waits auth"]
    by (simp add: authority_weight_def)
  then have w: "unat (0 :: u32) + sum_list (map (\<lambda>f. unat (mp_weight f)) (meta_permissions auth)) < 2 ^ 32"
    unfolding sum_meta_permissions by (simp add: authority_weight_def)
  have g: "granted_weight c (meta_permissions auth) =
      sum_list (map (\<lambda>k. unat (kw_weight k)) (filter (\<lambda>k. kw_key k \<in> set (provided_keys c)) (auth_keys auth))) +
      sum_list (map (\<lambda>w. unat (ww_weight w))
        (filter (\<lambda>w. int (unat (ww_wait_sec w)) * 1000000 \<le> provided_delay c) (auth_waits auth)))"
    unfolding granted_weight_def sum_meta_permissions using assms(2) by (simp add: sum_list_map_filter' cong: if_cong)
  obtain n where "satisfied_authority c (unat (recursion_depth_limit c)) = (\<lambda>auth cache used.
       res_bind (check_permissions c (nested_at c n) (auth_threshold auth) (meta_permissions auth) 0 cache used) (\<lambda>(r, cache, used').
       Inr (r, cache, if r then used' else used)))"
    using that[of "unat (recursion_depth_limit c)"]
    by (cases "unat (recursion_depth_limit c)") (simp_all add: nested_at_def)
  then show ?thesis
    using check_permissions_flat[OF no th w, of c "nested_at c n" _ used] unfolding g satisfied_def Let_def by force
qed

theorem satisfied_flat_exact_witness:
  "\<exists>cache' used'. satisfied example_checker (authority_of_key 7 0) None [False, False] = Inr (True, cache', used')"
proof -
  have v: "authority_validate (authority_of_key (7 :: nat) 0)"
    by (simp add: authority_validate_def authority_of_key_def)
  have "auth_accounts (authority_of_key (7 :: nat) 0) = []"
    "auth_keys (authority_of_key (7 :: nat) 0) = [\<lparr>kw_key = 7, kw_weight = 1\<rparr>]"
    "auth_waits (authority_of_key (7 :: nat) 0) = []" "auth_threshold (authority_of_key (7 :: nat) 0) = 1"
    "7 \<in> set (provided_keys example_checker)"
    by code_simp+
  then show ?thesis using v satisfied_flat_exact[of "authority_of_key 7 0" example_checker None "[False, False]"] by simp
qed

text \<open>
  C15. The checker itself throws nothing: an exception that leaves it is one that the lookup of some
  permission threw, and it is never the query exception of a permission that does not exist.
\<close>

theorem satisfied_throws_only_lookup_errors:
  assumes "satisfied c auth cached_perms used = Inl e"
  shows "e \<noteq> permission_query_exception \<and> (\<exists>p. permission_to_authority c p = Inl e)"
  using satisfied_authority_throws[of c "unat (recursion_depth_limit c)"] assms
  unfolding nested_throws_def satisfied_def Let_def by blast

theorem satisfied_throws_only_lookup_errors_witness:
  "satisfied (example_checker\<lparr>permission_to_authority := (\<lambda>p. Inl database_exception)\<rparr>)
     (authority_of_permission (3, 4) 0) None [False, False] = Inl database_exception \<and>
   database_exception \<noteq> permission_query_exception \<and>
   (\<exists>p. permission_to_authority (example_checker\<lparr>permission_to_authority := (\<lambda>p. Inl database_exception)\<rparr>) p =
      Inl database_exception)"
proof -
  have t: "satisfied (example_checker\<lparr>permission_to_authority := (\<lambda>p. Inl database_exception)\<rparr>)
      (authority_of_permission (3, 4) 0) None [False, False] = Inl database_exception"
    by code_simp
  from satisfied_throws_only_lookup_errors[OF this] t show ?thesis by blast
qed

end
