(* ===== verification/Protocol_Features.thy ===== *)
theory Protocol_Features
  imports Merkle Tables
begin

text \<open>
  Protocol features (\<^verbatim>\<open>protocol_feature_manager.hpp\<close>, \<^verbatim>\<open>protocol_feature_manager.cpp\<close>): the table of
  builtin features, the set of features a node recognises, and the manager that records which of
  them are activated and from which block on. The set is keyed by feature digest; an iterator to one
  of its elements is that digest, and the end iterator is \<^const>\<open>None\<close>. The digest of a feature
  and the conversion of a hexadecimal string are functions of \<^verbatim>\<open>fc\<close> and are parameters. Times are
  microseconds since the epoch. A \<^verbatim>\<open>flat_set\<close> of builtin features is the list of its elements in
  ascending order; the order of digests, which \<^verbatim>\<open>fc\<close> defines, never matters, so a set of digests is a set.
\<close>

section \<open>Builtin features\<close>

datatype protocol_feature_t = builtin

datatype builtin_protocol_feature_t =
    preactivate_feature
  | only_link_to_existing_permission
  | replace_deferred
  | no_duplicate_deferred_id
  | fix_linkauth_restriction
  | disallow_empty_producer_schedule
  | restrict_action_to_self
  | only_bill_first_authorizer
  | forward_setcode
  | get_sender
  | ram_restrictions
  | webauthn_key
  | wtmsig_block_signatures
  | action_return_value
  | blockchain_parameters
  | get_code_hash
  | configurable_wasm_limits
  | crypto_primitives
  | get_block_num
  | reserved_private_fork_protocol_features

text \<open>The value of the enumerator, which is also its index into the vectors below.\<close>

fun feature_index :: "builtin_protocol_feature_t \<Rightarrow> nat" where
  "feature_index preactivate_feature = 0"
| "feature_index only_link_to_existing_permission = 1"
| "feature_index replace_deferred = 2"
| "feature_index no_duplicate_deferred_id = 3"
| "feature_index fix_linkauth_restriction = 4"
| "feature_index disallow_empty_producer_schedule = 5"
| "feature_index restrict_action_to_self = 6"
| "feature_index only_bill_first_authorizer = 7"
| "feature_index forward_setcode = 8"
| "feature_index get_sender = 9"
| "feature_index ram_restrictions = 10"
| "feature_index webauthn_key = 11"
| "feature_index wtmsig_block_signatures = 12"
| "feature_index action_return_value = 13"
| "feature_index blockchain_parameters = 16"
| "feature_index get_code_hash = 17"
| "feature_index configurable_wasm_limits = 18"
| "feature_index crypto_primitives = 19"
| "feature_index get_block_num = 20"
| "feature_index reserved_private_fork_protocol_features = 500000"

record protocol_feature_subjective_restrictions =
  sr_earliest_allowed_activation_time :: int
  sr_preactivation_required :: bool
  sr_enabled :: bool

record builtin_protocol_feature_spec =
  spec_codename :: string
  spec_description_digest :: digest
  spec_builtin_dependencies :: "builtin_protocol_feature_t list"
  spec_subjective_restrictions :: protocol_feature_subjective_restrictions

text \<open>An entry of the table with the default restrictions of \<^verbatim>\<open>builtin_protocol_feature_spec\<close>.\<close>

definition spec_with_defaults ::
  "string \<Rightarrow> digest \<Rightarrow> builtin_protocol_feature_t list \<Rightarrow> builtin_protocol_feature_spec" where
  "spec_with_defaults nm d deps = \<lparr>spec_codename = nm, spec_description_digest = d,
     spec_builtin_dependencies = deps,
     spec_subjective_restrictions = \<lparr>sr_earliest_allowed_activation_time = 0,
       sr_preactivation_required = True, sr_enabled = True\<rparr>\<rparr>"

fun builtin_protocol_feature_codenames ::
  "(string \<Rightarrow> digest) \<Rightarrow> builtin_protocol_feature_t \<Rightarrow> builtin_protocol_feature_spec option" where
  "builtin_protocol_feature_codenames as_digest preactivate_feature = Some ((spec_with_defaults ''PREACTIVATE_FEATURE''
     (as_digest ''64fe7df32e9b86be2b296b3f81dfd527f84e82b98e363bc97e40bc7a83733310'') [])
     \<lparr>spec_subjective_restrictions := \<lparr>sr_earliest_allowed_activation_time = 0,
       sr_preactivation_required = False, sr_enabled = True\<rparr>\<rparr>)"
| "builtin_protocol_feature_codenames as_digest only_link_to_existing_permission = Some (spec_with_defaults ''ONLY_LINK_TO_EXISTING_PERMISSION''
     (as_digest ''f3c3d91c4603cde2397268bfed4e662465293aab10cd9416db0d442b8cec2949'') [])"
| "builtin_protocol_feature_codenames as_digest replace_deferred = Some (spec_with_defaults ''REPLACE_DEFERRED''
     (as_digest ''9908b3f8413c8474ab2a6be149d3f4f6d0421d37886033f27d4759c47a26d944'') [])"
| "builtin_protocol_feature_codenames as_digest no_duplicate_deferred_id = Some (spec_with_defaults ''NO_DUPLICATE_DEFERRED_ID''
     (as_digest ''45967387ee92da70171efd9fefd1ca8061b5efe6f124d269cd2468b47f1575a0'') [replace_deferred])"
| "builtin_protocol_feature_codenames as_digest fix_linkauth_restriction = Some (spec_with_defaults ''FIX_LINKAUTH_RESTRICTION''
     (as_digest ''a98241c83511dc86c857221b9372b4aa7cea3aaebc567a48604e1d3db3557050'') [])"
| "builtin_protocol_feature_codenames as_digest disallow_empty_producer_schedule = Some (spec_with_defaults ''DISALLOW_EMPTY_PRODUCER_SCHEDULE''
     (as_digest ''2853617cec3eabd41881eb48882e6fc5e81a0db917d375057864b3befbe29acd'') [])"
| "builtin_protocol_feature_codenames as_digest restrict_action_to_self = Some (spec_with_defaults ''RESTRICT_ACTION_TO_SELF''
     (as_digest ''e71b6712188391994c78d8c722c1d42c477cf091e5601b5cf1befd05721a57f3'') [])"
| "builtin_protocol_feature_codenames as_digest only_bill_first_authorizer = Some (spec_with_defaults ''ONLY_BILL_FIRST_AUTHORIZER''
     (as_digest ''2f1f13e291c79da5a2bbad259ed7c1f2d34f697ea460b14b565ac33b063b73e2'') [])"
| "builtin_protocol_feature_codenames as_digest forward_setcode = Some (spec_with_defaults ''FORWARD_SETCODE''
     (as_digest ''898082c59f921d0042e581f00a59d5ceb8be6f1d9c7a45b6f07c0e26eaee0222'') [])"
| "builtin_protocol_feature_codenames as_digest get_sender = Some (spec_with_defaults ''GET_SENDER''
     (as_digest ''1eab748b95a2e6f4d7cb42065bdee5566af8efddf01a55a0a8d831b823f8828a'') [])"
| "builtin_protocol_feature_codenames as_digest ram_restrictions = Some (spec_with_defaults ''RAM_RESTRICTIONS''
     (as_digest ''1812fdb5096fd854a4958eb9d53b43219d114de0e858ce00255bd46569ad2c68'') [])"
| "builtin_protocol_feature_codenames as_digest webauthn_key = Some (spec_with_defaults ''WEBAUTHN_KEY''
     (as_digest ''927fdf78c51e77a899f2db938249fb1f8bb38f4e43d9c1f75b190492080cbc34'') [])"
| "builtin_protocol_feature_codenames as_digest wtmsig_block_signatures = Some (spec_with_defaults ''WTMSIG_BLOCK_SIGNATURES''
     (as_digest ''ab76031cad7a457f4fd5f5fca97a3f03b8a635278e0416f77dcc91eb99a48e10'') [])"
| "builtin_protocol_feature_codenames as_digest action_return_value = Some (spec_with_defaults ''ACTION_RETURN_VALUE''
     (as_digest ''69b064c5178e2738e144ed6caa9349a3995370d78db29e494b3126ebd9111966'') [])"
| "builtin_protocol_feature_codenames as_digest configurable_wasm_limits = Some (spec_with_defaults ''CONFIGURABLE_WASM_LIMITS2''
     (as_digest ''8139e99247b87f18ef7eae99f07f00ea3adf39ed53f4d2da3f44e6aa0bfd7c62'') [])"
| "builtin_protocol_feature_codenames as_digest blockchain_parameters = Some (spec_with_defaults ''BLOCKCHAIN_PARAMETERS''
     (as_digest ''70787548dcea1a2c52c913a37f74ce99e6caae79110d7ca7b859936a0075b314'') [])"
| "builtin_protocol_feature_codenames as_digest get_code_hash = Some (spec_with_defaults ''GET_CODE_HASH''
     (as_digest ''d2596697fed14a0840013647b99045022ae6a885089f35a7e78da7a43ad76ed4'') [])"
| "builtin_protocol_feature_codenames as_digest crypto_primitives = Some (spec_with_defaults ''CRYPTO_PRIMITIVES''
     (as_digest ''68d6405cb8df3de95bd834ebb408196578500a9f818ff62ccc68f60b932f7d82'') [])"
| "builtin_protocol_feature_codenames as_digest get_block_num = Some (spec_with_defaults ''GET_BLOCK_NUM''
     (as_digest ''e5d7992006e628a38c5e6c28dd55ff5e57ea682079bf41fef9b3cced0f46b491'') [])"
| "builtin_protocol_feature_codenames as_digest reserved_private_fork_protocol_features = None"

text \<open>The keys of the table.\<close>

definition builtin_features :: "builtin_protocol_feature_t list" where
  "builtin_features = [preactivate_feature, only_link_to_existing_permission, replace_deferred,
     no_duplicate_deferred_id, fix_linkauth_restriction, disallow_empty_producer_schedule,
     restrict_action_to_self, only_bill_first_authorizer, forward_setcode, get_sender,
     ram_restrictions, webauthn_key, wtmsig_block_signatures, action_return_value,
     configurable_wasm_limits, blockchain_parameters, get_code_hash, crypto_primitives, get_block_num]"

definition builtin_protocol_feature_codename ::
  "(string \<Rightarrow> digest) \<Rightarrow> builtin_protocol_feature_t \<Rightarrow> string res" where
  "builtin_protocol_feature_codename as_digest c =
     (case builtin_protocol_feature_codenames as_digest c of
        None \<Rightarrow> Inl protocol_feature_validation_exception
      | Some sp \<Rightarrow> Inr (spec_codename sp))"

record builtin_protocol_feature =
  bf_protocol_feature_type :: string
  bf_description_digest :: digest
  bf_dependencies :: "digest set"
  bf_subjective_restrictions :: protocol_feature_subjective_restrictions
  bf_type :: protocol_feature_t
  bf_builtin_feature_codename :: string
  bf_codename :: builtin_protocol_feature_t

definition feature_type_string :: string where
  "feature_type_string = ''builtin''"

definition make_builtin_protocol_feature ::
  "(string \<Rightarrow> digest) \<Rightarrow> builtin_protocol_feature_t \<Rightarrow> digest \<Rightarrow> digest set \<Rightarrow>
   protocol_feature_subjective_restrictions \<Rightarrow> builtin_protocol_feature res" where
  "make_builtin_protocol_feature as_digest c dd deps restrictions =
     (case builtin_protocol_feature_codenames as_digest c of
        None \<Rightarrow> Inl protocol_feature_validation_exception
      | Some sp \<Rightarrow> Inr \<lparr>bf_protocol_feature_type = feature_type_string, bf_description_digest = dd,
          bf_dependencies = deps, bf_subjective_restrictions = restrictions, bf_type = builtin,
          bf_builtin_feature_codename = spec_codename sp, bf_codename = c\<rparr>)"

definition feature_reflector_init ::
  "(string \<Rightarrow> digest) \<Rightarrow> builtin_protocol_feature \<Rightarrow> builtin_protocol_feature res" where
  "feature_reflector_init as_digest f =
     eos_assert (bf_protocol_feature_type f = feature_type_string) protocol_feature_validation_exception
     (case find (\<lambda>c. map_option spec_codename (builtin_protocol_feature_codenames as_digest c) =
                     Some (bf_builtin_feature_codename f)) builtin_features of
        None \<Rightarrow> Inl protocol_feature_validation_exception
      | Some c \<Rightarrow> Inr (f\<lparr>bf_type := builtin, bf_codename := c\<rparr>))"

type_synonym feature_hash =
  "protocol_feature_t \<Rightarrow> digest \<Rightarrow> digest set \<Rightarrow> builtin_protocol_feature_t \<Rightarrow> digest"

definition feature_digest :: "feature_hash \<Rightarrow> builtin_protocol_feature \<Rightarrow> digest" where
  "feature_digest hash f = hash (bf_type f) (bf_description_digest f) (bf_dependencies f) (bf_codename f)"

section \<open>The set of recognised features\<close>

record protocol_feature =
  pf_feature_digest :: digest
  pf_description_digest :: digest
  pf_dependencies :: "digest set"
  pf_earliest_allowed_activation_time :: int
  pf_preactivation_required :: bool
  pf_enabled :: bool
  pf_builtin_feature :: "builtin_protocol_feature_t option"

record protocol_feature_set =
  pfs_recognized :: "digest \<rightharpoonup> protocol_feature"
  pfs_recognized_builtin :: "digest option list"

definition protocol_feature_set_new :: protocol_feature_set where
  "protocol_feature_set_new = \<lparr>pfs_recognized = Map.empty, pfs_recognized_builtin = []\<rparr>"

datatype recognized_t = unrecognized | disabled | too_early | ready

definition is_recognized :: "protocol_feature_set \<Rightarrow> digest \<Rightarrow> int \<Rightarrow> recognized_t" where
  "is_recognized S d now =
     (case pfs_recognized S d of
        None \<Rightarrow> unrecognized
      | Some pf \<Rightarrow> if \<not> pf_enabled pf then disabled
          else if pf_earliest_allowed_activation_time pf > now then too_early
          else ready)"

definition get_builtin_digest :: "protocol_feature_set \<Rightarrow> builtin_protocol_feature_t \<Rightarrow> digest option" where
  "get_builtin_digest S c =
     (let indx = feature_index c in
      if indx \<ge> length (pfs_recognized_builtin S) then None
      else if pfs_recognized_builtin S ! indx = None then None
      else pfs_recognized_builtin S ! indx)"

definition get_protocol_feature :: "protocol_feature_set \<Rightarrow> digest \<Rightarrow> protocol_feature res" where
  "get_protocol_feature S d =
     (case pfs_recognized S d of None \<Rightarrow> Inl protocol_feature_exception | Some pf \<Rightarrow> Inr pf)"

definition validate_dependencies :: "protocol_feature_set \<Rightarrow> digest \<Rightarrow> (digest \<Rightarrow> bool) \<Rightarrow> bool" where
  "validate_dependencies S d validator =
     (case pfs_recognized S d of None \<Rightarrow> False | Some pf \<Rightarrow> (\<forall>x \<in> pf_dependencies pf. validator x))"

definition make_default_builtin_protocol_feature ::
  "(string \<Rightarrow> digest) \<Rightarrow> builtin_protocol_feature_t \<Rightarrow> (builtin_protocol_feature_t \<Rightarrow> digest res) \<Rightarrow>
   builtin_protocol_feature res" where
  "make_default_builtin_protocol_feature as_digest c handle_dependency =
     (case builtin_protocol_feature_codenames as_digest c of
        None \<Rightarrow> Inl protocol_feature_validation_exception
      | Some sp \<Rightarrow>
          res_bind (for_each (\<lambda>b deps. res_bind (handle_dependency b) (\<lambda>d. Inr (insert d deps)))
                      (spec_builtin_dependencies sp) {}) (\<lambda>deps.
          make_builtin_protocol_feature as_digest c (spec_description_digest sp) deps
            (spec_subjective_restrictions sp)))"

text \<open>
  The builtin features among the expected ones that the dependencies satisfy, and the vector of
  builtin iterators extended with end iterators up to an index.
\<close>

definition satisfied_builtins ::
  "protocol_feature_set \<Rightarrow> builtin_protocol_feature \<Rightarrow> builtin_protocol_feature_t list \<Rightarrow>
   builtin_protocol_feature_t set" where
  "satisfied_builtins S f expected =
     {b \<in> set expected. \<exists>d \<in> bf_dependencies f. \<exists>pf \<in> set_option (pfs_recognized S d). pf_builtin_feature pf = Some b}"

definition extend_to :: "nat \<Rightarrow> 'a option list \<Rightarrow> 'a option list" where
  "extend_to n xs = (if n \<ge> length xs then xs @ replicate (Suc n - length xs) None else xs)"

definition add_feature ::
  "feature_hash \<Rightarrow> (string \<Rightarrow> digest) \<Rightarrow> builtin_protocol_feature \<Rightarrow> protocol_feature_set \<Rightarrow>
   protocol_feature_set res" where
  "add_feature hash as_digest f S =
     (case builtin_protocol_feature_codenames as_digest (bf_codename f) of
        None \<Rightarrow> Inl protocol_feature_validation_exception
      | Some sp \<Rightarrow>
          (let indx = feature_index (bf_codename f); rb = pfs_recognized_builtin S in
           eos_assert (indx < length rb \<longrightarrow> rb ! indx = None) protocol_feature_exception
           (let d = feature_digest hash f;
                expected = spec_builtin_dependencies sp in
            eos_assert (\<forall>x \<in> bf_dependencies f. pfs_recognized S x \<noteq> None) protocol_feature_exception
            (let satisfied = satisfied_builtins S f expected in
             if length expected > card satisfied then
               (if \<forall>b \<in> set expected - satisfied. builtin_protocol_feature_codenames as_digest b \<noteq> None
                then Inl protocol_feature_validation_exception else Inl protocol_feature_exception)
             else
               eos_assert (pfs_recognized S d = None) protocol_feature_exception
               (let pf = \<lparr>pf_feature_digest = d, pf_description_digest = bf_description_digest f,
                      pf_dependencies = bf_dependencies f,
                      pf_earliest_allowed_activation_time =
                        sr_earliest_allowed_activation_time (bf_subjective_restrictions f),
                      pf_preactivation_required = sr_preactivation_required (bf_subjective_restrictions f),
                      pf_enabled = sr_enabled (bf_subjective_restrictions f),
                      pf_builtin_feature = Some (bf_codename f)\<rparr> in
                Inr \<lparr>pfs_recognized = (pfs_recognized S)(d \<mapsto> pf),
                     pfs_recognized_builtin = (extend_to indx rb)[indx := Some d]\<rparr>)))))"

section \<open>The manager of activated features\<close>

text \<open>
  \<^verbatim>\<open>no_previous\<close>, the largest \<^verbatim>\<open>size_t\<close>, is not the index of an entry and is \<^const>\<open>None\<close>;
  \<^verbatim>\<open>not_active\<close> stays the largest block number.
\<close>

record protocol_feature_entry =
  pfe_iterator :: digest
  pfe_activation_block_num :: u32

record builtin_protocol_feature_entry =
  bfe_previous :: "nat option"
  bfe_activation_block_num :: u32

definition not_active :: u32 where
  "not_active = -1"

definition builtin_entry_default :: builtin_protocol_feature_entry where
  "builtin_entry_default = \<lparr>bfe_previous = None, bfe_activation_block_num = not_active\<rparr>"

record protocol_feature_manager =
  pfm_protocol_feature_set :: protocol_feature_set
  pfm_activated :: "protocol_feature_entry list"
  pfm_builtin :: "builtin_protocol_feature_entry list"
  pfm_head :: "nat option"
  pfm_initialized :: bool

definition protocol_feature_manager_new :: "protocol_feature_set \<Rightarrow> protocol_feature_manager" where
  "protocol_feature_manager_new S =
     \<lparr>pfm_protocol_feature_set = S, pfm_activated = [],
      pfm_builtin = replicate (length (pfs_recognized_builtin S)) builtin_entry_default,
      pfm_head = None, pfm_initialized = False\<rparr>"

definition activate_feature :: "digest \<Rightarrow> u32 \<Rightarrow> protocol_feature_manager \<Rightarrow> protocol_feature_manager res" where
  "activate_feature d current_block_num m =
     eos_assert (pfm_initialized m) protocol_feature_exception
     (case pfs_recognized (pfm_protocol_feature_set m) d of
        None \<Rightarrow> Inl protocol_feature_exception
      | Some pf \<Rightarrow>
          eos_assert (pfm_activated m \<noteq> [] \<longrightarrow>
              pfe_activation_block_num (last (pfm_activated m)) \<le> current_block_num) protocol_feature_exception
          (case pf_builtin_feature pf of
             None \<Rightarrow> Inl protocol_feature_exception
           | Some c \<Rightarrow>
               (let indx = feature_index c in
                eos_assert (indx < length (pfm_builtin m)) protocol_feature_exception
                (eos_assert (bfe_activation_block_num (pfm_builtin m ! indx) = not_active) protocol_feature_exception
                 (Inr (m\<lparr>pfm_activated := pfm_activated m @
                             [\<lparr>pfe_iterator = d, pfe_activation_block_num = current_block_num\<rparr>],
                         pfm_builtin := (pfm_builtin m)[indx :=
                             \<lparr>bfe_previous = pfm_head m, bfe_activation_block_num = current_block_num\<rparr>],
                         pfm_head := Some indx\<rparr>))))))"

text \<open>The initialisation replays the activations that the database records.\<close>

definition pfm_init :: "(digest \<times> u32) list \<Rightarrow> protocol_feature_manager \<Rightarrow> protocol_feature_manager res" where
  "pfm_init activated_protocol_features m =
     eos_assert (\<not> pfm_initialized m) protocol_feature_exception
     (for_each (\<lambda>(d, n). activate_feature d n) activated_protocol_features (m\<lparr>pfm_initialized := True\<rparr>))"

definition linked_entries :: "builtin_protocol_feature_entry list \<Rightarrow> nat" where
  "linked_entries bs = length (filter (\<lambda>e. bfe_previous e \<noteq> None) bs)"

lemma linked_entries_unlink:
  "h < length bs \<Longrightarrow> linked_entries (bs[h := builtin_entry_default]) +
     (if bfe_previous (bs ! h) = None then 0 else 1) = linked_entries bs"
proof (induction bs arbitrary: h)
  case (Cons e bs)
  show ?case
  proof (cases h)
    case 0
    then show ?thesis by (auto simp: linked_entries_def builtin_entry_default_def)
  next
    case (Suc h')
    then show ?thesis using Cons.IH[of h'] Cons.prems by (auto simp: linked_entries_def)
  qed
qed simp

text \<open>
  The walk down the list of builtin activations. Each visited entry loses its link, so the
  walk ends whatever the links are.
\<close>

function (sequential) pop_builtins ::
  "u32 \<Rightarrow> builtin_protocol_feature_entry list \<times> nat option \<Rightarrow>
   (builtin_protocol_feature_entry list \<times> nat option) res" where
  "pop_builtins block_num (bs, None) = Inr (bs, None)"
| "pop_builtins block_num (bs, Some h) =
     (if h \<ge> length bs then Inl undefined_behavior
      else if bfe_activation_block_num (bs ! h) \<le> block_num then Inr (bs, Some h)
      else pop_builtins block_num (bs[h := builtin_entry_default], bfe_previous (bs ! h)))"
  by pat_completeness auto

termination
proof (relation "measure (\<lambda>(n, bs, h). 2 * linked_entries bs + (if h = None then 0 else 1))", simp)
  fix block_num :: u32 and bs :: "builtin_protocol_feature_entry list" and h
  assume "\<not> length bs \<le> h"
  then show "((block_num, bs[h := builtin_entry_default], bfe_previous (bs ! h)), (block_num, bs, Some h))
    \<in> measure (\<lambda>(n, bs, h). 2 * linked_entries bs + (if h = None then 0 else 1))"
    using linked_entries_unlink[of h bs] by (auto split: if_splits)
qed

text \<open>The second loop removes the activations after the block from the back of the vector.\<close>

definition pop_activated :: "u32 \<Rightarrow> protocol_feature_entry list \<Rightarrow> protocol_feature_entry list" where
  "pop_activated block_num es = rev (dropWhile (\<lambda>e. block_num < pfe_activation_block_num e) (rev es))"

definition popped_blocks_to :: "u32 \<Rightarrow> protocol_feature_manager \<Rightarrow> protocol_feature_manager res" where
  "popped_blocks_to block_num m =
     eos_assert (pfm_initialized m) protocol_feature_exception
     (res_bind (pop_builtins block_num (pfm_builtin m, pfm_head m)) (\<lambda>(bs, h).
      Inr (m\<lparr>pfm_builtin := bs, pfm_head := h,
             pfm_activated := pop_activated block_num (pfm_activated m)\<rparr>)))"

definition is_builtin_activated :: "protocol_feature_manager \<Rightarrow> builtin_protocol_feature_t \<Rightarrow> u32 \<Rightarrow> bool" where
  "is_builtin_activated m c current_block_num =
     (let indx = feature_index c in
      if indx \<ge> length (pfm_builtin m) then False
      else bfe_activation_block_num (pfm_builtin m ! indx) \<le> current_block_num)"

subsection \<open>Iteration over the activated features\<close>

text \<open>An iterator is singular (no manager) or has an index; \<^const>\<open>None\<close> is the end index.\<close>

record feature_iterator =
  fi_singular :: bool
  fi_index :: "nat option"

definition pfm_cend :: feature_iterator where
  "pfm_cend = \<lparr>fi_singular = False, fi_index = None\<rparr>"

definition pfm_iterator :: "nat \<Rightarrow> feature_iterator" where
  "pfm_iterator i = \<lparr>fi_singular = False, fi_index = Some i\<rparr>"

definition pfm_cbegin :: "protocol_feature_manager \<Rightarrow> feature_iterator" where
  "pfm_cbegin m = (if length (pfm_activated m) = 0 then pfm_cend else pfm_iterator 0)"

definition at_activation_ordinal :: "protocol_feature_manager \<Rightarrow> u32 \<Rightarrow> feature_iterator" where
  "at_activation_ordinal m ordinal =
     (if unat ordinal \<ge> length (pfm_activated m) then pfm_cend else pfm_iterator (unat ordinal))"

definition pfm_lower_bound :: "protocol_feature_manager \<Rightarrow> u32 \<Rightarrow> feature_iterator" where
  "pfm_lower_bound m block_num =
     (let i = length (takeWhile (\<lambda>e. pfe_activation_block_num e < block_num) (pfm_activated m)) in
      if i = length (pfm_activated m) then pfm_cend else pfm_iterator i)"

definition pfm_upper_bound :: "protocol_feature_manager \<Rightarrow> u32 \<Rightarrow> feature_iterator" where
  "pfm_upper_bound m block_num =
     (let i = length (takeWhile (\<lambda>e. \<not> block_num < pfe_activation_block_num e) (pfm_activated m)) in
      if i = length (pfm_activated m) then pfm_cend else pfm_iterator i)"

definition activation_ordinal :: "feature_iterator \<Rightarrow> u32 res" where
  "activation_ordinal it =
     eos_assert (\<not> fi_singular it) protocol_feature_iterator_exception
     (case fi_index it of None \<Rightarrow> Inl protocol_feature_iterator_exception | Some i \<Rightarrow> Inr (of_nat i))"

definition activation_block_num :: "protocol_feature_manager \<Rightarrow> feature_iterator \<Rightarrow> u32 res" where
  "activation_block_num m it =
     eos_assert (\<not> fi_singular it) protocol_feature_iterator_exception
     (case fi_index it of
        None \<Rightarrow> Inl protocol_feature_iterator_exception
      | Some i \<Rightarrow> eos_assert (i < length (pfm_activated m)) undefined_behavior
          (Inr (pfe_activation_block_num (pfm_activated m ! i))))"

definition fi_increment :: "protocol_feature_manager \<Rightarrow> feature_iterator \<Rightarrow> feature_iterator res" where
  "fi_increment m it =
     eos_assert (\<not> fi_singular it) protocol_feature_iterator_exception
     (case fi_index it of
        None \<Rightarrow> Inl protocol_feature_iterator_exception
      | Some i \<Rightarrow> Inr (it\<lparr>fi_index := if Suc i \<ge> length (pfm_activated m) then None else Some (Suc i)\<rparr>))"

definition fi_decrement :: "protocol_feature_manager \<Rightarrow> feature_iterator \<Rightarrow> feature_iterator res" where
  "fi_decrement m it =
     eos_assert (\<not> fi_singular it) protocol_feature_iterator_exception
     (case fi_index it of
        None \<Rightarrow> eos_assert (length (pfm_activated m) > 0) protocol_feature_iterator_exception
          (Inr (it\<lparr>fi_index := Some (length (pfm_activated m) - 1)\<rparr>))
      | Some i \<Rightarrow> eos_assert (i > 0) protocol_feature_iterator_exception
          (Inr (it\<lparr>fi_index := Some (i - 1)\<rparr>)))"

section \<open>Facts about the table\<close>

lemma feature_index_inj: "feature_index a = feature_index b \<longleftrightarrow> a = b"
  by (cases a; cases b; simp)

lemma codenames_None: "builtin_protocol_feature_codenames as_digest c = None \<longleftrightarrow> c \<notin> set builtin_features"
  by (cases c; simp add: builtin_features_def)

lemma dependencies_builtin:
  "builtin_protocol_feature_codenames as_digest c = Some sp \<Longrightarrow> b \<in> set (spec_builtin_dependencies sp) \<Longrightarrow>
   b \<in> set builtin_features"
  by (cases c; auto simp: spec_with_defaults_def builtin_features_def)

lemma dependencies_distinct:
  "builtin_protocol_feature_codenames as_digest c = Some sp \<Longrightarrow> distinct (spec_builtin_dependencies sp)"
  by (cases c; auto simp: spec_with_defaults_def)

section \<open>The set stays well formed\<close>

text \<open>
  Every recognised feature is a builtin one, is stored under its own digest and under its own index,
  and its dependencies, which include those that the table demands, are recognised.
\<close>

definition feature_wf :: "(string \<Rightarrow> digest) \<Rightarrow> protocol_feature_set \<Rightarrow> digest \<Rightarrow> protocol_feature \<Rightarrow> bool" where
  "feature_wf as_digest S d pf \<longleftrightarrow> pf_feature_digest pf = d \<and> pf_dependencies pf \<subseteq> dom (pfs_recognized S) \<and>
     (\<exists>c sp. pf_builtin_feature pf = Some c \<and> builtin_protocol_feature_codenames as_digest c = Some sp \<and>
        get_builtin_digest S c = Some d \<and>
        (\<forall>b \<in> set (spec_builtin_dependencies sp). \<exists>x \<in> pf_dependencies pf. get_builtin_digest S b = Some x))"

definition pfs_wf :: "(string \<Rightarrow> digest) \<Rightarrow> protocol_feature_set \<Rightarrow> bool" where
  "pfs_wf as_digest S \<longleftrightarrow>
     (\<forall>d pf. pfs_recognized S d = Some pf \<longrightarrow> feature_wf as_digest S d pf) \<and>
     (\<forall>c d. get_builtin_digest S c = Some d \<longrightarrow>
        (\<exists>pf. pfs_recognized S d = Some pf \<and> pf_builtin_feature pf = Some c))"

lemma get_builtin_digest_alt:
  "get_builtin_digest S c = (if feature_index c < length (pfs_recognized_builtin S)
     then pfs_recognized_builtin S ! feature_index c else None)"
  by (auto simp: get_builtin_digest_def Let_def)

lemma extend_to_nth:
  "length (extend_to n xs) = max (Suc n) (length xs)"
  "i < length xs \<Longrightarrow> extend_to n xs ! i = xs ! i"
  "length xs \<le> i \<Longrightarrow> i \<le> n \<Longrightarrow> extend_to n xs ! i = None"
  by (auto simp: extend_to_def nth_append)

lemma extend_to_lookup:
  "(if i < length ((extend_to n xs)[n := Some d]) then (extend_to n xs)[n := Some d] ! i else None) =
   (if i = n then Some d else if i < length xs then xs ! i else None)"
proof (cases "i = n")
  case False
  then show ?thesis
    by (cases "i < length xs") (auto simp: extend_to_nth)
qed (simp add: extend_to_nth)

lemma add_feature_Inr:
  assumes "add_feature hash as_digest f S = Inr S'"
  obtains sp pf where
    "builtin_protocol_feature_codenames as_digest (bf_codename f) = Some sp"
    "get_builtin_digest S (bf_codename f) = None"
    "bf_dependencies f \<subseteq> dom (pfs_recognized S)"
    "length (spec_builtin_dependencies sp) \<le> card (satisfied_builtins S f (spec_builtin_dependencies sp))"
    "pfs_recognized S (feature_digest hash f) = None"
    "pfs_recognized S' = (pfs_recognized S)(feature_digest hash f \<mapsto> pf)"
    "pf_feature_digest pf = feature_digest hash f" "pf_dependencies pf = bf_dependencies f"
    "pf_builtin_feature pf = Some (bf_codename f)"
    "\<And>c. get_builtin_digest S' c =
       (if c = bf_codename f then Some (feature_digest hash f) else get_builtin_digest S c)"
proof -
  let ?n = "feature_index (bf_codename f)" and ?rb = "pfs_recognized_builtin S"
  obtain sp where sp: "builtin_protocol_feature_codenames as_digest (bf_codename f) = Some sp"
    using assms by (cases "builtin_protocol_feature_codenames as_digest (bf_codename f)")
      (auto simp: add_feature_def)
  note a = assms[unfolded add_feature_def sp option.case Let_def]
  have sz: "length (spec_builtin_dependencies sp) \<le> card (satisfied_builtins S f (spec_builtin_dependencies sp))"
    using a by (simp split: if_splits)
  then have a': "?n < length ?rb \<longrightarrow> ?rb ! ?n = None"
      "\<forall>x \<in> bf_dependencies f. pfs_recognized S x \<noteq> None"
      "pfs_recognized S (feature_digest hash f) = None"
    using a by (simp_all add: linorder_not_less split: if_splits)
  have dig: "get_builtin_digest S' c =
       (if c = bf_codename f then Some (feature_digest hash f) else get_builtin_digest S c)" for c
  proof -
    have rb: "pfs_recognized_builtin S' = (extend_to ?n ?rb)[?n := Some (feature_digest hash f)]"
      using a sz by (auto split: if_splits)
    show ?thesis
      by (simp only: get_builtin_digest_alt rb extend_to_lookup feature_index_inj)
  qed
  show ?thesis
    by (rule that[OF sp _ _ sz a'(3) _ _ _ _ dig]) (use a a' sz in \<open>auto simp: get_builtin_digest_alt split: if_splits\<close>)
qed

lemma pfs_wf_new: "pfs_wf as_digest protocol_feature_set_new"
  by (simp add: pfs_wf_def protocol_feature_set_new_def get_builtin_digest_alt)

lemma satisfied_all:
  assumes "distinct expected" "length expected \<le> card (satisfied_builtins S f expected)" "b \<in> set expected"
  shows "b \<in> satisfied_builtins S f expected"
proof -
  have "satisfied_builtins S f expected \<subseteq> set expected" by (auto simp: satisfied_builtins_def)
  moreover have "card (set expected) \<le> card (satisfied_builtins S f expected)"
    using assms(1,2) by (simp add: distinct_card)
  ultimately have "satisfied_builtins S f expected = set expected"
    by (intro card_seteq) simp_all
  then show ?thesis using assms(3) by simp
qed

lemma feature_wf_mono:
  assumes wf: "feature_wf as_digest S d pf" and dom: "dom (pfs_recognized S) \<subseteq> dom (pfs_recognized S')"
    and dig: "\<And>c x. get_builtin_digest S c = Some x \<Longrightarrow> get_builtin_digest S' c = Some x"
  shows "feature_wf as_digest S' d pf"
proof -
  obtain c sp where c: "pf_builtin_feature pf = Some c" "builtin_protocol_feature_codenames as_digest c = Some sp"
      "get_builtin_digest S c = Some d"
      "\<forall>b \<in> set (spec_builtin_dependencies sp). \<exists>x \<in> pf_dependencies pf. get_builtin_digest S b = Some x"
    using wf by (auto simp: feature_wf_def)
  have "\<forall>b \<in> set (spec_builtin_dependencies sp). \<exists>x \<in> pf_dependencies pf. get_builtin_digest S' b = Some x"
    using c(4) dig by blast
  then show ?thesis
    using wf dom c(1,2) dig[OF c(3)] unfolding feature_wf_def by blast
qed

lemma add_feature_wf:
  assumes wf: "pfs_wf as_digest S" and add: "add_feature hash as_digest f S = Inr S'"
  shows "pfs_wf as_digest S'"
proof -
  let ?d = "feature_digest hash f"
  obtain sp pf where a: "builtin_protocol_feature_codenames as_digest (bf_codename f) = Some sp"
    "get_builtin_digest S (bf_codename f) = None"
    "bf_dependencies f \<subseteq> dom (pfs_recognized S)"
    "length (spec_builtin_dependencies sp) \<le> card (satisfied_builtins S f (spec_builtin_dependencies sp))"
    "pfs_recognized S ?d = None"
    "pfs_recognized S' = (pfs_recognized S)(?d \<mapsto> pf)"
    "pf_feature_digest pf = ?d" "pf_dependencies pf = bf_dependencies f"
    "pf_builtin_feature pf = Some (bf_codename f)"
    and dig: "\<And>c. get_builtin_digest S' c =
       (if c = bf_codename f then Some ?d else get_builtin_digest S c)"
    by (rule add_feature_Inr[OF add], rule that)
  have old: "get_builtin_digest S' c = Some x" if "get_builtin_digest S c = Some x" for c x
    using that a(2) by (auto simp: dig)
  have "\<exists>x \<in> pf_dependencies pf. get_builtin_digest S' b = Some x"
    if b: "b \<in> set (spec_builtin_dependencies sp)" for b
  proof -
    have "b \<in> satisfied_builtins S f (spec_builtin_dependencies sp)"
      by (rule satisfied_all[OF dependencies_distinct[OF a(1)] a(4) b])
    then obtain x q where x: "x \<in> bf_dependencies f" "pfs_recognized S x = Some q"
        "pf_builtin_feature q = Some b"
      by (auto simp: satisfied_builtins_def)
    then have "feature_wf as_digest S x q" using wf by (simp add: pfs_wf_def)
    then have "get_builtin_digest S b = Some x" using x(3) by (auto simp: feature_wf_def)
    then show ?thesis using x(1) old a(8) by auto
  qed
  then have new: "feature_wf as_digest S' ?d pf"
    using a by (auto simp: feature_wf_def dig)
  have others: "feature_wf as_digest S' d q" if "pfs_recognized S d = Some q" for d q
    by (rule feature_wf_mono[of _ S]) (use that wf a(6) old in \<open>auto simp: pfs_wf_def\<close>)
  have "\<exists>pf. pfs_recognized S' d = Some pf \<and> pf_builtin_feature pf = Some c"
    if c: "get_builtin_digest S' c = Some d" for c d
  proof (cases "c = bf_codename f")
    case True
    then show ?thesis using c a(6,9) by (simp add: dig)
  next
    case False
    then have "get_builtin_digest S c = Some d" using c by (simp add: dig)
    then obtain q where q: "pfs_recognized S d = Some q" "pf_builtin_feature q = Some c"
      using wf unfolding pfs_wf_def by blast
    then have "d \<noteq> ?d" using a(5) by auto
    then show ?thesis using q a(6) by simp
  qed
  then show ?thesis
    using new others a(6) by (auto simp: pfs_wf_def split: if_splits)
qed

section \<open>The manager's lists agree\<close>

text \<open>
  What the entries of the builtin features and the head of their list must be after a sequence
  of activations, given as pairs of an index and a block number.
\<close>

type_synonym activation_state = "builtin_protocol_feature_entry list \<times> nat option"

fun push_activation :: "nat \<times> u32 \<Rightarrow> activation_state \<Rightarrow> activation_state" where
  "push_activation (i, n) (bs, h) =
     (bs[i := \<lparr>bfe_previous = h, bfe_activation_block_num = n\<rparr>], Some i)"

definition activations :: "nat \<Rightarrow> (nat \<times> u32) list \<Rightarrow> activation_state" where
  "activations N xs = fold push_activation xs (replicate N builtin_entry_default, None)"

lemma activations_Nil [simp]: "activations N [] = (replicate N builtin_entry_default, None)"
  by (simp add: activations_def)

lemma activations_snoc [simp]: "activations N (xs @ [x]) = push_activation x (activations N xs)"
  by (simp add: activations_def)

lemma length_activations [simp]: "length (fst (activations N xs)) = N"
proof (induction xs rule: rev_induct)
  case (snoc x xs)
  then show ?case by (cases x; cases "activations N xs") simp
qed simp

lemma activations_nth:
  "i < N \<Longrightarrow> distinct (map fst xs) \<Longrightarrow>
   (\<forall>n. (i, n) \<in> set xs \<longrightarrow> bfe_activation_block_num (fst (activations N xs) ! i) = n) \<and>
   (i \<notin> fst ` set xs \<longrightarrow> fst (activations N xs) ! i = builtin_entry_default)"
proof (induction xs rule: rev_induct)
  case (snoc x xs)
  obtain j n where x: "x = (j, n)" by (cases x)
  obtain bs h where st: "activations N xs = (bs, h)" by (cases "activations N xs")
  have len: "length bs = N" using length_activations[of N xs] st by simp
  show ?case
  proof (cases "j = i")
    case True
    then have "(i, m) \<notin> set xs" for m using snoc.prems(2) x by (force simp: image_iff)
    then show ?thesis using True snoc.prems(1) x st len by auto
  next
    case False
    then show ?thesis using snoc x st by (auto simp: image_iff)
  qed
qed simp

lemma pop_builtins_activations:
  assumes "distinct (map fst xs)" "\<forall>x \<in> set xs. fst x < N"
  shows "pop_builtins b (activations N xs) =
    Inr (activations N (rev (dropWhile (\<lambda>x. b < snd x) (rev xs))))"
  using assms
proof (induction xs rule: rev_induct)
  case (snoc x xs)
  obtain i n where x: "x = (i, n)" by (cases x)
  obtain bs h where st: "activations N xs = (bs, h)" by (cases "activations N xs")
  have len: "length bs = N" using length_activations[of N xs] st by simp
  have i: "i < N" "i \<notin> fst ` set xs" using snoc.prems x by auto
  have "bs ! i = builtin_entry_default"
    using activations_nth[of i N xs] snoc.prems(1) i st by simp
  then have undo: "bs[i := builtin_entry_default] = bs" by (metis list_update_id)
  show ?case
  proof (cases "b < n")
    case True
    then have nle: "\<not> n \<le> b" by simp
    have "pop_builtins b (activations N (xs @ [x])) = pop_builtins b (activations N xs)"
      using nle x st i len undo by simp
    then show ?thesis using snoc True x by simp
  next
    case False
    then have "n \<le> b" by simp
    then show ?thesis using False x st i len by simp
  qed
qed simp

text \<open>
  The invariant of a manager: every activation is of a recognised builtin feature, no feature
  is activated twice, block numbers never decrease, and the builtin entries and the head of their
  list are those of the activations.
\<close>

definition entry_feature :: "protocol_feature_set \<Rightarrow> protocol_feature_entry \<Rightarrow> builtin_protocol_feature_t option" where
  "entry_feature S e = Option.bind (pfs_recognized S (pfe_iterator e)) pf_builtin_feature"

definition entry_activation :: "protocol_feature_set \<Rightarrow> protocol_feature_entry \<Rightarrow> nat \<times> u32" where
  "entry_activation S e = (feature_index (the (entry_feature S e)), pfe_activation_block_num e)"

definition pfm_inv :: "protocol_feature_manager \<Rightarrow> bool" where
  "pfm_inv m \<longleftrightarrow>
     (let S = pfm_protocol_feature_set m; es = pfm_activated m; N = length (pfm_builtin m) in
      (\<forall>e \<in> set es. entry_feature S e \<noteq> None \<and> fst (entry_activation S e) < N \<and>
         pfe_activation_block_num e \<noteq> not_active) \<and>
      distinct (map (fst \<circ> entry_activation S) es) \<and>
      sorted (map pfe_activation_block_num es) \<and>
      (pfm_builtin m, pfm_head m) = activations N (map (entry_activation S) es))"

lemma snd_entry_activation [simp]: "snd (entry_activation S e) = pfe_activation_block_num e"
  by (simp add: entry_activation_def)

lemma pfm_inv_new: "pfm_inv (protocol_feature_manager_new S)"
  by (simp add: pfm_inv_def protocol_feature_manager_new_def)

lemma pfm_inv_initialized [simp]: "pfm_inv (m\<lparr>pfm_initialized := b\<rparr>) = pfm_inv m"
  by (simp add: pfm_inv_def)

lemma pfm_builtin_nth:
  assumes inv: "pfm_inv m" and i: "i < length (pfm_builtin m)"
  shows "\<forall>e \<in> set (pfm_activated m). fst (entry_activation (pfm_protocol_feature_set m) e) = i \<longrightarrow>
      bfe_activation_block_num (pfm_builtin m ! i) = pfe_activation_block_num e"
    and "i \<notin> (fst \<circ> entry_activation (pfm_protocol_feature_set m)) ` set (pfm_activated m) \<Longrightarrow>
      pfm_builtin m ! i = builtin_entry_default"
proof -
  let ?xs = "map (entry_activation (pfm_protocol_feature_set m)) (pfm_activated m)"
  have bs: "pfm_builtin m = fst (activations (length (pfm_builtin m)) ?xs)"
    using inv unfolding pfm_inv_def Let_def by (metis fst_conv)
  have "distinct (map fst ?xs)" using inv by (simp add: pfm_inv_def Let_def)
  note nth = activations_nth[OF i this, folded bs]
  show "\<forall>e \<in> set (pfm_activated m). fst (entry_activation (pfm_protocol_feature_set m) e) = i \<longrightarrow>
      bfe_activation_block_num (pfm_builtin m ! i) = pfe_activation_block_num e"
  proof (intro ballI impI)
    fix e assume e: "e \<in> set (pfm_activated m)" "fst (entry_activation (pfm_protocol_feature_set m) e) = i"
    then have "entry_activation (pfm_protocol_feature_set m) e = (i, pfe_activation_block_num e)"
      by (simp add: prod_eq_iff)
    then have "(i, pfe_activation_block_num e) \<in> set ?xs" using e(1) by force
    then show "bfe_activation_block_num (pfm_builtin m ! i) = pfe_activation_block_num e" using nth by blast
  qed
  assume "i \<notin> (fst \<circ> entry_activation (pfm_protocol_feature_set m)) ` set (pfm_activated m)"
  then have "i \<notin> fst ` set ?xs" by (simp add: image_image)
  then show "pfm_builtin m ! i = builtin_entry_default" using nth by blast
qed

lemma sorted_le_last: "sorted xs \<Longrightarrow> y \<in> set xs \<Longrightarrow> y \<le> last xs"
  by (induction xs) auto

lemma activate_feature_Inr:
  assumes "activate_feature d n m = Inr m'"
  obtains pf c where "pfm_initialized m" "pfs_recognized (pfm_protocol_feature_set m) d = Some pf"
    "pf_builtin_feature pf = Some c" "feature_index c < length (pfm_builtin m)"
    "pfm_activated m \<noteq> [] \<longrightarrow> pfe_activation_block_num (last (pfm_activated m)) \<le> n"
    "bfe_activation_block_num (pfm_builtin m ! feature_index c) = not_active"
    "m' = m\<lparr>pfm_activated := pfm_activated m @ [\<lparr>pfe_iterator = d, pfe_activation_block_num = n\<rparr>],
       pfm_builtin := (pfm_builtin m)[feature_index c :=
         \<lparr>bfe_previous = pfm_head m, bfe_activation_block_num = n\<rparr>],
       pfm_head := Some (feature_index c)\<rparr>"
proof -
  obtain pf where pf: "pfs_recognized (pfm_protocol_feature_set m) d = Some pf"
    using assms by (cases "pfs_recognized (pfm_protocol_feature_set m) d") (simp_all add: activate_feature_def)
  obtain c where c: "pf_builtin_feature pf = Some c"
    using assms pf by (cases "pf_builtin_feature pf") (simp_all add: activate_feature_def)
  show ?thesis
    by (rule that[OF _ pf c]) (use assms pf c in \<open>simp_all add: activate_feature_def Let_def\<close>)
qed

lemma activate_feature_inv:
  assumes inv: "pfm_inv m" and act: "activate_feature d n m = Inr m'" and n: "n \<noteq> not_active"
  shows "pfm_inv m'"
proof -
  obtain pf c where a: "pfs_recognized (pfm_protocol_feature_set m) d = Some pf"
    "pf_builtin_feature pf = Some c" "feature_index c < length (pfm_builtin m)"
    "pfm_activated m \<noteq> [] \<longrightarrow> pfe_activation_block_num (last (pfm_activated m)) \<le> n"
    "bfe_activation_block_num (pfm_builtin m ! feature_index c) = not_active"
    and m': "m' = m\<lparr>pfm_activated := pfm_activated m @ [\<lparr>pfe_iterator = d, pfe_activation_block_num = n\<rparr>],
       pfm_builtin := (pfm_builtin m)[feature_index c :=
         \<lparr>bfe_previous = pfm_head m, bfe_activation_block_num = n\<rparr>],
       pfm_head := Some (feature_index c)\<rparr>"
    by (rule activate_feature_Inr[OF act])
  let ?S = "pfm_protocol_feature_set m" and ?e = "\<lparr>pfe_iterator = d, pfe_activation_block_num = n\<rparr>"
  have e: "entry_feature ?S ?e = Some c" "entry_activation ?S ?e = (feature_index c, n)"
    using a(1,2) by (simp_all add: entry_feature_def entry_activation_def)
  have fresh: "feature_index c \<notin> (fst \<circ> entry_activation ?S) ` set (pfm_activated m)"
  proof
    assume "feature_index c \<in> (fst \<circ> entry_activation ?S) ` set (pfm_activated m)"
    then obtain x where x: "x \<in> set (pfm_activated m)" "fst (entry_activation ?S x) = feature_index c" by auto
    then have "pfe_activation_block_num x = not_active"
      using pfm_builtin_nth(1)[OF inv a(3)] a(5) by auto
    then show False using inv x(1) by (simp add: pfm_inv_def Let_def)
  qed
  have sorted: "sorted (map pfe_activation_block_num (pfm_activated m @ [?e]))"
  proof (cases "pfm_activated m = []")
    case False
    have s: "sorted (map pfe_activation_block_num (pfm_activated m))" using inv by (simp add: pfm_inv_def Let_def)
    have "y \<le> n" if "y \<in> set (map pfe_activation_block_num (pfm_activated m))" for y
      using sorted_le_last[OF s that] a(4) False by (simp add: last_map)
    then show ?thesis using s by (auto simp: sorted_append)
  qed simp
  have st: "activations (length (pfm_builtin m)) (map (entry_activation ?S) (pfm_activated m)) =
      (pfm_builtin m, pfm_head m)"
    using inv by (simp add: pfm_inv_def Let_def)
  show ?thesis
    using inv sorted fresh e a(3) n m' st by (auto simp: pfm_inv_def Let_def)
qed

lemma for_each_activate_inv:
  "pfm_inv m \<Longrightarrow> \<forall>(d, n) \<in> set xs. n \<noteq> not_active \<Longrightarrow>
   for_each (\<lambda>(d, n). activate_feature d n) xs m = Inr m' \<Longrightarrow> pfm_inv m'"
proof (induction xs arbitrary: m)
  case (Cons x xs)
  obtain d n where x: "x = (d, n)" by (cases x)
  then obtain m1 where "activate_feature d n m = Inr m1"
      "for_each (\<lambda>(d, n). activate_feature d n) xs m1 = Inr m'"
    using Cons.prems(3) by auto
  then show ?case using Cons.IH[of m1] Cons.prems x activate_feature_inv by auto
qed simp

lemma rev_dropWhile_sorted:
  "sorted (map f xs) \<Longrightarrow> rev (dropWhile (\<lambda>e. b < f e) (rev xs)) = filter (\<lambda>e. f e \<le> b) xs"
proof (induction xs rule: rev_induct)
  case (snoc x xs)
  have s: "sorted (map f xs)" "\<forall>y \<in> set xs. f y \<le> f x" using snoc.prems by (auto simp: sorted_append)
  show ?case
  proof (cases "b < f x")
    case False
    then have le: "f x \<le> b" by simp
    then have "\<forall>y \<in> set xs. f y \<le> b" using s(2) by (meson order_trans)
    then show ?thesis using False le by simp
  next
    case True
    then have "\<not> f x \<le> b" by simp
    then show ?thesis using True snoc.IH[OF s(1)] by simp
  qed
qed simp

lemma popped_blocks_to_inv_eq:
  fixes b :: u32
  assumes inv: "pfm_inv m" and init: "pfm_initialized m"
  defines "es \<equiv> filter (\<lambda>e. pfe_activation_block_num e \<le> b) (pfm_activated m)"
  defines "st \<equiv> activations (length (pfm_builtin m)) (map (entry_activation (pfm_protocol_feature_set m)) es)"
  shows "popped_blocks_to b m =
    Inr (m\<lparr>pfm_builtin := fst st, pfm_head := snd st, pfm_activated := es\<rparr>)"
proof -
  let ?S = "pfm_protocol_feature_set m" and ?N = "length (pfm_builtin m)"
  have i: "distinct (map fst (map (entry_activation ?S) (pfm_activated m)))"
      "\<forall>x \<in> set (map (entry_activation ?S) (pfm_activated m)). fst x < ?N"
      "sorted (map pfe_activation_block_num (pfm_activated m))"
      "activations ?N (map (entry_activation ?S) (pfm_activated m)) = (pfm_builtin m, pfm_head m)"
    using inv by (simp_all add: pfm_inv_def Let_def)
  have es: "rev (dropWhile (\<lambda>e. b < pfe_activation_block_num e) (rev (pfm_activated m))) = es"
    unfolding es_def by (rule rev_dropWhile_sorted[OF i(3)])
  have "rev (dropWhile (\<lambda>x. b < snd x) (rev (map (entry_activation ?S) (pfm_activated m)))) =
      map (entry_activation ?S) es"
    unfolding es[symmetric] by (simp add: rev_map dropWhile_map comp_def)
  then have "pop_builtins b (pfm_builtin m, pfm_head m) = Inr st"
    using pop_builtins_activations[OF i(1,2), of b] by (simp add: i(4) st_def)
  then show ?thesis
    using init es by (cases st) (simp add: popped_blocks_to_def pop_activated_def)
qed

lemma popped_blocks_to_inv:
  assumes inv: "pfm_inv m" and pop: "popped_blocks_to b m = Inr m'"
  shows "pfm_inv m'"
proof -
  let ?S = "pfm_protocol_feature_set m"
  define es where "es = filter (\<lambda>e. pfe_activation_block_num e \<le> b) (pfm_activated m)"
  define st where "st = activations (length (pfm_builtin m)) (map (entry_activation ?S) es)"
  have init: "pfm_initialized m" using pop by (simp add: popped_blocks_to_def)
  have m': "m' = m\<lparr>pfm_builtin := fst st, pfm_head := snd st, pfm_activated := es\<rparr>"
    using popped_blocks_to_inv_eq[OF inv init, of b] pop by (simp add: es_def st_def)
  have "set es \<subseteq> set (pfm_activated m)" "distinct (map (fst \<circ> entry_activation ?S) es)"
      "sorted (map pfe_activation_block_num es)"
    using inv unfolding es_def pfm_inv_def Let_def
    by (auto simp: distinct_map_filter sorted_filter)
  moreover have "length (fst st) = length (pfm_builtin m)" by (simp add: st_def)
  ultimately show ?thesis
    using inv unfolding m' pfm_inv_def Let_def by (auto simp: st_def)
qed

section \<open>Reachable managers\<close>

inductive pfs_reachable :: "feature_hash \<Rightarrow> (string \<Rightarrow> digest) \<Rightarrow> protocol_feature_set \<Rightarrow> bool"
  for hash as_digest where
  pfs_start: "pfs_reachable hash as_digest protocol_feature_set_new"
| pfs_add: "pfs_reachable hash as_digest S \<Longrightarrow> add_feature hash as_digest f S = Inr S' \<Longrightarrow>
    pfs_reachable hash as_digest S'"

text \<open>
  A manager of a set of features: initialised with recorded activations, then changed by
  activations and by returning to an earlier block. The largest 32-bit number, which marks an
  inactive feature, is not the number of a block.
\<close>

inductive pfm_reachable :: "protocol_feature_set \<Rightarrow> protocol_feature_manager \<Rightarrow> bool"
  for S where
  pfm_start: "pfm_init xs (protocol_feature_manager_new S) = Inr m \<Longrightarrow>
    \<forall>(d, n) \<in> set xs. n \<noteq> not_active \<Longrightarrow> pfm_reachable S m"
| pfm_activate: "pfm_reachable S m \<Longrightarrow> activate_feature d n m = Inr m' \<Longrightarrow> n \<noteq> not_active \<Longrightarrow>
    pfm_reachable S m'"
| pfm_pop: "pfm_reachable S m \<Longrightarrow> popped_blocks_to b m = Inr m' \<Longrightarrow> pfm_reachable S m'"

lemma pfs_reachable_wf: "pfs_reachable hash as_digest S \<Longrightarrow> pfs_wf as_digest S"
  by (induction rule: pfs_reachable.induct) (auto intro: pfs_wf_new add_feature_wf)

lemma activate_feature_keeps:
  assumes "activate_feature d n m = Inr m'"
  shows "pfm_initialized m' \<and> pfm_protocol_feature_set m' = pfm_protocol_feature_set m \<and>
    length (pfm_builtin m') = length (pfm_builtin m)"
  by (rule activate_feature_Inr[OF assms]) simp

lemma popped_blocks_to_keeps:
  "popped_blocks_to b m = Inr m' \<Longrightarrow>
   pfm_initialized m' \<and> pfm_protocol_feature_set m' = pfm_protocol_feature_set m"
  by (auto simp: popped_blocks_to_def)

lemma pfm_reachable_inv:
  assumes "pfm_reachable S m"
  shows "pfm_inv m \<and> pfm_initialized m \<and> pfm_protocol_feature_set m = S"
  using assms
proof (induction rule: pfm_reachable.induct)
  case (pfm_start xs m)
  then have run: "for_each (\<lambda>(d, n). activate_feature d n) xs
      ((protocol_feature_manager_new S)\<lparr>pfm_initialized := True\<rparr>) = Inr m"
    by (simp add: pfm_init_def)
  have "pfm_inv m" by (rule for_each_activate_inv[OF _ pfm_start(2) run]) (simp add: pfm_inv_new)
  moreover have "pfm_initialized m \<and> pfm_protocol_feature_set m = S"
    using run
  proof (rule for_each_invariant)
    show "pfm_initialized ((protocol_feature_manager_new S)\<lparr>pfm_initialized := True\<rparr>) \<and>
        pfm_protocol_feature_set ((protocol_feature_manager_new S)\<lparr>pfm_initialized := True\<rparr>) = S"
      by (simp add: protocol_feature_manager_new_def)
  next
    fix x m1 m2
    assume "pfm_initialized m1 \<and> pfm_protocol_feature_set m1 = S" "(\<lambda>(d, n). activate_feature d n) x m1 = Inr m2"
    then show "pfm_initialized m2 \<and> pfm_protocol_feature_set m2 = S"
      using activate_feature_keeps by (cases x) auto
  qed
  ultimately show ?case by simp
next
  case (pfm_activate m d n m')
  then show ?case using activate_feature_inv activate_feature_keeps by metis
next
  case (pfm_pop m b m')
  then show ?case using popped_blocks_to_inv popped_blocks_to_keeps by metis
qed

lemma for_each_activate_keeps:
  assumes "for_each (\<lambda>(d, n). activate_feature d n) xs m = Inr m'" "pfm_initialized m"
  shows "pfm_initialized m' \<and> pfm_protocol_feature_set m' = pfm_protocol_feature_set m \<and>
    length (pfm_builtin m') = length (pfm_builtin m) \<and>
    pfm_activated m' = pfm_activated m @ map (\<lambda>(d, n). \<lparr>pfe_iterator = d, pfe_activation_block_num = n\<rparr>) xs"
  using assms
proof (induction xs arbitrary: m)
  case (Cons x xs)
  obtain d n where x: "x = (d, n)" by (cases x)
  then obtain m1 where act: "activate_feature d n m = Inr m1"
      and run: "for_each (\<lambda>(d, n). activate_feature d n) xs m1 = Inr m'"
    using Cons.prems(1) by auto
  have "pfm_activated m1 = pfm_activated m @ [\<lparr>pfe_iterator = d, pfe_activation_block_num = n\<rparr>]"
    by (rule activate_feature_Inr[OF act]) simp
  then show ?case using Cons.IH[OF run] activate_feature_keeps[OF act] x by simp
qed simp

lemma entry_feature_index:
  "entry_feature S e \<noteq> None \<Longrightarrow> fst (entry_activation S e) = feature_index c \<longleftrightarrow> entry_feature S e = Some c"
  by (auto simp: entry_activation_def feature_index_inj)

lemma is_builtin_activated_inv:
  assumes inv: "pfm_inv m" and cur: "cur \<noteq> not_active"
  shows "is_builtin_activated m c cur \<longleftrightarrow>
    (\<exists>e \<in> set (pfm_activated m). entry_feature (pfm_protocol_feature_set m) e = Some c \<and>
       pfe_activation_block_num e \<le> cur)"
proof -
  let ?S = "pfm_protocol_feature_set m" and ?i = "feature_index c"
  have feat: "fst (entry_activation ?S e) = ?i \<longleftrightarrow> entry_feature ?S e = Some c"
      "fst (entry_activation ?S e) < length (pfm_builtin m)" if "e \<in> set (pfm_activated m)" for e
    using inv that entry_feature_index by (auto simp: pfm_inv_def Let_def)
  show ?thesis
  proof (cases "\<exists>e \<in> set (pfm_activated m). entry_feature ?S e = Some c")
    case True
    then obtain e where e: "e \<in> set (pfm_activated m)" "entry_feature ?S e = Some c" by blast
    then have i: "?i < length (pfm_builtin m)" using feat[OF e(1)] by simp
    have num: "pfe_activation_block_num x = bfe_activation_block_num (pfm_builtin m ! ?i)"
      if "x \<in> set (pfm_activated m)" "entry_feature ?S x = Some c" for x
      using pfm_builtin_nth(1)[OF inv i] feat that by simp
    then show ?thesis using e i by (auto simp: is_builtin_activated_def Let_def)
  next
    case False
    have "\<not> is_builtin_activated m c cur"
    proof (cases "?i < length (pfm_builtin m)")
      case True
      have "?i \<notin> (fst \<circ> entry_activation ?S) ` set (pfm_activated m)"
      proof
        assume "?i \<in> (fst \<circ> entry_activation ?S) ` set (pfm_activated m)"
        then obtain x where x: "x \<in> set (pfm_activated m)" "fst (entry_activation ?S x) = ?i" by auto
        then show False using feat(1)[OF x(1)] \<open>\<not> (\<exists>e \<in> set (pfm_activated m). entry_feature ?S e = Some c)\<close> by blast
      qed
      then have "bfe_activation_block_num (pfm_builtin m ! ?i) = not_active"
        using pfm_builtin_nth(2)[OF inv True] by (simp add: builtin_entry_default_def)
      then show ?thesis using cur True
        by (simp add: is_builtin_activated_def not_active_def word_order.extremum_unique)
    qed (simp add: is_builtin_activated_def)
    with False show ?thesis by blast
  qed
qed

section \<open>Default features\<close>

text \<open>The callback that looks a dependency up in the set.\<close>

definition lookup_dependency :: "protocol_feature_set \<Rightarrow> builtin_protocol_feature_t \<Rightarrow> digest res" where
  "lookup_dependency S b =
     (case get_builtin_digest S b of None \<Rightarrow> Inl protocol_feature_exception | Some d \<Rightarrow> Inr d)"

lemma default_dependencies:
  "\<forall>b \<in> set bs. get_builtin_digest S b \<noteq> None \<Longrightarrow>
   for_each (\<lambda>b deps. res_bind (lookup_dependency S b) (\<lambda>d. Inr (insert d deps))) bs ds =
   Inr (ds \<union> {x. \<exists>b \<in> set bs. get_builtin_digest S b = Some x})"
proof (induction bs arbitrary: ds)
  case (Cons b bs)
  then obtain d where "get_builtin_digest S b = Some d" by auto
  then show ?case using Cons by (auto simp: lookup_dependency_def)
qed simp

lemma default_feature_new:
  assumes wf: "pfs_wf as_digest S" and sp: "builtin_protocol_feature_codenames as_digest c = Some sp"
    and new: "get_builtin_digest S c = None"
    and deps: "bf_dependencies f = {x. \<exists>b \<in> set (spec_builtin_dependencies sp). get_builtin_digest S b = Some x}"
    and present: "\<forall>b \<in> set (spec_builtin_dependencies sp). get_builtin_digest S b \<noteq> None"
    and f: "bf_codename f = c" and fresh: "pfs_recognized S (feature_digest hash f) = None"
  shows "\<exists>S'. add_feature hash as_digest f S = Inr S'"
proof -
  let ?ex = "spec_builtin_dependencies sp"
  have rec: "\<exists>pf. pfs_recognized S x = Some pf \<and> pf_builtin_feature pf = Some b"
    if "get_builtin_digest S b = Some x" for b x
    using wf that unfolding pfs_wf_def by blast
  have "set ?ex \<subseteq> satisfied_builtins S f ?ex"
  proof
    fix b assume b: "b \<in> set ?ex"
    then obtain x where x: "get_builtin_digest S b = Some x" using present by auto
    then obtain pf where "pfs_recognized S x = Some pf" "pf_builtin_feature pf = Some b" using rec by blast
    then show "b \<in> satisfied_builtins S f ?ex" using b x deps by (auto simp: satisfied_builtins_def)
  qed
  moreover have "satisfied_builtins S f ?ex \<subseteq> set ?ex" by (auto simp: satisfied_builtins_def)
  ultimately have "satisfied_builtins S f ?ex = set ?ex" by blast
  then have sz: "\<not> length ?ex > card (satisfied_builtins S f ?ex)"
    using dependencies_distinct[OF sp] by (simp add: distinct_card)
  have known: "\<forall>x \<in> bf_dependencies f. pfs_recognized S x \<noteq> None" using rec deps by fastforce
  have "feature_index c < length (pfs_recognized_builtin S) \<longrightarrow>
      pfs_recognized_builtin S ! feature_index c = None"
    using new by (simp add: get_builtin_digest_alt split: if_splits)
  then show ?thesis
    using sz known fresh unfolding add_feature_def f sp Let_def option.case by (simp add: f)
qed

section \<open>Properties\<close>

text \<open>
  C16. In every manager that initialisation, activations and returns to earlier blocks
  produce, the constant-time query whether a builtin feature is active at a block agrees
  with the list of activations: it is true exactly when that feature was activated at that block
  or before.
\<close>

theorem is_builtin_activated_iff:
  assumes "pfm_reachable S m" and "cur \<noteq> not_active"
  shows "is_builtin_activated m c cur \<longleftrightarrow>
    (\<exists>e \<in> set (pfm_activated m). entry_feature S e = Some c \<and> pfe_activation_block_num e \<le> cur)"
  using is_builtin_activated_inv[of m cur c] pfm_reachable_inv[OF assms(1)] assms(2) by simp

text \<open>
  C17. Returning to a block always succeeds, keeps exactly the activations up to that
  block in their order, and a feature is then active at a block exactly when it was active there and
  at the block returned to.
\<close>

theorem popped_blocks_to_exact:
  assumes "pfm_reachable S m"
  shows "\<exists>m'. popped_blocks_to b m = Inr m' \<and>
    pfm_activated m' = filter (\<lambda>e. pfe_activation_block_num e \<le> b) (pfm_activated m) \<and>
    (\<forall>c cur. cur \<noteq> not_active \<longrightarrow> is_builtin_activated m' c cur = is_builtin_activated m c (min b cur))"
proof -
  have r: "pfm_inv m" "pfm_initialized m" using pfm_reachable_inv[OF assms] by auto
  define m' where "m' = res_value m (popped_blocks_to b m)"
  have pop: "popped_blocks_to b m = Inr m'"
      and act: "pfm_activated m' = filter (\<lambda>e. pfe_activation_block_num e \<le> b) (pfm_activated m)"
    unfolding m'_def popped_blocks_to_inv_eq[OF r] by (simp_all add: res_value_def)
  have "is_builtin_activated m' c cur = is_builtin_activated m c (min b cur)" if cur: "cur \<noteq> not_active" for c cur
  proof -
    have "min b cur \<noteq> not_active"
      using cur by (metis min.cobounded2 not_active_def word_order.extremum_unique)
    then show ?thesis
      using is_builtin_activated_inv[OF popped_blocks_to_inv[OF r(1) pop] cur, of c]
        is_builtin_activated_inv[OF r(1), of "min b cur" c] popped_blocks_to_keeps[OF pop] act
      by auto
  qed
  then show ?thesis using pop act by blast
qed

text \<open>
  C18. Activating features in blocks after \<open>b\<close> and then returning to \<open>b\<close>
  gives back the manager as it was, every entry and link included.
\<close>

theorem rollback_activations:
  assumes "pfm_reachable S m"
    and "\<forall>e \<in> set (pfm_activated m). pfe_activation_block_num e \<le> b"
    and "for_each (\<lambda>(d, n). activate_feature d n) xs m = Inr m'"
    and "\<forall>(d, n) \<in> set xs. b < n \<and> n \<noteq> not_active"
  shows "popped_blocks_to b m' = Inr m"
proof -
  let ?S = "pfm_protocol_feature_set m"
  have r: "pfm_inv m" "pfm_initialized m" using pfm_reachable_inv[OF assms(1)] by auto
  note keeps = for_each_activate_keeps[OF assms(3) r(2)]
  have inv': "pfm_inv m'"
    by (rule for_each_activate_inv[OF r(1) _ assms(3)]) (use assms(4) in auto)
  have init': "pfm_initialized m'" using keeps by simp
  have "filter (\<lambda>e. pfe_activation_block_num e \<le> b)
      (map (\<lambda>(d, n). \<lparr>pfe_iterator = d, pfe_activation_block_num = n\<rparr>) xs) = []"
    using assms(4) by (auto simp: filter_empty_conv linorder_not_le)
  then have es: "filter (\<lambda>e. pfe_activation_block_num e \<le> b) (pfm_activated m') = pfm_activated m"
    using keeps assms(2) by simp
  have "activations (length (pfm_builtin m')) (map (entry_activation (pfm_protocol_feature_set m')) (pfm_activated m)) =
      (pfm_builtin m, pfm_head m)"
    using r(1) keeps by (simp add: pfm_inv_def Let_def)
  then show ?thesis
    using popped_blocks_to_inv_eq[OF inv' init', of b] keeps r(2) unfolding es by simp
qed

text \<open>
  C19. In a set built by adding features, each recognised feature is stored under its
  own digest and builtin index, and all its dependencies, among them those that the table of
  builtin features demands, are recognised too.
\<close>

theorem recognized_feature_wf:
  assumes "pfs_reachable hash as_digest S" and "pfs_recognized S d = Some pf"
  shows "pf_feature_digest pf = d \<and> (\<forall>x \<in> pf_dependencies pf. pfs_recognized S x \<noteq> None) \<and>
    (\<exists>c sp. pf_builtin_feature pf = Some c \<and> builtin_protocol_feature_codenames as_digest c = Some sp \<and>
       get_builtin_digest S c = Some d \<and>
       (\<forall>b \<in> set (spec_builtin_dependencies sp). \<exists>x \<in> pf_dependencies pf. get_builtin_digest S b = Some x))"
proof -
  have "feature_wf as_digest S d pf" using pfs_reachable_wf[OF assms(1)] assms(2) by (simp add: pfs_wf_def)
  then show ?thesis unfolding feature_wf_def by blast
qed

text \<open>
  A builtin feature that is not in the set yet, and whose builtin dependencies are, can be
  added with its default description: the default is built without an error, and adding it
  succeeds unless its digest is taken. The feature is then found under its codename and no other
  codename changes its meaning.
\<close>

theorem default_feature_added:
  assumes "pfs_reachable hash as_digest S"
    and "builtin_protocol_feature_codenames as_digest c = Some sp"
    and "get_builtin_digest S c = None"
    and "\<forall>b \<in> set (spec_builtin_dependencies sp). get_builtin_digest S b \<noteq> None"
  shows "\<exists>f. make_default_builtin_protocol_feature as_digest c (lookup_dependency S) = Inr f \<and>
    (pfs_recognized S (feature_digest hash f) = None \<longrightarrow>
      (\<exists>S'. add_feature hash as_digest f S = Inr S' \<and>
         get_builtin_digest S' c = Some (feature_digest hash f) \<and>
         (\<forall>c'. c' \<noteq> c \<longrightarrow> get_builtin_digest S' c' = get_builtin_digest S c')))"
proof -
  define deps where "deps = {x. \<exists>b \<in> set (spec_builtin_dependencies sp). get_builtin_digest S b = Some x}"
  define f where "f = \<lparr>bf_protocol_feature_type = feature_type_string,
    bf_description_digest = spec_description_digest sp, bf_dependencies = deps,
    bf_subjective_restrictions = spec_subjective_restrictions sp, bf_type = builtin,
    bf_builtin_feature_codename = spec_codename sp, bf_codename = c\<rparr>"
  have mk: "make_default_builtin_protocol_feature as_digest c (lookup_dependency S) = Inr f"
    unfolding make_default_builtin_protocol_feature_def assms(2) option.case default_dependencies[OF assms(4)]
    by (simp add: make_builtin_protocol_feature_def assms(2) f_def deps_def)
  have "\<exists>S'. add_feature hash as_digest f S = Inr S' \<and> get_builtin_digest S' c = Some (feature_digest hash f) \<and>
         (\<forall>c'. c' \<noteq> c \<longrightarrow> get_builtin_digest S' c' = get_builtin_digest S c')"
    if fresh: "pfs_recognized S (feature_digest hash f) = None"
  proof -
    obtain S' where add: "add_feature hash as_digest f S = Inr S'"
      using default_feature_new[OF pfs_reachable_wf[OF assms(1)] assms(2,3) _ assms(4) _ fresh]
      by (auto simp: f_def deps_def)
    show ?thesis
      by (rule add_feature_Inr[OF add]) (use add in \<open>simp add: f_def\<close>)
  qed
  then show ?thesis by (intro exI[of _ f] conjI mk impI)
qed

section \<open>Examples\<close>

text \<open>
  A set with two features, with a digest that is the index of the feature, and a manager
  that has activated them in blocks 5 and 9.
\<close>

definition example_hash :: feature_hash where
  "example_hash t d deps c = \<lparr>hash0 = of_nat (feature_index c), hash1 = 0, hash2 = 0, hash3 = 0\<rparr>"

definition example_as_digest :: "string \<Rightarrow> digest" where
  "example_as_digest s = digest_default"

definition example_digest :: "u64 \<Rightarrow> digest" where
  "example_digest n = \<lparr>hash0 = n, hash1 = 0, hash2 = 0, hash3 = 0\<rparr>"

definition example_feature :: "builtin_protocol_feature_t \<Rightarrow> builtin_protocol_feature" where
  "example_feature c = \<lparr>bf_protocol_feature_type = feature_type_string,
    bf_description_digest = digest_default, bf_dependencies = {},
    bf_subjective_restrictions = \<lparr>sr_earliest_allowed_activation_time = 0,
      sr_preactivation_required = False, sr_enabled = True\<rparr>, bf_type = builtin,
    bf_builtin_feature_codename = [], bf_codename = c\<rparr>"

definition example_entry :: "builtin_protocol_feature_t \<Rightarrow> protocol_feature" where
  "example_entry c = \<lparr>pf_feature_digest = example_digest (of_nat (feature_index c)),
    pf_description_digest = digest_default, pf_dependencies = {},
    pf_earliest_allowed_activation_time = 0, pf_preactivation_required = False,
    pf_enabled = True, pf_builtin_feature = Some c\<rparr>"

definition example_set :: protocol_feature_set where
  "example_set = \<lparr>pfs_recognized =
     [example_digest 0 \<mapsto> example_entry preactivate_feature, example_digest 2 \<mapsto> example_entry replace_deferred],
     pfs_recognized_builtin = [Some (example_digest 0), None, Some (example_digest 2)]\<rparr>"

definition example_manager :: protocol_feature_manager where
  "example_manager = \<lparr>pfm_protocol_feature_set = example_set,
     pfm_activated = [\<lparr>pfe_iterator = example_digest 0, pfe_activation_block_num = 5\<rparr>],
     pfm_builtin = [\<lparr>bfe_previous = None, bfe_activation_block_num = 5\<rparr>,
       builtin_entry_default, builtin_entry_default],
     pfm_head = Some 0, pfm_initialized = True\<rparr>"

definition example_manager2 :: protocol_feature_manager where
  "example_manager2 = example_manager\<lparr>
     pfm_activated := [\<lparr>pfe_iterator = example_digest 0, pfe_activation_block_num = 5\<rparr>,
       \<lparr>pfe_iterator = example_digest 2, pfe_activation_block_num = 9\<rparr>],
     pfm_builtin := [\<lparr>bfe_previous = None, bfe_activation_block_num = 5\<rparr>,
       builtin_entry_default, \<lparr>bfe_previous = Some 0, bfe_activation_block_num = 9\<rparr>],
     pfm_head := Some 2\<rparr>"

lemmas example_simps = example_hash_def example_digest_def example_feature_def example_entry_def
  example_set_def example_manager_def example_manager2_def

lemma list_three:
  "[a, b, c][2 := x] = [a, b, x]" "[a, b, c] ! 2 = c" "replicate 3 a = [a, a, a]" "replicate 2 a = [a, a]"
  by (simp_all add: numeral_2_eq_2 numeral_3_eq_3)

lemma example_set_reachable: "pfs_reachable example_hash example_as_digest example_set"
proof -
  have "add_feature example_hash example_as_digest (example_feature preactivate_feature) protocol_feature_set_new =
      Inr \<lparr>pfs_recognized = [example_digest 0 \<mapsto> example_entry preactivate_feature],
           pfs_recognized_builtin = [Some (example_digest 0)]\<rparr>"
    by (simp add: add_feature_def protocol_feature_set_new_def example_simps feature_digest_def
        spec_with_defaults_def satisfied_builtins_def extend_to_def Let_def)
  from pfs_add[OF pfs_start this]
  have one: "pfs_reachable example_hash example_as_digest \<lparr>pfs_recognized = [example_digest 0 \<mapsto> example_entry preactivate_feature],
           pfs_recognized_builtin = [Some (example_digest 0)]\<rparr>" .
  have "add_feature example_hash example_as_digest (example_feature replace_deferred)
      \<lparr>pfs_recognized = [example_digest 0 \<mapsto> example_entry preactivate_feature],
       pfs_recognized_builtin = [Some (example_digest 0)]\<rparr> = Inr example_set"
    by (simp add: add_feature_def example_simps feature_digest_def
        spec_with_defaults_def satisfied_builtins_def extend_to_def Let_def list_three)
  from pfs_add[OF one this] show ?thesis .
qed

lemma example_activations:
  "activate_feature (example_digest 0) 5 ((protocol_feature_manager_new example_set)\<lparr>pfm_initialized := True\<rparr>) =
     Inr example_manager"
  "activate_feature (example_digest 2) 9 example_manager = Inr example_manager2"
  by (simp_all add: activate_feature_def protocol_feature_manager_new_def example_simps
      builtin_entry_default_def list_three not_active_def)

lemma example_manager_reachable: "pfm_reachable example_set example_manager" "pfm_reachable example_set example_manager2"
proof -
  show one: "pfm_reachable example_set example_manager"
    by (rule pfm_start[of "[(example_digest 0, 5)]"])
      (simp_all add: pfm_init_def example_activations protocol_feature_manager_new_def[of example_set, THEN arg_cong[of _ _ pfm_initialized]] not_active_def)
  show "pfm_reachable example_set example_manager2"
    by (rule pfm_activate[OF one example_activations(2)]) (simp add: not_active_def)
qed

theorem is_builtin_activated_iff_witness:
  "is_builtin_activated example_manager2 replace_deferred 9 \<longleftrightarrow>
    (\<exists>e \<in> set (pfm_activated example_manager2). entry_feature example_set e = Some replace_deferred \<and>
       pfe_activation_block_num e \<le> 9)"
  by (rule is_builtin_activated_iff[OF example_manager_reachable(2)]) (simp add: not_active_def)

theorem popped_blocks_to_exact_witness:
  "\<exists>m'. popped_blocks_to 7 example_manager2 = Inr m' \<and> length (pfm_activated m') = 1"
proof -
  obtain m' where "popped_blocks_to 7 example_manager2 = Inr m'"
      "pfm_activated m' = filter (\<lambda>e. pfe_activation_block_num e \<le> 7) (pfm_activated example_manager2)"
    using popped_blocks_to_exact[OF example_manager_reachable(2), of 7] by blast
  then show ?thesis by (simp add: example_manager2_def)
qed

theorem rollback_activations_witness: "popped_blocks_to 7 example_manager2 = Inr example_manager"
  by (rule rollback_activations[OF example_manager_reachable(1), of _ "[(example_digest 2, 9)]"])
    (simp_all add: example_activations not_active_def, simp add: example_manager_def)

text \<open>A third feature, which depends on the second.\<close>

lemma example_dependent_added:
  "\<exists>S pf. add_feature example_hash example_as_digest
      ((example_feature no_duplicate_deferred_id)\<lparr>bf_dependencies := {example_digest 2}\<rparr>) example_set = Inr S \<and>
    pfs_recognized S (example_digest 3) = Some pf \<and> pf_dependencies pf = {example_digest 2} \<and>
    pf_builtin_feature pf = Some no_duplicate_deferred_id"
  by (simp add: add_feature_def example_simps feature_digest_def
      spec_with_defaults_def satisfied_builtins_def extend_to_def Let_def list_three)

theorem recognized_feature_wf_witness:
  "\<exists>S pf. pfs_reachable example_hash example_as_digest S \<and> pfs_recognized S (example_digest 3) = Some pf \<and>
     pf_builtin_feature pf = Some no_duplicate_deferred_id \<and> pf_feature_digest pf = example_digest 3 \<and>
     get_builtin_digest S no_duplicate_deferred_id = Some (example_digest 3) \<and>
     get_builtin_digest S replace_deferred = Some (example_digest 2) \<and> pfs_recognized S (example_digest 2) \<noteq> None"
proof -
  obtain S pf where S: "add_feature example_hash example_as_digest
      ((example_feature no_duplicate_deferred_id)\<lparr>bf_dependencies := {example_digest 2}\<rparr>) example_set = Inr S"
    and pf: "pfs_recognized S (example_digest 3) = Some pf" "pf_dependencies pf = {example_digest 2}"
      "pf_builtin_feature pf = Some no_duplicate_deferred_id"
    using example_dependent_added by (elim exE conjE)
  note r = pfs_add[OF example_set_reachable S]
  have "replace_deferred \<in> set (spec_builtin_dependencies sp)"
    if "builtin_protocol_feature_codenames example_as_digest no_duplicate_deferred_id = Some sp" for sp
    using that by (auto simp: spec_with_defaults_def)
  then show ?thesis using recognized_feature_wf[OF r pf(1)] pf r by (intro exI[of _ S] exI[of _ pf]) auto
qed

theorem default_feature_added_witness:
  "\<exists>f. make_default_builtin_protocol_feature example_as_digest no_duplicate_deferred_id (lookup_dependency example_set) = Inr f"
proof -
  have "builtin_protocol_feature_codenames example_as_digest no_duplicate_deferred_id \<noteq> None" by simp
  then obtain sp where sp: "builtin_protocol_feature_codenames example_as_digest no_duplicate_deferred_id = Some sp" by blast
  have "get_builtin_digest example_set no_duplicate_deferred_id = None"
    by (simp add: get_builtin_digest_alt example_set_def)
  moreover have "\<forall>b \<in> set (spec_builtin_dependencies sp). get_builtin_digest example_set b \<noteq> None"
    using sp by (auto simp: spec_with_defaults_def get_builtin_digest_alt example_set_def)
  ultimately show ?thesis
    using default_feature_added[OF example_set_reachable sp] by blast
qed

end
