(* ===== verification/Block_Headers.thy ===== *)
theory Block_Headers
  imports Protocol_Features Authority
begin

text \<open>
  Block timestamps (\<^verbatim>\<open>block_timestamp.hpp\<close>), block headers and their extensions
  (\<^verbatim>\<open>block_header.hpp\<close>, \<^verbatim>\<open>block_header.cpp\<close>, \<^verbatim>\<open>types.hpp\<close>), and the sets of activated protocol features
  (\<^verbatim>\<open>protocol_feature_activation.cpp\<close>). What the code takes from the \<^verbatim>\<open>fc\<close> library is a record of
  functions: hashes, the recovery of a public key from a signature, packing and
  unpacking, and the reversal of the bytes of a word. Public keys are of type \<open>'k\<close> and signatures of type \<open>'s\<close>.
\<close>

section \<open>Block timestamps\<close>

text \<open>
  A block timestamp is its 32-bit slot, a time point the signed 64-bit count of
  microseconds since the epoch. The conversion of a time point mixes signed and unsigned
  64-bit integers, so the difference is taken modulo $2^{64}$; division of signed integers rounds
  towards zero.
\<close>

definition block_interval_ms :: u16 where
  "block_interval_ms = 500"

definition block_timestamp_epoch :: u64 where
  "block_timestamp_epoch = 946684800000"

definition trunc_div :: "int \<Rightarrow> int \<Rightarrow> int" where
  "trunc_div a b = sgn a * sgn b * (\<bar>a\<bar> div \<bar>b\<bar>)"

definition timestamp_to_time_point :: "u32 \<Rightarrow> int" where
  "timestamp_to_time_point slot =
     (let msec = uint slot * uint block_interval_ms + uint block_timestamp_epoch in msec * 1000)"

definition timestamp_of_time_point :: "int \<Rightarrow> u32" where
  "timestamp_of_time_point t =
     (let msec_since_epoch = trunc_div t 1000
      in ucast ((word_of_int msec_since_epoch - block_timestamp_epoch) div ucast block_interval_ms :: u64))"

definition timestamp_of_time_point_sec :: "u32 \<Rightarrow> u32" where
  "timestamp_of_time_point_sec t =
     (let sec_since_epoch = ucast t :: u64
      in ucast ((sec_since_epoch * 1000 - block_timestamp_epoch) div ucast block_interval_ms))"

definition timestamp_next :: "u32 \<Rightarrow> u32 res" where
  "timestamp_next slot = eos_assert (-1 - slot \<ge> 1) overflow_exception (Inr (slot + 1))"

section \<open>Headers and extensions\<close>

type_synonym bytes = "u8 list"

type_synonym extensions_type = "(u16 \<times> bytes) list"

text \<open>The position of \<^verbatim>\<open>std::upper_bound\<close> in the sorted vector of extensions.\<close>

definition emplace_extension :: "extensions_type \<Rightarrow> u16 \<Rightarrow> bytes \<Rightarrow> extensions_type" where
  "emplace_extension exts eid data =
     takeWhile (\<lambda>e. \<not> eid < fst e) exts @ (eid, data) # dropWhile (\<lambda>e. \<not> eid < fst e) exts"

record 'k block_header =
  bh_timestamp :: u32
  bh_producer :: name
  bh_confirmed :: u16
  bh_previous :: digest
  bh_transaction_mroot :: digest
  bh_action_mroot :: digest
  bh_schedule_version :: u32
  bh_new_producers :: "'k producer_schedule_type option"
  bh_header_extensions :: extensions_type

record ('k, 's) signed_block_header =
  sbh_header :: "'k block_header"
  sbh_producer_signature :: 's

record ('k, 's) fc_library =
  hash_pair :: "digest \<times> digest \<Rightarrow> digest"
  hash_header :: "'k block_header \<Rightarrow> digest"
  hash_legacy_schedule :: "'k producer_schedule_type \<Rightarrow> digest"
  hash_schedule :: "'k producer_authority_schedule \<Rightarrow> digest"
  endian_reverse_u32 :: "u32 \<Rightarrow> u32"
  recover_key :: "'s \<Rightarrow> digest \<Rightarrow> 'k res"
  pack_features :: "digest list \<Rightarrow> bytes"
  unpack_features :: "bytes \<Rightarrow> digest list res"
  pack_schedule :: "'k producer_authority_schedule \<Rightarrow> bytes"
  unpack_schedule :: "bytes \<Rightarrow> 'k producer_authority_schedule res"

definition header_digest :: "('k, 's) fc_library \<Rightarrow> 'k block_header \<Rightarrow> digest" where
  "header_digest fc h = hash_header fc h"

definition num_from_id :: "('k, 's) fc_library \<Rightarrow> digest \<Rightarrow> u32" where
  "num_from_id fc d = endian_reverse_u32 fc (ucast (hash0 d))"

definition header_block_num :: "('k, 's) fc_library \<Rightarrow> 'k block_header \<Rightarrow> u32" where
  "header_block_num fc h = num_from_id fc (bh_previous h) + 1"

definition calculate_id :: "('k, 's) fc_library \<Rightarrow> 'k block_header \<Rightarrow> digest" where
  "calculate_id fc h =
     (let result = header_digest fc h;
          result = result\<lparr>hash0 := hash0 result AND 0xFFFFFFFF00000000\<rparr>
      in result\<lparr>hash0 := hash0 result + ucast (endian_reverse_u32 fc (header_block_num fc h))\<rparr>)"

datatype 'k block_header_extension =
    protocol_feature_activation "digest list"
  | producer_schedule_change_extension "'k producer_authority_schedule"

definition protocol_feature_activation_id :: u16 where
  "protocol_feature_activation_id = 0"

definition producer_schedule_change_id :: u16 where
  "producer_schedule_change_id = 1"

text \<open>The check that runs after unpacking the digests of new features.\<close>

definition activation_reflector_init :: "digest list \<Rightarrow> digest list res" where
  "activation_reflector_init fs =
     eos_assert (length fs > 0) ill_formed_protocol_feature_activation
     (res_bind (for_each (\<lambda>d s. eos_assert (d \<notin> s) ill_formed_protocol_feature_activation (Inr (insert d s))) fs {})
        (\<lambda>_. Inr fs))"

text \<open>
  The extension of a known kind with whether its kind must be unique; an unknown
  kind gives no match.
\<close>

definition extract_extension ::
  "('k, 's) fc_library \<Rightarrow> u16 \<Rightarrow> bytes \<Rightarrow> ('k block_header_extension \<times> bool) option res" where
  "extract_extension fc eid data =
     (if eid = protocol_feature_activation_id then
        res_bind (unpack_features fc data) (\<lambda>raw.
        res_bind (activation_reflector_init raw) (\<lambda>fs.
        Inr (Some (protocol_feature_activation fs, True))))
      else if eid = producer_schedule_change_id then
        res_bind (unpack_schedule fc data) (\<lambda>sch.
        Inr (Some (producer_schedule_change_extension sch, True)))
      else Inr None)"

type_synonym 'k header_exts = "(u16 \<times> 'k block_header_extension) list"

text \<open>
  The loop over the extensions, with the index, the lower bound of the next id and the
  results so far. As ids ascend, an insertion into the multimap is at its end.
\<close>

fun extract_loop ::
  "('k, 's) fc_library \<Rightarrow> nat \<Rightarrow> u16 \<Rightarrow> 'k header_exts \<Rightarrow> extensions_type \<Rightarrow> 'k header_exts res" where
  "extract_loop fc i lower_bound results [] = Inr results"
| "extract_loop fc i lower_bound results ((eid, data) # exts) =
     eos_assert (eid \<ge> lower_bound) invalid_block_header_extension
     (res_bind (extract_extension fc eid data) (\<lambda>match.
      case match of
        None \<Rightarrow> Inl invalid_block_header_extension
      | Some (ext, enforce_unique) \<Rightarrow>
          eos_assert (enforce_unique \<longrightarrow> i = 0 \<or> eid > lower_bound) invalid_block_header_extension
          (extract_loop fc (Suc i) eid (results @ [(eid, ext)]) exts)))"

definition validate_and_extract_header_extensions ::
  "('k, 's) fc_library \<Rightarrow> 'k block_header \<Rightarrow> 'k header_exts res" where
  "validate_and_extract_header_extensions fc h = extract_loop fc 0 0 [] (bh_header_extensions h)"

text \<open>\<^verbatim>\<open>count\<close> and the value at \<^verbatim>\<open>lower_bound\<close> of the multimap.\<close>

definition exts_count :: "'k header_exts \<Rightarrow> u16 \<Rightarrow> nat" where
  "exts_count exts eid = length (filter (\<lambda>e. fst e = eid) exts)"

definition exts_lower_bound :: "'k header_exts \<Rightarrow> u16 \<Rightarrow> 'k block_header_extension option" where
  "exts_lower_bound exts eid = map_option snd (find (\<lambda>e. eid \<le> fst e) exts)"

definition get_activation :: "'k block_header_extension option \<Rightarrow> digest list res" where
  "get_activation e =
     (case e of
        None \<Rightarrow> Inl undefined_behavior
      | Some (protocol_feature_activation fs) \<Rightarrow> Inr fs
      | Some (producer_schedule_change_extension sch) \<Rightarrow> Inl bad_variant_access)"

definition get_schedule_change :: "'k block_header_extension option \<Rightarrow> 'k producer_authority_schedule res" where
  "get_schedule_change e =
     (case e of
        None \<Rightarrow> Inl undefined_behavior
      | Some (protocol_feature_activation fs) \<Rightarrow> Inl bad_variant_access
      | Some (producer_schedule_change_extension sch) \<Rightarrow> Inr sch)"

text \<open>The union of the activated features with additional ones, which must be new.\<close>

definition make_activation_set :: "digest set \<Rightarrow> digest list \<Rightarrow> bool \<Rightarrow> digest set res" where
  "make_activation_set s1 s2 enforce_disjoint =
     (let expected_size = card s1 + length s2;
          features = s1 \<union> set s2
      in eos_assert (\<not> enforce_disjoint \<or> card features = expected_size) invalid_block_header_extension
           (Inr features))"

section \<open>Facts\<close>

lemma activation_reflector_init_loop:
  "for_each (\<lambda>d s. eos_assert (d \<notin> s) e (Inr (insert d s))) fs s = 
     (if distinct fs \<and> set fs \<inter> s = {} then Inr (s \<union> set fs) else Inl e)"
  by (induction fs arbitrary: s) (auto simp: eos_assert_def)

lemma activation_reflector_init_eq:
  "activation_reflector_init fs =
     (if fs \<noteq> [] \<and> distinct fs then Inr fs else Inl ill_formed_protocol_feature_activation)"
  unfolding activation_reflector_init_def activation_reflector_init_loop by (simp add: eos_assert_def)

lemma make_activation_set_Inr:
  assumes "finite s1"
  shows "make_activation_set s1 s2 True = Inr s \<longleftrightarrow> distinct s2 \<and> s1 \<inter> set s2 = {} \<and> s = s1 \<union> set s2"
proof -
  have "card (s1 \<union> set s2) = card s1 + length s2 \<longleftrightarrow> distinct s2 \<and> s1 \<inter> set s2 = {}"
  proof
    assume eq: "card (s1 \<union> set s2) = card s1 + length s2"
    have "card (s1 \<union> set s2) + card (s1 \<inter> set s2) = card s1 + card (set s2)"
      using card_Un_Int[OF assms, of "set s2"] by simp
    then have "card (set s2) = length s2" "card (s1 \<inter> set s2) = 0"
      using eq card_length[of s2] by linarith+
    then show "distinct s2 \<and> s1 \<inter> set s2 = {}" using assms by (simp add: card_distinct)
  qed (use assms in \<open>simp add: card_Un_disjoint distinct_card\<close>)
  then show ?thesis by (auto simp: make_activation_set_def Let_def)
qed

lemma take_bit_add_wide: "take_bit 32 (take_bit 64 x + take_bit 64 y) = take_bit 32 (x + y :: int)"
proof -
  have "take_bit 32 (take_bit 64 x + take_bit 64 y) =
      take_bit 32 (take_bit 32 (take_bit 64 x) + take_bit 32 (take_bit 64 y))"
    by (rule take_bit_add[symmetric])
  also have "\<dots> = take_bit 32 (take_bit 32 x + take_bit 32 y)" by simp
  also have "\<dots> = take_bit 32 (x + y)" by (rule take_bit_add)
  finally show ?thesis .
qed

lemma ucast_add_low: "(ucast (x + y :: u64) :: u32) = ucast x + ucast y"
  by transfer (simp add: take_bit_add_wide)

lemma low_word_add:
  fixes a :: u64 and b :: u32
  shows "ucast ((a AND 0xFFFFFFFF00000000) + ucast b) = b"
proof -
  have "ucast ((a AND 0xFFFFFFFF00000000) + ucast b) =
      (ucast (a AND 0xFFFFFFFF00000000) :: u32) + ucast (ucast b :: u64)"
    by (rule ucast_add_low)
  also have "(ucast (a AND 0xFFFFFFFF00000000) :: u32) = 0"
  proof -
    have z: "(ucast (0xFFFFFFFF00000000 :: u64) :: u32) = 0" by (simp add: word_uint_eq_iff)
    show ?thesis unfolding unsigned_and_eq z by simp
  qed
  also have "ucast (ucast b :: u64) = b" by transfer simp
  finally show ?thesis by simp
qed

text \<open>Extensions that the loop accepts have strictly ascending ids, each with its own kind of content.\<close>

lemma extract_extension_id:
  assumes "extract_extension fc eid data = Inr (Some (ext, u))"
  shows "u \<and> ((\<exists>fs. ext = protocol_feature_activation fs \<and> eid = protocol_feature_activation_id \<and>
             fs \<noteq> [] \<and> distinct fs \<and> unpack_features fc data = Inr fs) \<or>
          (\<exists>sch. ext = producer_schedule_change_extension sch \<and> eid = producer_schedule_change_id \<and>
             unpack_schedule fc data = Inr sch))"
  using assms
  by (auto simp: extract_extension_def activation_reflector_init_eq split: if_splits)

definition exts_wf :: "'k header_exts \<Rightarrow> bool" where
  "exts_wf exts \<longleftrightarrow> sorted_wrt (<) (map fst exts) \<and>
     (\<forall>(eid, ext) \<in> set exts. case ext of
        protocol_feature_activation fs \<Rightarrow> eid = protocol_feature_activation_id \<and> fs \<noteq> [] \<and> distinct fs
      | producer_schedule_change_extension sch \<Rightarrow> eid = producer_schedule_change_id)"

lemma extract_loop_wf:
  "extract_loop fc i lb results exts = Inr out \<Longrightarrow> exts_wf results \<Longrightarrow>
   (i = 0 \<longrightarrow> results = []) \<Longrightarrow> (\<forall>e \<in> set results. fst e \<le> lb) \<Longrightarrow> exts_wf out"
proof (induction fc i lb results exts rule: extract_loop.induct)
  case (2 fc i lb results eid data exts)
  obtain ext u where e: "extract_extension fc eid data = Inr (Some (ext, u))"
    using "2.prems"(1) by (auto split: option.splits)
  note x = extract_extension_id[OF e]
  have lb: "lb \<le> eid" "i = 0 \<or> lb < eid" using "2.prems"(1) e x by auto
  have run: "extract_loop fc (Suc i) eid (results @ [(eid, ext)]) exts = Inr out"
    using "2.prems"(1) e by simp
  have less: "\<forall>r \<in> set results. fst r < eid"
    using lb "2.prems"(3,4) by (auto intro: le_less_trans)
  have wf: "exts_wf (results @ [(eid, ext)])"
    using "2.prems"(2) less x by (auto simp: exts_wf_def sorted_wrt_append)
  show ?case
    by (rule "2.IH"[OF lb(1) e refl refl _ run wf]) (use x lb less in \<open>auto intro: less_imp_le\<close>)
qed simp

lemma validate_and_extract_wf:
  "validate_and_extract_header_extensions fc h = Inr out \<Longrightarrow> exts_wf out"
  unfolding validate_and_extract_header_extensions_def
  by (erule extract_loop_wf) (simp_all add: exts_wf_def)

section \<open>Properties\<close>

text \<open>
  C26. The id of a block carries its number: reading the number out of the computed id gives
  one more than the number in the id of the previous block.
\<close>

theorem num_from_calculated_id:
  assumes endian: "\<And>x. endian_reverse_u32 fc (endian_reverse_u32 fc x) = x"
  shows "num_from_id fc (calculate_id fc h) = header_block_num fc h"
  by (simp add: num_from_id_def calculate_id_def Let_def low_word_add endian)

text \<open>
  Converting a slot to a time point and back gives the slot again, for every
  32-bit slot, although the way back is computed modulo $2^{64}$.
\<close>

theorem timestamp_roundtrip: "timestamp_of_time_point (timestamp_to_time_point slot) = slot"
proof -
  define n where "n = unat slot"
  have n: "n < 2 ^ 32" using unsigned_less[of slot, where ?'a = nat] by (simp add: n_def)
  have u: "uint slot = int n" by (simp add: n_def)
  have pos: "0 \<le> int n * 500 + 946684800000" by simp
  have "trunc_div (timestamp_to_time_point slot) 1000 = int n * 500 + 946684800000"
    unfolding timestamp_to_time_point_def trunc_div_def Let_def u
    by (simp add: block_interval_ms_def block_timestamp_epoch_def sgn_if)
  then have "word_of_int (trunc_div (timestamp_to_time_point slot) 1000) - block_timestamp_epoch =
      (of_nat (n * 500) :: u64)"
    by (simp add: block_timestamp_epoch_def)
  moreover have "(of_nat (n * 500) :: u64) div ucast block_interval_ms = of_nat n"
  proof (rule word_unat_eq_iff[THEN iffD2])
    have "unat (of_nat (n * 500) :: u64) = n * 500"
      unfolding unat_of_nat by (rule mod_less) (use n in simp)
    moreover have "unat (of_nat n :: u64) = n" using n by (simp add: unat_of_nat)
    moreover have "unat (ucast block_interval_ms :: u64) = 500" by (simp add: block_interval_ms_def)
    ultimately show "unat ((of_nat (n * 500) :: u64) div ucast block_interval_ms) = unat (of_nat n :: u64)"
      by (simp add: unat_div_distrib)
  qed
  ultimately have "timestamp_of_time_point (timestamp_to_time_point slot) = ucast (of_nat n :: u64)"
    unfolding timestamp_of_time_point_def Let_def by simp
  also have "\<dots> = slot"
  proof -
    have "take_bit 64 n = n" by (rule take_bit_nat_eq_self) (use n in simp)
    then show ?thesis by (simp add: unsigned_of_nat) (simp add: n_def)
  qed
  finally show ?thesis .
qed

section \<open>Examples\<close>

text \<open>
  A concrete library, with keys and signatures that are numbers: bytes are reversed as
  documented, a signature is the key that made it, and the hashes and encodings are constants.
\<close>

definition byte_of :: "u32 \<Rightarrow> nat \<Rightarrow> u32" where
  "byte_of x i = take_bit 8 (drop_bit (8 * i) x)"

definition swap_bytes :: "u32 \<Rightarrow> u32" where
  "swap_bytes x = push_bit 24 (byte_of x 0) OR push_bit 16 (byte_of x 1) OR push_bit 8 (byte_of x 2) OR byte_of x 3"

lemma bit_swap: "bit (swap_bytes x) n \<longleftrightarrow> n < 32 \<and> bit x ((3 - n div 8) * 8 + n mod 8)"
proof (cases "n < 32")
  case True
  then consider "n < 8" | "8 \<le> n" "n < 16" | "16 \<le> n" "n < 24" | "24 \<le> n" "n < 32" by linarith
  then show ?thesis
  proof cases
    case 1 then show ?thesis by (auto simp: swap_bytes_def byte_of_def bit_simps)
  next
    case 2 
    define k where "k = n - 8"
    have k: "n = 8 + k" "k < 8" using 2 by (simp_all add: k_def)
    have dv: "(8 + k) div 8 = 1" by (rule div_nat_eqI) (use k in auto)
    have md: "(8 + k) mod 8 = k" using k(2) by (simp add: mod_nat_eqI)
    show ?thesis unfolding k(1) dv md using k(2) by (auto simp: swap_bytes_def byte_of_def bit_simps)
  next
    case 3
    define k where "k = n - 16"
    have k: "n = 16 + k" "k < 8" using 3 by (simp_all add: k_def)
    have dv: "(16 + k) div 8 = 2" by (rule div_nat_eqI) (use k in auto)
    have md: "(16 + k) mod 8 = k" using k(2) by (simp add: mod_nat_eqI)
    show ?thesis unfolding k(1) dv md using k(2) by (auto simp: swap_bytes_def byte_of_def bit_simps)
  next
    case 4
    define k where "k = n - 24"
    have k: "n = 24 + k" "k < 8" using 4 by (simp_all add: k_def)
    have dv: "(24 + k) div 8 = 3" by (rule div_nat_eqI) (use k in auto)
    have md: "(24 + k) mod 8 = k" using k(2) by (simp add: mod_nat_eqI)
    show ?thesis unfolding k(1) dv md using k(2) by (auto simp: swap_bytes_def byte_of_def bit_simps)
  qed
next
  case False
  then show ?thesis using bit_imp_le_length[of "swap_bytes x" n] by auto
qed

lemma swap_swap: "swap_bytes (swap_bytes x) = x"
proof (rule bit_word_eqI)
  fix n assume n: "n < LENGTH(32)"
  then have "n div 8 \<le> 3" by (simp add: div_le_mono[of n 31 8, simplified])
  define q r where "q = n div 8" "r = n mod 8"
  have "n = q * 8 + r" "r < 8" "q \<le> 3" using n by (auto simp: q_r_def)
  moreover from this have "((3 - q) * 8 + r) div 8 = 3 - q" "((3 - q) * 8 + r) mod 8 = r" "(3 - q) * 8 + r < 32" by auto
  ultimately show "bit (swap_bytes (swap_bytes x)) n = bit x n" by (simp add: bit_swap flip: q_r_def)
qed

definition example_fc :: "(nat, nat) fc_library" where
  "example_fc = \<lparr>hash_pair = (\<lambda>_. digest_default), hash_header = (\<lambda>_. digest_default),
     hash_legacy_schedule = (\<lambda>_. digest_default), hash_schedule = (\<lambda>_. digest_default),
     endian_reverse_u32 = swap_bytes, recover_key = (\<lambda>sig d. Inr sig),
     pack_features = (\<lambda>_. []), unpack_features = (\<lambda>_. Inr [digest_default]),
     pack_schedule = (\<lambda>_. []), unpack_schedule = (\<lambda>_. Inr producer_authority_schedule_default)\<rparr>"

definition example_header :: "nat block_header" where
  "example_header = \<lparr>bh_timestamp = 7, bh_producer = 1, bh_confirmed = 0, bh_previous = digest_default,
     bh_transaction_mroot = digest_default, bh_action_mroot = digest_default, bh_schedule_version = 0,
     bh_new_producers = None, bh_header_extensions = []\<rparr>"

theorem num_from_calculated_id_witness:
  "num_from_id example_fc (calculate_id example_fc example_header) = header_block_num example_fc example_header"
  by (rule num_from_calculated_id) (simp add: example_fc_def swap_swap)

end
