(* ===== verification/Block_Header_State.thy ===== *)
theory Block_Header_State
  imports Block_Headers
begin

text \<open>
  The state that validates block headers (\<^verbatim>\<open>block_header_state.hpp\<close>, \<^verbatim>\<open>block_header_state.cpp\<close>): which
  producer is scheduled, which blocks the producers have confirmed and which are
  irreversible, how a pending producer schedule becomes active, and how a header is made, signed
  and checked. The part common to the state of a block and of the block being built, a base class in
  the sources, is the field \<open>bs_common\<close> and \<open>pb_common\<close>. The pointer to the set of activated features is never null, and
  a block signing authority is a \<^verbatim>\<open>block_signing_authority_v0\<close>, the only alternative of its variant.
\<close>

section \<open>Data\<close>

definition producer_repetitions :: nat where
  "producer_repetitions = 12"

definition maximum_tracked_dpos_confirmations :: nat where
  "maximum_tracked_dpos_confirmations = 1024"

record 'k block_header_state_common =
  bc_block_num :: u32
  bc_dpos_proposed_irreversible_blocknum :: u32
  bc_dpos_irreversible_blocknum :: u32
  bc_active_schedule :: "'k producer_authority_schedule"
  bc_blockroot_merkle :: incremental_merkle
  bc_producer_to_last_produced :: "(name, u32) table"
  bc_producer_to_last_implied_irb :: "(name, u32) table"
  bc_valid_block_signing_authority :: "'k block_signing_authority"
  bc_confirm_count :: "u8 list"

record 'k schedule_info =
  si_schedule_lib_num :: u32
  si_schedule_hash :: digest
  si_schedule :: "'k producer_authority_schedule"

record 'k pending_block_header_state =
  pb_common :: "'k block_header_state_common"
  pb_prev_activated_protocol_features :: "digest set"
  pb_prev_pending_schedule :: "'k schedule_info"
  pb_was_pending_promoted :: bool
  pb_previous :: digest
  pb_producer :: name
  pb_timestamp :: u32
  pb_active_schedule_version :: u32
  pb_confirmed :: u16

record ('k, 's) block_header_state =
  bs_common :: "'k block_header_state_common"
  bs_id :: digest
  bs_header :: "('k, 's) signed_block_header"
  bs_pending_schedule :: "'k schedule_info"
  bs_activated_protocol_features :: "digest set"
  bs_additional_signatures :: "'s list"
  bs_header_exts :: "'k header_exts"

text \<open>The check that the caller supplies for newly activated features.\<close>

type_synonym feature_validator = "u32 \<Rightarrow> digest set \<Rightarrow> digest list \<Rightarrow> unit res"

section \<open>The next block\<close>

definition is_builtin_in_set :: "digest set \<Rightarrow> protocol_feature_set \<Rightarrow> builtin_protocol_feature_t \<Rightarrow> bool" where
  "is_builtin_in_set pfa pfs c =
     (case get_builtin_digest pfs c of None \<Rightarrow> False | Some d \<Rightarrow> d \<in> pfa)"

definition get_scheduled_producer :: "('k, 's) block_header_state \<Rightarrow> u32 \<Rightarrow> 'k producer_authority res" where
  "get_scheduled_producer s slot =
     (let producers = pas_producers (bc_active_schedule (bs_common s)) in
      if length producers * producer_repetitions = 0 then Inl arithmetic_trap
      else Inr (producers ! (unat slot mod (length producers * producer_repetitions) div producer_repetitions)))"

text \<open>\<^verbatim>\<open>std::nth_element\<close> puts at the index the element that sorting would put there.\<close>

definition calc_dpos_last_irreversible :: "('k, 's) block_header_state \<Rightarrow> name \<Rightarrow> u32" where
  "calc_dpos_last_irreversible s producer_of_next_block =
     (let blocknums = map (\<lambda>(p, n). if p = producer_of_next_block
                             then bc_dpos_proposed_irreversible_blocknum (bs_common s) else n)
                        (bc_producer_to_last_implied_irb (bs_common s))
      in if length blocknums = 0 then 0
         else sort blocknums ! ((length blocknums - 1) div 3))"

text \<open>The counters after the new block's own counter is added; the oldest is dropped when they are too many.\<close>

definition grow_confirm_count :: "u8 list \<Rightarrow> u32 \<Rightarrow> u8 list" where
  "grow_confirm_count cc required_confs =
     (if length cc < maximum_tracked_dpos_confirmations then cc @ [ucast required_confs]
      else tl cc @ [ucast required_confs])"

text \<open>
  The loop that counts down the confirmations still needed, from the newest block to older
  ones; the first argument is \<open>i + 1\<close> and the second is \<^verbatim>\<open>blocks_to_confirm\<close>.
\<close>

fun confirm_loop :: "nat \<Rightarrow> nat \<Rightarrow> u32 \<Rightarrow> u8 list \<Rightarrow> u32 \<Rightarrow> u8 list \<times> u32" where
  "confirm_loop 0 blocks_to_confirm block_num cc proposed = (cc, proposed)"
| "confirm_loop (Suc i) blocks_to_confirm block_num cc proposed =
     (if blocks_to_confirm = 0 then (cc, proposed)
      else
        (let cc = cc[i := cc ! i - 1] in
         if cc ! i = 0 then (drop (Suc i) cc, block_num - of_nat (length cc - 1 - i))
         else confirm_loop i (blocks_to_confirm - 1) block_num cc proposed))"

text \<open>The maps of a new schedule: the entry of each of its producers.\<close>

definition promote_map ::
  "'k producer_authority_schedule \<Rightarrow> name \<Rightarrow> u32 \<Rightarrow> (name, u32) table \<Rightarrow> u32 \<Rightarrow> (name, u32) table" where
  "promote_map sch producer own old fallback =
     fold (\<lambda>pro m. tbl_insert (pa_producer_name pro)
             (if pa_producer_name pro = producer then own
              else case tbl_find old (pa_producer_name pro) of Some n \<Rightarrow> n | None \<Rightarrow> fallback) m)
       (pas_producers sch) []"

definition next_pending ::
  "('k, 's) fc_library \<Rightarrow> ('k, 's) block_header_state \<Rightarrow> u32 \<Rightarrow> u16 \<Rightarrow> 'k pending_block_header_state res" where
  "next_pending fc s when num_prev_blocks_to_confirm =
     (let c = bs_common s; h = sbh_header (bs_header s) in
      eos_assert (when \<noteq> 0 \<longrightarrow> when > bh_timestamp h) block_validate_exception
      (let when = (if when \<noteq> 0 then when else bh_timestamp h + 1) in
       res_bind (get_scheduled_producer s when) (\<lambda>proauth.
       eos_assert (case tbl_find (bc_producer_to_last_produced c) (pa_producer_name proauth) of
           None \<Rightarrow> True
         | Some n \<Rightarrow> n < (bc_block_num c + 1) - ucast num_prev_blocks_to_confirm) producer_double_confirm
       (res_bind (im_append (hash_pair fc) (bc_blockroot_merkle c) (bs_id s)) (\<lambda>(_, blockroot).
        let block_num = bc_block_num c + 1;
            required_confs = of_nat (length (pas_producers (bc_active_schedule c)) * 2 div 3) + 1 :: u32;
            cc = grow_confirm_count (bc_confirm_count c) required_confs;
            (cc, proposed) = confirm_loop (length cc) (Suc (unat num_prev_blocks_to_confirm)) block_num cc
                               (bc_dpos_proposed_irreversible_blocknum c);
            irreversible = calc_dpos_last_irreversible s (pa_producer_name proauth);
            pending = bs_pending_schedule s;
            promoted = (pas_producers (si_schedule pending) \<noteq> [] \<and> irreversible \<ge> si_schedule_lib_num pending);
            active = (if promoted then si_schedule pending else bc_active_schedule c);
            last_produced =
              tbl_insert (pa_producer_name proauth) block_num
                (if promoted then promote_map active (pa_producer_name proauth) block_num
                                    (bc_producer_to_last_produced c) irreversible
                 else bc_producer_to_last_produced c);
            implied_irb =
              (if promoted then promote_map active (pa_producer_name proauth)
                                  (bc_dpos_proposed_irreversible_blocknum c)
                                  (bc_producer_to_last_implied_irb c) irreversible
               else tbl_insert (pa_producer_name proauth) (bc_dpos_proposed_irreversible_blocknum c)
                      (bc_producer_to_last_implied_irb c))
        in Inr \<lparr>pb_common =
                  \<lparr>bc_block_num = block_num,
                   bc_dpos_proposed_irreversible_blocknum = proposed,
                   bc_dpos_irreversible_blocknum = irreversible,
                   bc_active_schedule = active,
                   bc_blockroot_merkle = blockroot,
                   bc_producer_to_last_produced = last_produced,
                   bc_producer_to_last_implied_irb = implied_irb,
                   bc_valid_block_signing_authority = pa_authority proauth,
                   bc_confirm_count = cc\<rparr>,
                pb_prev_activated_protocol_features = bs_activated_protocol_features s,
                pb_prev_pending_schedule = pending,
                pb_was_pending_promoted = promoted,
                pb_previous = bs_id s,
                pb_producer = pa_producer_name proauth,
                pb_timestamp = when,
                pb_active_schedule_version = pas_version (bc_active_schedule c),
                pb_confirmed = num_prev_blocks_to_confirm\<rparr>)))))"

section \<open>Making a header\<close>

text \<open>A schedule in the legacy format, which has one key for each producer.\<close>

definition downgrade_producers :: "'k producer_authority_schedule \<Rightarrow> 'k producer_schedule_type res" where
  "downgrade_producers sch =
     res_bind (for_each (\<lambda>p ps.
         let keys = bsa_keys (pa_authority p) in
         eos_assert (length keys = 1 \<and> ucast (kw_weight (hd keys)) = bsa_threshold (pa_authority p))
           producer_schedule_exception
         (Inr (ps @ [\<lparr>pk_producer_name = pa_producer_name p, pk_block_signing_key = kw_key (hd keys)\<rparr>])))
       (pas_producers sch) []) (\<lambda>ps.
     Inr \<lparr>ps_version = pas_version sch, ps_producers = ps\<rparr>)"

definition make_block_header ::
  "('k, 's) fc_library \<Rightarrow> 's \<Rightarrow> 'k pending_block_header_state \<Rightarrow> digest \<Rightarrow> digest \<Rightarrow>
   'k producer_authority_schedule option \<Rightarrow> digest list \<Rightarrow> protocol_feature_set \<Rightarrow>
   ('k, 's) signed_block_header res" where
  "make_block_header fc no_signature p transaction_mroot action_mroot new_producers new_features pfs =
     (let exts = (if length new_features > 0
                  then emplace_extension [] protocol_feature_activation_id (pack_features fc new_features) else []);
          h = \<lparr>bh_timestamp = pb_timestamp p, bh_producer = pb_producer p, bh_confirmed = pb_confirmed p,
               bh_previous = pb_previous p, bh_transaction_mroot = transaction_mroot,
               bh_action_mroot = action_mroot, bh_schedule_version = pb_active_schedule_version p,
               bh_new_producers = None, bh_header_extensions = exts\<rparr>
      in case new_producers of
           None \<Rightarrow> Inr \<lparr>sbh_header = h, sbh_producer_signature = no_signature\<rparr>
         | Some sch \<Rightarrow>
             if is_builtin_in_set (pb_prev_activated_protocol_features p) pfs wtmsig_block_signatures then
               Inr \<lparr>sbh_header = h\<lparr>bh_header_extensions :=
                     emplace_extension exts producer_schedule_change_id (pack_schedule fc sch)\<rparr>,
                    sbh_producer_signature = no_signature\<rparr>
             else
               res_bind (downgrade_producers sch) (\<lambda>legacy.
               Inr \<lparr>sbh_header = h\<lparr>bh_new_producers := Some legacy\<rparr>, sbh_producer_signature = no_signature\<rparr>))"

section \<open>Checking a header\<close>

text \<open>The new schedule of a header in the legacy field, and in the extension, with its hash.\<close>

definition legacy_schedule_change ::
  "('k, 's) fc_library \<Rightarrow> 'k pending_block_header_state \<Rightarrow> 'k block_header \<Rightarrow> bool \<Rightarrow>
   ('k producer_authority_schedule \<times> digest) option res" where
  "legacy_schedule_change fc p h wtmsig_enabled =
     (case bh_new_producers h of
        None \<Rightarrow> Inr None
      | Some new_producers \<Rightarrow>
          eos_assert (\<not> wtmsig_enabled) producer_schedule_exception
          (eos_assert (\<not> pb_was_pending_promoted p) producer_schedule_exception
           (eos_assert (ps_version new_producers = pas_version (bc_active_schedule (pb_common p)) + 1)
              producer_schedule_exception
            (eos_assert (pas_producers (si_schedule (pb_prev_pending_schedule p)) = []) producer_schedule_exception
             (Inr (Some (producer_authority_schedule_of_legacy new_producers,
                         hash_legacy_schedule fc new_producers)))))))"

definition extension_schedule_change ::
  "('k, 's) fc_library \<Rightarrow> 'k pending_block_header_state \<Rightarrow> 'k header_exts \<Rightarrow> bool \<Rightarrow>
   ('k producer_authority_schedule \<times> digest) option \<Rightarrow> ('k producer_authority_schedule \<times> digest) option res" where
  "extension_schedule_change fc p exts wtmsig_enabled legacy =
     (if exts_count exts producer_schedule_change_id > 0 then
        eos_assert wtmsig_enabled producer_schedule_exception
        (eos_assert (\<not> pb_was_pending_promoted p) producer_schedule_exception
         (res_bind (get_schedule_change (exts_lower_bound exts producer_schedule_change_id)) (\<lambda>sch.
          eos_assert (pas_version sch = pas_version (bc_active_schedule (pb_common p)) + 1)
            producer_schedule_exception
          (eos_assert (pas_producers (si_schedule (pb_prev_pending_schedule p)) = []) producer_schedule_exception
           (Inr (Some (sch, hash_schedule fc sch)))))))
      else Inr legacy)"

text \<open>
  The features of a header. The sources pass the comparison \<^verbatim>\<open>extension_id() > 0\<close> to \<^verbatim>\<open>count\<close>, which is
  the id of the extension, as that id is zero.
\<close>

definition new_activated_features ::
  "feature_validator \<Rightarrow> 'k pending_block_header_state \<Rightarrow> 'k header_exts \<Rightarrow> digest set res" where
  "new_activated_features validator p exts =
     (if exts_count exts (if protocol_feature_activation_id > 0 then 1 else 0) \<noteq> 0 then
        res_bind (get_activation (exts_lower_bound exts protocol_feature_activation_id)) (\<lambda>fs.
        res_bind (validator (pb_timestamp p) (pb_prev_activated_protocol_features p) fs) (\<lambda>_.
        make_activation_set (pb_prev_activated_protocol_features p) fs True))
      else Inr (pb_prev_activated_protocol_features p))"

definition next_pending_schedule ::
  "'k pending_block_header_state \<Rightarrow> ('k producer_authority_schedule \<times> digest) option \<Rightarrow> 'k schedule_info" where
  "next_pending_schedule p maybe_new =
     (let prev = pb_prev_pending_schedule p in
      case maybe_new of
        Some (sch, h) \<Rightarrow> \<lparr>si_schedule_lib_num = bc_block_num (pb_common p), si_schedule_hash = h, si_schedule = sch\<rparr>
      | None \<Rightarrow>
          \<lparr>si_schedule_lib_num = si_schedule_lib_num prev, si_schedule_hash = si_schedule_hash prev,
           si_schedule = (if pb_was_pending_promoted p
                          then producer_authority_schedule_default\<lparr>pas_version := pas_version (si_schedule prev)\<rparr>
                          else si_schedule prev)\<rparr>)"

definition finish_next_unsigned ::
  "('k, 's) fc_library \<Rightarrow> 'k pending_block_header_state \<Rightarrow> ('k, 's) signed_block_header \<Rightarrow>
   protocol_feature_set \<Rightarrow> feature_validator \<Rightarrow> ('k, 's) block_header_state res" where
  "finish_next_unsigned fc p sh pfs validator =
     (let h = sbh_header sh in
      eos_assert (bh_timestamp h = pb_timestamp p) block_validate_exception
      (eos_assert (bh_previous h = pb_previous p) unlinkable_block_exception
       (eos_assert (bh_confirmed h = pb_confirmed p) block_validate_exception
        (eos_assert (bh_producer h = pb_producer p) wrong_producer
         (eos_assert (bh_schedule_version h = pb_active_schedule_version p) producer_schedule_exception
          (res_bind (validate_and_extract_header_extensions fc h) (\<lambda>exts.
           let wtmsig_enabled =
                 (bh_new_producers h \<noteq> None \<or> exts_count exts producer_schedule_change_id > 0) \<and>
                 is_builtin_in_set (pb_prev_activated_protocol_features p) pfs wtmsig_block_signatures in
           res_bind (legacy_schedule_change fc p h wtmsig_enabled) (\<lambda>legacy.
           res_bind (extension_schedule_change fc p exts wtmsig_enabled legacy) (\<lambda>maybe_new.
           res_bind (new_activated_features validator p exts) (\<lambda>activated.
           Inr \<lparr>bs_common = pb_common p,
                bs_id = calculate_id fc h,
                bs_header = sh,
                bs_pending_schedule = next_pending_schedule p maybe_new,
                bs_activated_protocol_features = activated,
                bs_additional_signatures = [],
                bs_header_exts = exts\<rparr>))))))))))"

section \<open>Signatures\<close>

definition sig_digest :: "('k, 's) fc_library \<Rightarrow> ('k, 's) block_header_state \<Rightarrow> digest" where
  "sig_digest fc s =
     (let header_bmroot = hash_pair fc (header_digest fc (sbh_header (bs_header s)),
                                        im_get_root (bc_blockroot_merkle (bs_common s)))
      in hash_pair fc (header_bmroot, si_schedule_hash (bs_pending_schedule s)))"

definition verify_signee :: "('k, 's) fc_library \<Rightarrow> ('k, 's) block_header_state \<Rightarrow> unit res" where
  "verify_signee fc s =
     (let auth = bc_valid_block_signing_authority (bs_common s) in
      eos_assert (1 + length (bs_additional_signatures s) \<le> length (bsa_keys auth)) wrong_signing_key
      (let d = sig_digest fc s in
       res_bind (recover_key fc (sbh_producer_signature (bs_header s)) d) (\<lambda>key.
       res_bind (for_each (\<lambda>sig keys.
           res_bind (recover_key fc sig d) (\<lambda>k.
           eos_assert (k \<notin> keys) wrong_signing_key (Inr (insert k keys)))) (bs_additional_signatures s) {key}) (\<lambda>keys.
       let (is_satisfied, relevant_sig_count) = keys_satisfy_and_relevant auth keys in
       eos_assert (relevant_sig_count = card keys) wrong_signing_key
       (eos_assert is_satisfied wrong_signing_key (Inr ()))))))"

definition sign :: "('k, 's) fc_library \<Rightarrow> (digest \<Rightarrow> 's list res) \<Rightarrow> ('k, 's) block_header_state \<Rightarrow>
    ('k, 's) block_header_state res" where
  "sign fc signer s =
     res_bind (signer (sig_digest fc s)) (\<lambda>sigs.
     eos_assert (sigs \<noteq> []) no_block_signatures
     (let s = s\<lparr>bs_header := (bs_header s)\<lparr>sbh_producer_signature := last sigs\<rparr>,
               bs_additional_signatures := butlast sigs\<rparr>
      in res_bind (verify_signee fc s) (\<lambda>_. Inr s)))"

text \<open>Finishing a received header, with its additional signatures, and one that this node signs.\<close>

definition finish_next ::
  "('k, 's) fc_library \<Rightarrow> 'k pending_block_header_state \<Rightarrow> ('k, 's) signed_block_header \<Rightarrow> 's list \<Rightarrow>
   protocol_feature_set \<Rightarrow> feature_validator \<Rightarrow> bool \<Rightarrow> ('k, 's) block_header_state res" where
  "finish_next fc p h additional_signatures pfs validator skip_validate_signee =
     eos_assert (additional_signatures \<noteq> [] \<longrightarrow>
         is_builtin_in_set (pb_prev_activated_protocol_features p) pfs wtmsig_block_signatures)
       producer_schedule_exception
     (res_bind (finish_next_unsigned fc p h pfs validator) (\<lambda>s.
      let s = (if additional_signatures \<noteq> [] then s\<lparr>bs_additional_signatures := additional_signatures\<rparr> else s) in
      if skip_validate_signee then Inr s
      else res_bind (verify_signee fc s) (\<lambda>_. Inr s)))"

definition finish_next_sign ::
  "('k, 's) fc_library \<Rightarrow> 'k pending_block_header_state \<Rightarrow> ('k, 's) signed_block_header \<Rightarrow>
   protocol_feature_set \<Rightarrow> feature_validator \<Rightarrow> (digest \<Rightarrow> 's list res) \<Rightarrow>
   (('k, 's) block_header_state \<times> ('k, 's) signed_block_header) res" where
  "finish_next_sign fc p h pfs validator signer =
     res_bind (finish_next_unsigned fc p h pfs validator) (\<lambda>s.
     res_bind (sign fc signer s) (\<lambda>s.
     let h = h\<lparr>sbh_producer_signature := sbh_producer_signature (bs_header s)\<rparr> in
     eos_assert (bs_additional_signatures s \<noteq> [] \<longrightarrow>
         is_builtin_in_set (pb_prev_activated_protocol_features p) pfs wtmsig_block_signatures)
       producer_schedule_exception
     (Inr (s, h))))"

definition next_state ::
  "('k, 's) fc_library \<Rightarrow> ('k, 's) block_header_state \<Rightarrow> ('k, 's) signed_block_header \<Rightarrow> 's list \<Rightarrow>
   protocol_feature_set \<Rightarrow> feature_validator \<Rightarrow> bool \<Rightarrow> ('k, 's) block_header_state res" where
  "next_state fc s h additional_signatures pfs validator skip_validate_signee =
     res_bind (next_pending fc s (bh_timestamp (sbh_header h)) (bh_confirmed (sbh_header h))) (\<lambda>p.
     finish_next fc p h additional_signatures pfs validator skip_validate_signee)"

definition get_new_protocol_feature_activations :: "('k, 's) block_header_state \<Rightarrow> digest list res" where
  "get_new_protocol_feature_activations s =
     (if exts_count (bs_header_exts s) protocol_feature_activation_id = 0 then Inr []
      else get_activation (exts_lower_bound (bs_header_exts s) protocol_feature_activation_id))"

section \<open>States of old snapshots\<close>

record ('k, 's) snapshot_block_header_state_v2 =
  v2_block_num :: u32
  v2_dpos_proposed_irreversible_blocknum :: u32
  v2_dpos_irreversible_blocknum :: u32
  v2_active_schedule :: "'k producer_schedule_type"
  v2_blockroot_merkle :: incremental_merkle
  v2_producer_to_last_produced :: "(name, u32) table"
  v2_producer_to_last_implied_irb :: "(name, u32) table"
  v2_block_signing_key :: 'k
  v2_confirm_count :: "u8 list"
  v2_id :: digest
  v2_header :: "('k, 's) signed_block_header"
  v2_schedule_lib_num :: u32
  v2_schedule_hash :: digest
  v2_schedule :: "'k producer_schedule_type"
  v2_activated_protocol_features :: "digest set"

definition block_header_state_of_v2 :: "('k, 's) snapshot_block_header_state_v2 \<Rightarrow> ('k, 's) block_header_state" where
  "block_header_state_of_v2 v =
     \<lparr>bs_common =
        \<lparr>bc_block_num = v2_block_num v,
         bc_dpos_proposed_irreversible_blocknum = v2_dpos_proposed_irreversible_blocknum v,
         bc_dpos_irreversible_blocknum = v2_dpos_irreversible_blocknum v,
         bc_active_schedule = producer_authority_schedule_of_legacy (v2_active_schedule v),
         bc_blockroot_merkle = v2_blockroot_merkle v,
         bc_producer_to_last_produced = v2_producer_to_last_produced v,
         bc_producer_to_last_implied_irb = v2_producer_to_last_implied_irb v,
         bc_valid_block_signing_authority =
           \<lparr>bsa_threshold = 1, bsa_keys = [\<lparr>kw_key = v2_block_signing_key v, kw_weight = 1\<rparr>]\<rparr>,
         bc_confirm_count = v2_confirm_count v\<rparr>,
      bs_id = v2_id v,
      bs_header = v2_header v,
      bs_pending_schedule =
        \<lparr>si_schedule_lib_num = v2_schedule_lib_num v, si_schedule_hash = v2_schedule_hash v,
         si_schedule = producer_authority_schedule_of_legacy (v2_schedule v)\<rparr>,
      bs_activated_protocol_features = v2_activated_protocol_features v,
      bs_additional_signatures = [],
      bs_header_exts = []\<rparr>"

section \<open>The genesis state\<close>

definition genesis_header_state ::
  "('k, 's) fc_library \<Rightarrow> 's \<Rightarrow> 'k \<Rightarrow> u32 \<Rightarrow> digest \<Rightarrow> ('k, 's) block_header_state" where
  "genesis_header_state fc no_signature initial_key initial_timestamp chain_id =
     (let initial_schedule = \<lparr>pas_version = 0, pas_producers = [\<lparr>pa_producer_name = system_account_name,
            pa_authority = \<lparr>bsa_threshold = 1, bsa_keys = [\<lparr>kw_key = initial_key, kw_weight = 1\<rparr>]\<rparr>\<rparr>]\<rparr>;
          initial_legacy_schedule = \<lparr>ps_version = 0, ps_producers =
            [\<lparr>pk_producer_name = system_account_name, pk_block_signing_key = initial_key\<rparr>]\<rparr>;
          h = \<lparr>bh_timestamp = initial_timestamp, bh_producer = 0, bh_confirmed = 1, bh_previous = digest_default,
               bh_transaction_mroot = digest_default, bh_action_mroot = chain_id, bh_schedule_version = 0,
               bh_new_producers = None, bh_header_extensions = []\<rparr>
      in \<lparr>bs_common =
            \<lparr>bc_block_num = header_block_num fc h, bc_dpos_proposed_irreversible_blocknum = 0,
             bc_dpos_irreversible_blocknum = 0, bc_active_schedule = initial_schedule,
             bc_blockroot_merkle = incremental_merkle_init, bc_producer_to_last_produced = [],
             bc_producer_to_last_implied_irb = [],
             bc_valid_block_signing_authority = \<lparr>bsa_threshold = 0, bsa_keys = []\<rparr>,
             bc_confirm_count = []\<rparr>,
          bs_id = calculate_id fc h,
          bs_header = \<lparr>sbh_header = h, sbh_producer_signature = no_signature\<rparr>,
          bs_pending_schedule = \<lparr>si_schedule_lib_num = 0,
             si_schedule_hash = hash_legacy_schedule fc initial_legacy_schedule, si_schedule = initial_schedule\<rparr>,
          bs_activated_protocol_features = {}, bs_additional_signatures = [], bs_header_exts = []\<rparr>)"

section \<open>Two thirds of the producers\<close>

lemma sorted_nth_count_ge:
  fixes ys :: "'a::linorder list"
  assumes "sorted ys" "i < length ys"
  shows "length ys - i \<le> length (filter (\<lambda>x. ys ! i \<le> x) ys)"
proof -
  have "\<forall>x \<in> set (drop i ys). ys ! i \<le> x"
    using assms by (auto simp: in_set_conv_nth sorted_iff_nth_mono)
  then have "length (filter (\<lambda>x. ys ! i \<le> x) (drop i ys)) = length ys - i" by simp
  moreover have "filter (\<lambda>x. ys ! i \<le> x) ys =
      filter (\<lambda>x. ys ! i \<le> x) (take i ys) @ filter (\<lambda>x. ys ! i \<le> x) (drop i ys)"
    by (metis append_take_drop_id filter_append)
  ultimately show ?thesis by simp
qed

lemma sorted_nth_count_gt:
  fixes ys :: "'a::linorder list"
  assumes "sorted ys" "i < length ys" "ys ! i < v"
  shows "length (filter (\<lambda>x. v \<le> x) ys) \<le> length ys - Suc i"
proof -
  have "\<forall>x \<in> set (take (Suc i) ys). \<not> v \<le> x"
  proof
    fix x assume "x \<in> set (take (Suc i) ys)"
    then obtain j where "j \<le> i" "x = ys ! j" using assms(2) by (auto simp: in_set_conv_nth less_Suc_eq_le)
    then have "x \<le> ys ! i" using assms(1,2) by (simp add: sorted_iff_nth_mono)
    then show "\<not> v \<le> x" using assms(3) by simp
  qed
  then have "filter (\<lambda>x. v \<le> x) (take (Suc i) ys) = []" by simp
  moreover have "filter (\<lambda>x. v \<le> x) ys = filter (\<lambda>x. v \<le> x) (take (Suc i) ys) @ filter (\<lambda>x. v \<le> x) (drop (Suc i) ys)"
    by (metis append_take_drop_id filter_append)
  ultimately have "length (filter (\<lambda>x. v \<le> x) ys) \<le> length (drop (Suc i) ys)"
    using length_filter_le[of "\<lambda>x. v \<le> x" "drop (Suc i) ys"] by simp
  then show ?thesis by simp
qed

lemma length_filter_sort: "length (filter P (sort xs)) = length (filter P xs)"
  by (simp add: filter_sort)

text \<open>The element one third into the sorted list is the largest that more than two thirds reach.\<close>

lemma third_element_supermajority:
  fixes xs :: "'a::linorder list"
  assumes "xs \<noteq> []"
  defines "r \<equiv> sort xs ! ((length xs - 1) div 3)"
  shows "r \<in> set xs" "2 * length xs < 3 * length (filter (\<lambda>x. r \<le> x) xs)"
    "r < v \<Longrightarrow> 3 * length (filter (\<lambda>x. v \<le> x) xs) \<le> 2 * length xs"
proof -
  let ?n = "length xs" and ?i = "(length xs - 1) div 3"
  have n: "0 < ?n" using assms(1) by simp
  have "?i < ?n" using n div_le_dividend[of "?n - 1" 3] by linarith
  then have i: "?i < length (sort xs)" by (simp only: length_sort)
  show "r \<in> set xs" unfolding r_def using nth_mem[OF i] by simp
  have "?n - ?i \<le> length (filter (\<lambda>x. r \<le> x) xs)"
    using sorted_nth_count_ge[OF sorted_sort i] by (simp add: r_def length_filter_sort)
  then show "2 * ?n < 3 * length (filter (\<lambda>x. r \<le> x) xs)" using n by linarith
  assume "r < v"
  then have "length (filter (\<lambda>x. v \<le> x) xs) \<le> ?n - Suc ?i"
    using sorted_nth_count_gt[OF sorted_sort i, of v] by (simp add: r_def length_filter_sort)
  then show "3 * length (filter (\<lambda>x. v \<le> x) xs) \<le> 2 * ?n" using n by linarith
qed

section \<open>Confirmations\<close>

lemma confirm_loop_result:
  "confirm_loop k b bn cc p = (cc', p') \<Longrightarrow> k \<le> length cc \<Longrightarrow>
   (p' = p \<and> length cc' = length cc) \<or>
   (\<exists>i < k. p' = bn - of_nat (length cc - 1 - i) \<and> length cc' = length cc - 1 - i)"
proof (induction k b bn cc p rule: confirm_loop.induct)
  case (2 i b bn cc p)
  define cc1 where "cc1 = cc[i := cc ! i - 1]"
  consider "b = 0" | "b \<noteq> 0" "cc1 ! i = 0" | "b \<noteq> 0" "cc1 ! i \<noteq> 0" by blast
  then show ?case
  proof cases
    case 3
    then have run: "confirm_loop i (b - 1) bn cc1 p = (cc', p')" using 2(2) by (simp add: cc1_def Let_def)
    have "(p' = p \<and> length cc' = length cc1) \<or>
        (\<exists>j < i. p' = bn - of_nat (length cc1 - 1 - j) \<and> length cc' = length cc1 - 1 - j)"
      by (rule 2(1)[OF 3(1) cc1_def _ run]) (use 3 2(3) in \<open>simp_all add: cc1_def\<close>)
    then show ?thesis unfolding cc1_def length_list_update using less_SucI by blast
  next
    case 2
    then show ?thesis using "2.prems" by (auto simp: cc1_def Let_def)
  qed (use 2 in simp)
qed simp

text \<open>
  The counters track the blocks after the last proposed one, and no producer's implied
  irreversible block is beyond the proposed block.
\<close>

definition dpos_inv :: "'k block_header_state_common \<Rightarrow> bool" where
  "dpos_inv c \<longleftrightarrow>
     unat (bc_dpos_proposed_irreversible_blocknum c) + length (bc_confirm_count c) \<le> unat (bc_block_num c) \<and>
     (\<forall>(p, n) \<in> set (bc_producer_to_last_implied_irb c). n \<le> bc_dpos_proposed_irreversible_blocknum c) \<and>
     bc_dpos_irreversible_blocknum c \<le> bc_dpos_proposed_irreversible_blocknum c"

lemma calc_dpos_le:
  assumes "\<forall>(p, n) \<in> set (bc_producer_to_last_implied_irb (bs_common s)). n \<le> bc_dpos_proposed_irreversible_blocknum (bs_common s)"
  shows "calc_dpos_last_irreversible s producer \<le> bc_dpos_proposed_irreversible_blocknum (bs_common s)"
proof -
  define xs where "xs = map (\<lambda>(p, n). if p = producer then bc_dpos_proposed_irreversible_blocknum (bs_common s) else n)
      (bc_producer_to_last_implied_irb (bs_common s))"
  have "\<forall>x \<in> set xs. x \<le> bc_dpos_proposed_irreversible_blocknum (bs_common s)"
    using assms by (auto simp: xs_def)
  then show ?thesis
    using third_element_supermajority(1)[of xs]
    by (auto simp: calc_dpos_last_irreversible_def Let_def xs_def[symmetric])
qed

lemma tbl_insert_values: "r \<in> set (tbl_insert k v t) \<Longrightarrow> r = (k, v) \<or> r \<in> set t"
  by (induction k v t rule: tbl_insert.induct) (auto split: if_splits)

lemma promote_map_values:
  assumes "(p, n) \<in> set (promote_map sch producer own old fallback)"
  shows "n = own \<or> n = fallback \<or> (\<exists>q. (q, n) \<in> set old)"
proof -
  have "(p, n) \<in> set (fold (\<lambda>pro m. tbl_insert (pa_producer_name pro)
      (if pa_producer_name pro = producer then own
       else case tbl_find old (pa_producer_name pro) of Some n \<Rightarrow> n | None \<Rightarrow> fallback) m) ps acc) \<Longrightarrow>
    (p, n) \<in> set acc \<or> n = own \<or> n = fallback \<or> (\<exists>q. (q, n) \<in> set old)" for ps acc
  proof (induction ps arbitrary: acc)
    case (Cons pro ps)
    from Cons.IH[of "tbl_insert (pa_producer_name pro)
      (if pa_producer_name pro = producer then own
       else case tbl_find old (pa_producer_name pro) of Some n \<Rightarrow> n | None \<Rightarrow> fallback) acc"] Cons.prems
    show ?case by (auto dest!: tbl_insert_values split: if_splits option.splits dest: tbl_find_Some_mem)
  qed simp
  from this[of "pas_producers sch" "[]"] assms show ?thesis by (simp add: promote_map_def)
qed

lemma length_grow_confirm_count:
  "length (grow_confirm_count cc r) \<le> Suc (length cc)"
  by (auto simp: grow_confirm_count_def)

text \<open>What a successful call of \<open>next\<close> returns, field by field.\<close>

lemma next_pending_Inr:
  assumes "next_pending fc s when num = Inr p"
  obtains proauth where
    "when \<noteq> 0 \<longrightarrow> bh_timestamp (sbh_header (bs_header s)) < when"
    "pb_timestamp p = (if when \<noteq> 0 then when else bh_timestamp (sbh_header (bs_header s)) + 1)"
    "get_scheduled_producer s (pb_timestamp p) = Inr proauth"
    "pb_producer p = pa_producer_name proauth"
    "bc_valid_block_signing_authority (pb_common p) = pa_authority proauth"
    "case tbl_find (bc_producer_to_last_produced (bs_common s)) (pb_producer p) of
       None \<Rightarrow> True | Some n \<Rightarrow> n < (bc_block_num (bs_common s) + 1) - ucast num"
  using assms unfolding next_pending_def Let_def
  by (auto simp: case_prod_beta intro: that)

definition required_confs :: "'k block_header_state_common \<Rightarrow> u32" where
  "required_confs c = of_nat (length (pas_producers (bc_active_schedule c)) * 2 div 3) + 1"

lemma next_pending_common:
  assumes run: "next_pending fc s when num = Inr p"
  defines "c \<equiv> bs_common s" and "c' \<equiv> pb_common p" and "pend \<equiv> bs_pending_schedule s"
  defines "g \<equiv> grow_confirm_count (bc_confirm_count c) (required_confs c)"
  shows "bc_block_num c' = bc_block_num c + 1"
    and "confirm_loop (length g) (Suc (unat num)) (bc_block_num c + 1) g (bc_dpos_proposed_irreversible_blocknum c) =
      (bc_confirm_count c', bc_dpos_proposed_irreversible_blocknum c')"
    and "bc_dpos_irreversible_blocknum c' = calc_dpos_last_irreversible s (pb_producer p)"
    and "pb_was_pending_promoted p \<longleftrightarrow> pas_producers (si_schedule pend) \<noteq> [] \<and>
      si_schedule_lib_num pend \<le> bc_dpos_irreversible_blocknum c'"
    and "bc_active_schedule c' = (if pb_was_pending_promoted p then si_schedule pend else bc_active_schedule c)"
    and "bc_producer_to_last_implied_irb c' =
      (if pb_was_pending_promoted p
       then promote_map (si_schedule pend) (pb_producer p) (bc_dpos_proposed_irreversible_blocknum c)
              (bc_producer_to_last_implied_irb c) (bc_dpos_irreversible_blocknum c')
       else tbl_insert (pb_producer p) (bc_dpos_proposed_irreversible_blocknum c) (bc_producer_to_last_implied_irb c))"
    and "bc_producer_to_last_produced c' = tbl_insert (pb_producer p) (bc_block_num c')
      (if pb_was_pending_promoted p
       then promote_map (si_schedule pend) (pb_producer p) (bc_block_num c')
              (bc_producer_to_last_produced c) (bc_dpos_irreversible_blocknum c')
       else bc_producer_to_last_produced c)"
    and "pb_prev_pending_schedule p = pend" "pb_previous p = bs_id s" "pb_confirmed p = num"
      "pb_prev_activated_protocol_features p = bs_activated_protocol_features s"
      "pb_active_schedule_version p = pas_version (bc_active_schedule c)"
      "\<exists>d. im_append (hash_pair fc) (bc_blockroot_merkle c) (bs_id s) = Inr (d, bc_blockroot_merkle c')"
  using run unfolding next_pending_def Let_def assms required_confs_def
  by (auto simp: case_prod_beta)

lemma unat_plus_one: "(w :: u32) \<noteq> -1 \<Longrightarrow> unat (w + 1) = Suc (unat w)"
proof -
  assume "w \<noteq> -1"
  then have "unat w \<noteq> unat (-1 :: u32)" by (simp only: unsigned_word_eqI word_unat_eq_iff not_False_eq_True)
  then have "unat w + 1 < 2 ^ 32"
    using unsigned_less[of w, where ?'a = nat] by (simp add: unat_max_word)
  then show ?thesis by (simp add: unat_add_no_overflow)
qed

lemma next_pending_dpos:
  assumes run: "next_pending fc s when num = Inr p" and inv: "dpos_inv (bs_common s)"
    and nowrap: "bc_block_num (bs_common s) \<noteq> -1"
  shows "dpos_inv (pb_common p) \<and>
    bc_dpos_proposed_irreversible_blocknum (bs_common s) \<le> bc_dpos_proposed_irreversible_blocknum (pb_common p)"
proof -
  define c c' where "c = bs_common s" and "c' = pb_common p"
  note f = next_pending_common[OF run, folded c_def c'_def]
  note iv = inv[folded c_def, unfolded dpos_inv_def]
  define g where "g = grow_confirm_count (bc_confirm_count c) (required_confs c)"
  have bn: "unat (bc_block_num c') = Suc (unat (bc_block_num c))"
    using nowrap unfolding f(1) c_def by (rule unat_plus_one)
  have g: "length g \<le> Suc (length (bc_confirm_count c))" unfolding g_def by (rule length_grow_confirm_count)
  have loop: "(bc_dpos_proposed_irreversible_blocknum c' = bc_dpos_proposed_irreversible_blocknum c \<and>
      length (bc_confirm_count c') = length g) \<or>
    (\<exists>i < length g. bc_dpos_proposed_irreversible_blocknum c' = bc_block_num c' - of_nat (length g - 1 - i) \<and>
      length (bc_confirm_count c') = length g - 1 - i)"
    using confirm_loop_result[OF f(2)[folded g_def]] f(1) by simp
  have counts: "unat (bc_dpos_proposed_irreversible_blocknum c) \<le> unat (bc_dpos_proposed_irreversible_blocknum c') \<and>
      unat (bc_dpos_proposed_irreversible_blocknum c') + length (bc_confirm_count c') \<le> unat (bc_block_num c')"
    using loop
  proof
    assume "\<exists>i < length g. bc_dpos_proposed_irreversible_blocknum c' = bc_block_num c' - of_nat (length g - 1 - i) \<and>
      length (bc_confirm_count c') = length g - 1 - i"
    then obtain i where i: "i < length g"
        "bc_dpos_proposed_irreversible_blocknum c' = bc_block_num c' - of_nat (length g - 1 - i)"
        "length (bc_confirm_count c') = length g - 1 - i" by blast
    have le: "length g - 1 - i \<le> unat (bc_block_num c')" using g iv bn i(1) by linarith
    have "length g - 1 - i < 2 ^ 32"
      using le unsigned_less[of "bc_block_num c'", where ?'a = nat] by simp
    then have "unat (of_nat (length g - 1 - i) :: u32) = length g - 1 - i"
      unfolding unat_of_nat by (intro mod_less) simp
    then have "unat (bc_dpos_proposed_irreversible_blocknum c') = unat (bc_block_num c') - (length g - 1 - i)"
      unfolding i(2) using le by (simp add: unat_sub_no_underflow)
    then show ?thesis using i(1,3) le g iv bn by linarith
  qed (use g iv bn in auto)
  have irr: "bc_dpos_irreversible_blocknum c' \<le> bc_dpos_proposed_irreversible_blocknum c"
    unfolding f(3) c_def by (rule calc_dpos_le) (use iv in \<open>simp add: c_def\<close>)
  have mono: "bc_dpos_proposed_irreversible_blocknum c \<le> bc_dpos_proposed_irreversible_blocknum c'"
    using counts by (simp add: word_le_nat_alt)
  have "n \<le> bc_dpos_proposed_irreversible_blocknum c" if "(q, n) \<in> set (bc_producer_to_last_implied_irb c')" for q n
    using that iv irr unfolding f(6)
    by (auto split: if_splits dest!: promote_map_values tbl_insert_values)
  then have "\<forall>(q, n) \<in> set (bc_producer_to_last_implied_irb c'). n \<le> bc_dpos_proposed_irreversible_blocknum c'"
    using mono by (auto intro: order_trans)
  then show ?thesis
    using counts irr mono by (auto simp: dpos_inv_def c_def c'_def intro: order_trans)
qed

lemma finish_next_unsigned_Inr:
  assumes "finish_next_unsigned fc p sh pfs validator = Inr s'"
  obtains legacy maybe_new where
    "bh_timestamp (sbh_header sh) = pb_timestamp p" "bh_previous (sbh_header sh) = pb_previous p"
    "bh_confirmed (sbh_header sh) = pb_confirmed p" "bh_producer (sbh_header sh) = pb_producer p"
    "bh_schedule_version (sbh_header sh) = pb_active_schedule_version p"
    "validate_and_extract_header_extensions fc (sbh_header sh) = Inr (bs_header_exts s')"
    "legacy_schedule_change fc p (sbh_header sh)
       ((bh_new_producers (sbh_header sh) \<noteq> None \<or> exts_count (bs_header_exts s') producer_schedule_change_id > 0) \<and>
        is_builtin_in_set (pb_prev_activated_protocol_features p) pfs wtmsig_block_signatures) = Inr legacy"
    "extension_schedule_change fc p (bs_header_exts s')
       ((bh_new_producers (sbh_header sh) \<noteq> None \<or> exts_count (bs_header_exts s') producer_schedule_change_id > 0) \<and>
        is_builtin_in_set (pb_prev_activated_protocol_features p) pfs wtmsig_block_signatures) legacy = Inr maybe_new"
    "new_activated_features validator p (bs_header_exts s') = Inr (bs_activated_protocol_features s')"
    "bs_common s' = pb_common p" "bs_id s' = calculate_id fc (sbh_header sh)" "bs_header s' = sh"
    "bs_pending_schedule s' = next_pending_schedule p maybe_new" "bs_additional_signatures s' = []"
  using assms unfolding finish_next_unsigned_def Let_def by (auto intro: that)

lemma finish_next_Inr:
  assumes "finish_next fc p sh sigs pfs validator skip = Inr s'"
  obtains s1 where "finish_next_unsigned fc p sh pfs validator = Inr s1"
    "s' = s1\<lparr>bs_additional_signatures := sigs\<rparr>"
    "sigs \<noteq> [] \<longrightarrow> is_builtin_in_set (pb_prev_activated_protocol_features p) pfs wtmsig_block_signatures"
    "\<not> skip \<longrightarrow> verify_signee fc s' = Inr ()"
proof -
  obtain s1 where s1: "finish_next_unsigned fc p sh pfs validator = Inr s1"
    using assms by (auto simp: finish_next_def)
  have none: "bs_additional_signatures s1 = []" by (rule finish_next_unsigned_Inr[OF s1])
  have eq: "(if sigs \<noteq> [] then s1\<lparr>bs_additional_signatures := sigs\<rparr> else s1) = s1\<lparr>bs_additional_signatures := sigs\<rparr>"
    using none by (cases s1) simp
  show ?thesis
    by (rule that[OF s1]) (use assms s1 eq in \<open>auto simp: finish_next_def Let_def split: if_splits\<close>)
qed

section \<open>Chains of headers\<close>

text \<open>The states that accepting headers one after the other leads to, up to the largest block number.\<close>

inductive header_chain ::
  "('k, 's) fc_library \<Rightarrow> protocol_feature_set \<Rightarrow> feature_validator \<Rightarrow> ('k, 's) block_header_state \<Rightarrow>
   ('k, 's) block_header_state \<Rightarrow> bool"
  for fc pfs validator s0 where
  chain_start: "header_chain fc pfs validator s0 s0"
| chain_step: "header_chain fc pfs validator s0 s \<Longrightarrow> bc_block_num (bs_common s) \<noteq> -1 \<Longrightarrow>
    next_state fc s h sigs pfs validator skip = Inr s' \<Longrightarrow> header_chain fc pfs validator s0 s'"

lemma next_state_Inr:
  assumes "next_state fc s h sigs pfs validator skip = Inr s'"
  obtains p s1 where
    "next_pending fc s (bh_timestamp (sbh_header h)) (bh_confirmed (sbh_header h)) = Inr p"
    "finish_next fc p h sigs pfs validator skip = Inr s'"
    "finish_next_unsigned fc p h pfs validator = Inr s1"
    "s' = s1\<lparr>bs_additional_signatures := sigs\<rparr>" "bs_common s' = pb_common p"
proof -
  obtain p where p: "next_pending fc s (bh_timestamp (sbh_header h)) (bh_confirmed (sbh_header h)) = Inr p"
      and fin: "finish_next fc p h sigs pfs validator skip = Inr s'"
    using assms by (auto simp: next_state_def)
  obtain s1 where s1: "finish_next_unsigned fc p h pfs validator = Inr s1" "s' = s1\<lparr>bs_additional_signatures := sigs\<rparr>"
    by (rule finish_next_Inr[OF fin])
  have "bs_common s1 = pb_common p" by (rule finish_next_unsigned_Inr[OF s1(1)])
  then show ?thesis by (intro that[OF p fin s1]) (simp add: s1(2))
qed

lemma next_state_dpos:
  assumes "next_state fc s h sigs pfs validator skip = Inr s'" "dpos_inv (bs_common s)"
    "bc_block_num (bs_common s) \<noteq> -1"
  shows "dpos_inv (bs_common s')"
proof -
  obtain p where p: "next_pending fc s (bh_timestamp (sbh_header h)) (bh_confirmed (sbh_header h)) = Inr p"
      "bs_common s' = pb_common p"
    by (rule next_state_Inr[OF assms(1)])
  show ?thesis using next_pending_dpos[OF p(1) assms(2,3)] p(2) by simp
qed

lemma genesis_dpos: "dpos_inv (bs_common (genesis_header_state fc ns key ts chain_id))"
  by (simp add: genesis_header_state_def dpos_inv_def Let_def)

lemma header_chain_dpos:
  "header_chain fc pfs validator s0 s \<Longrightarrow> dpos_inv (bs_common s0) \<Longrightarrow> dpos_inv (bs_common s)"
  by (induction rule: header_chain.induct) (auto intro: next_state_dpos)

section \<open>Signatures of a block\<close>

lemma recover_loop:
  "for_each (\<lambda>sig keys. res_bind (rec sig) (\<lambda>k. eos_assert (k \<notin> keys) e (Inr (insert k keys)))) sigs S = Inr S' \<longleftrightarrow>
   (\<exists>ks. list_all2 (\<lambda>sig k. rec sig = Inr k) sigs ks \<and> distinct ks \<and> set ks \<inter> S = {} \<and> S' = S \<union> set ks)"
proof (induction sigs arbitrary: S S')
  case (Cons sig sigs)
  show ?case
  proof
    assume "for_each (\<lambda>sig keys. res_bind (rec sig) (\<lambda>k. eos_assert (k \<notin> keys) e (Inr (insert k keys)))) (sig # sigs) S = Inr S'"
    then obtain k ks where "rec sig = Inr k" "k \<notin> S" "list_all2 (\<lambda>sig k. rec sig = Inr k) sigs ks" "distinct ks"
        "set ks \<inter> insert k S = {}" "S' = insert k S \<union> set ks"
      by (auto simp: Cons.IH)
    then show "\<exists>ks. list_all2 (\<lambda>sig k. rec sig = Inr k) (sig # sigs) ks \<and> distinct ks \<and> set ks \<inter> S = {} \<and> S' = S \<union> set ks"
      by (intro exI[of _ "k # ks"]) auto
  next
    assume "\<exists>ks. list_all2 (\<lambda>sig k. rec sig = Inr k) (sig # sigs) ks \<and> distinct ks \<and> set ks \<inter> S = {} \<and> S' = S \<union> set ks"
    then obtain k ks where "rec sig = Inr k" "list_all2 (\<lambda>sig k. rec sig = Inr k) sigs ks" "distinct (k # ks)"
        "set (k # ks) \<inter> S = {}" "S' = S \<union> set (k # ks)"
      by (auto simp: list_all2_Cons1)
    then show "for_each (\<lambda>sig keys. res_bind (rec sig) (\<lambda>k. eos_assert (k \<notin> keys) e (Inr (insert k keys)))) (sig # sigs) S = Inr S'"
      by (auto simp: Cons.IH)
  qed
qed auto

lemma finish_next_unsigned_signature:
  "finish_next_unsigned fc p (h\<lparr>sbh_producer_signature := sig\<rparr>) pfs validator =
     res_bind (finish_next_unsigned fc p h pfs validator) (\<lambda>s.
       Inr (s\<lparr>bs_header := h\<lparr>sbh_producer_signature := sig\<rparr>\<rparr>))"
  unfolding finish_next_unsigned_def Let_def
  by (simp add: res_bind_def eos_assert_def split: sum.splits)

lemma res_unit_eq: "r = Inr () \<longleftrightarrow> \<not> isl r"
  by (cases r) simp_all

section \<open>Made headers\<close>

lemma downgrade_producers_loop:
  "for_each (\<lambda>p ps.
     let keys = bsa_keys (pa_authority p) in
     eos_assert (length keys = 1 \<and> ucast (kw_weight (hd keys)) = bsa_threshold (pa_authority p)) e
       (Inr (ps @ [\<lparr>pk_producer_name = pa_producer_name p, pk_block_signing_key = kw_key (hd keys)\<rparr>]))) prods acc = Inr ps
   \<Longrightarrow> map pk_producer_name ps = map pk_producer_name acc @ map pa_producer_name prods"
proof (induction prods arbitrary: acc)
  case (Cons p prods)
  then show ?case by (fastforce simp: Let_def)
qed simp

lemma downgrade_producers_Inr:
  assumes "downgrade_producers sch = Inr legacy"
  shows "ps_version legacy = pas_version sch"
    "map pa_producer_name (pas_producers (producer_authority_schedule_of_legacy legacy)) =
     map pa_producer_name (pas_producers sch)"
  using assms downgrade_producers_loop[where acc = "[]"]
  by (auto simp: downgrade_producers_def producer_authority_schedule_of_legacy_def comp_def)

lemma extract_feature_extension:
  assumes "unpack_features fc (pack_features fc fs) = Inr fs" "fs \<noteq> []" "distinct fs"
  shows "extract_extension fc protocol_feature_activation_id (pack_features fc fs) =
    Inr (Some (protocol_feature_activation fs, True))"
  using assms by (simp add: extract_extension_def activation_reflector_init_eq)

lemma extract_schedule_extension:
  assumes "unpack_schedule fc (pack_schedule fc sch) = Inr sch"
  shows "extract_extension fc producer_schedule_change_id (pack_schedule fc sch) =
    Inr (Some (producer_schedule_change_extension sch, True))"
  using assms by (simp add: extract_extension_def producer_schedule_change_id_def protocol_feature_activation_id_def)

definition feature_exts :: "digest list \<Rightarrow> 'k header_exts" where
  "feature_exts fs = (if fs \<noteq> [] then [(protocol_feature_activation_id, protocol_feature_activation fs)] else [])"

definition schedule_exts :: "'k producer_authority_schedule option \<Rightarrow> 'k header_exts" where
  "schedule_exts new = (case new of None \<Rightarrow> [] | Some sch \<Rightarrow> [(producer_schedule_change_id, producer_schedule_change_extension sch)])"

lemmas extension_ids = protocol_feature_activation_id_def producer_schedule_change_id_def

lemma made_extensions:
  assumes "unpack_features fc (pack_features fc fs) = Inr fs" "distinct fs"
    and "\<forall>sch. new = Some sch \<longrightarrow> unpack_schedule fc (pack_schedule fc sch) = Inr sch"
  shows "extract_loop fc 0 0 []
      (let exts = (if length fs > 0 then emplace_extension [] protocol_feature_activation_id (pack_features fc fs) else [])
       in case new of None \<Rightarrow> exts
          | Some sch \<Rightarrow> emplace_extension exts producer_schedule_change_id (pack_schedule fc sch)) =
    Inr (feature_exts fs @ schedule_exts new)"
  using assms extract_feature_extension[OF assms(1) _ assms(2)] extract_schedule_extension[of fc]
  by (auto simp: feature_exts_def schedule_exts_def emplace_extension_def extension_ids Let_def
      split: option.splits)

lemma made_exts_lookup:
  "exts_count (feature_exts fs @ schedule_exts new) producer_schedule_change_id = (if new = None then 0 else 1)"
  "exts_count (feature_exts fs @ schedule_exts new) 0 = (if fs = [] then 0 else 1)"
  "new = Some sch \<Longrightarrow> exts_lower_bound (feature_exts fs @ schedule_exts new) producer_schedule_change_id =
     Some (producer_schedule_change_extension sch)"
  "fs \<noteq> [] \<Longrightarrow> exts_lower_bound (feature_exts fs @ schedule_exts new) protocol_feature_activation_id =
     Some (protocol_feature_activation fs)"
  by (auto simp: exts_count_def exts_lower_bound_def feature_exts_def schedule_exts_def extension_ids
      split: option.splits)

lemma made_features_accepted:
  assumes "finite (pb_prev_activated_protocol_features p)"
    and "distinct fs" "pb_prev_activated_protocol_features p \<inter> set fs = {}"
    and "validator (pb_timestamp p) (pb_prev_activated_protocol_features p) fs = Inr ()"
  shows "new_activated_features validator p (feature_exts fs @ schedule_exts new) =
    Inr (pb_prev_activated_protocol_features p \<union> set fs)"
proof (cases "fs = []")
  case True
  then show ?thesis by (simp add: new_activated_features_def protocol_feature_activation_id_def made_exts_lookup)
next
  case False
  have "make_activation_set (pb_prev_activated_protocol_features p) fs True =
      Inr (pb_prev_activated_protocol_features p \<union> set fs)"
    using make_activation_set_Inr[OF assms(1)] assms(2,3) by simp
  then show ?thesis
    using False made_exts_lookup(4)[OF False, of new] assms(4)
    by (simp add: new_activated_features_def protocol_feature_activation_id_def made_exts_lookup(2) get_activation_def)
qed

end
