(* ===== verification/Header_Chain.thy ===== *)
theory Header_Chain
  imports Block_Header_State
begin

text \<open>
  What the checks of block headers guarantee: the irreversible block is the one that more than two
  thirds of the producers have reached, schedules change only as the protocol allows, the
  signatures of a block are checked exactly, and headers that a producer makes and signs are accepted.
\<close>

section \<open>Properties\<close>

text \<open>
  C20. The irreversible block number that the next block of a producer implies is the
  largest one that more than two thirds of the tracked producers have reached, the producer
  itself counted at its newest proposal.
\<close>

theorem calc_dpos_supermajority:
  fixes s :: "('k, 's) block_header_state"
  defines "reached \<equiv> \<lambda>producer. map (\<lambda>(p, n). if p = producer then bc_dpos_proposed_irreversible_blocknum (bs_common s) else n)
      (bc_producer_to_last_implied_irb (bs_common s))"
  assumes "bc_producer_to_last_implied_irb (bs_common s) \<noteq> []"
  shows "2 * length (reached producer) <
      3 * length (filter (\<lambda>n. calc_dpos_last_irreversible s producer \<le> n) (reached producer)) \<and>
    (\<forall>v. calc_dpos_last_irreversible s producer < v \<longrightarrow>
      3 * length (filter (\<lambda>n. v \<le> n) (reached producer)) \<le> 2 * length (reached producer))"
proof -
  have ne: "reached producer \<noteq> []" using assms(2) by (simp add: reached_def)
  have eq: "calc_dpos_last_irreversible s producer = sort (reached producer) ! ((length (reached producer) - 1) div 3)"
    using ne by (simp add: calc_dpos_last_irreversible_def Let_def reached_def)
  show ?thesis
    unfolding eq using third_element_supermajority(2,3)[OF ne] by blast
qed

text \<open>
  C21. In every state that headers lead to from genesis, the irreversible block is not after
  the proposed one, the proposed one is not after the head, and the confirmation counters track
  blocks after the proposed one only.
\<close>

theorem irreversible_le_proposed_le_head:
  assumes "header_chain fc pfs validator (genesis_header_state fc ns key ts chain_id) s"
  shows "bc_dpos_irreversible_blocknum (bs_common s) \<le> bc_dpos_proposed_irreversible_blocknum (bs_common s) \<and>
    bc_dpos_proposed_irreversible_blocknum (bs_common s) \<le> bc_block_num (bs_common s) \<and>
    unat (bc_dpos_proposed_irreversible_blocknum (bs_common s)) + length (bc_confirm_count (bs_common s)) \<le>
      unat (bc_block_num (bs_common s))"
  using header_chain_dpos[OF assms genesis_dpos]
  by (auto simp: dpos_inv_def word_le_nat_alt)

lemma not_confirmed_before:
  "n < bn - ucast confirmed \<longleftrightarrow>
    unat n + unat confirmed < unat bn + (if unat confirmed \<le> unat bn then 0 else 2 ^ 32)"
  for n bn :: u32 and confirmed :: u16
proof -
  have "unat confirmed < 2 ^ 16" using unsigned_less[of confirmed, where ?'a = nat] by simp
  then have "unat (ucast confirmed :: u32) = unat confirmed" by (simp add: unsigned_ucast_eq take_bit_nat_eq_self)
  then show ?thesis
    using unsigned_less[of n, where ?'a = nat] \<open>unat confirmed < 2 ^ 16\<close>
    by (simp add: word_less_nat_alt unat_sub_if' less_diff_conv)
qed

lemma tbl_wf_fold_insert: "tbl_wf m \<Longrightarrow> tbl_wf (fold (\<lambda>x. tbl_insert (k x) (v x)) xs m)"
  by (induction xs arbitrary: m) simp_all

lemma tbl_wf_promote_map: "tbl_wf (promote_map sch producer own old fallback)"
  by (simp add: promote_map_def tbl_wf_fold_insert)

text \<open>
  C22. Accepting a header makes a schedule active only if it was the pending one and the block
  that proposed it has become irreversible, and makes a new schedule pending only if none was,
  in a block that does not promote one, with the next version number; every header extends
  the block before it and comes from the producer scheduled for its slot. A header that confirms no more blocks
  than there are before it confirms only blocks after the last one recorded for its producer, and is then recorded
  as the last one itself. For a larger number the comparison that refuses a double confirmation wraps around, and
  what it then guarantees is a bound of 32 bits only.
\<close>

theorem next_state_schedule_safety:
  fixes s s' :: "('k, 's) block_header_state"
  assumes run: "next_state fc s h sigs pfs validator skip = Inr s'"
  defines "c \<equiv> bs_common s" and "c' \<equiv> bs_common s'" and "pend \<equiv> bs_pending_schedule s" and "pend' \<equiv> bs_pending_schedule s'"
  shows "(bc_active_schedule c' = bc_active_schedule c \<or>
      bc_active_schedule c' = si_schedule pend \<and> pas_producers (si_schedule pend) \<noteq> [] \<and>
      si_schedule_lib_num pend \<le> bc_dpos_irreversible_blocknum c') \<and>
    (pas_producers (si_schedule pend') = [] \<or> si_schedule pend' = si_schedule pend \<or>
      pas_producers (si_schedule pend) = [] \<and> bc_active_schedule c' = bc_active_schedule c \<and>
      pas_version (si_schedule pend') = pas_version (bc_active_schedule c) + 1 \<and>
      si_schedule_lib_num pend' = bc_block_num c') \<and>
    bh_previous (sbh_header h) = bs_id s \<and>
    (\<exists>pa ts. get_scheduled_producer s ts = Inr pa \<and> bh_producer (sbh_header h) = pa_producer_name pa \<and>
      bh_timestamp (sbh_header h) = ts \<and> bc_valid_block_signing_authority c' = pa_authority pa) \<and>
    (\<forall>n. tbl_find (bc_producer_to_last_produced c) (bh_producer (sbh_header h)) = Some n \<longrightarrow>
      unat n + unat (bh_confirmed (sbh_header h)) <
        unat (bc_block_num c') + (if unat (bh_confirmed (sbh_header h)) \<le> unat (bc_block_num c') then 0 else 2 ^ 32)) \<and>
    (tbl_wf (bc_producer_to_last_produced c) \<longrightarrow>
      tbl_find (bc_producer_to_last_produced c') (bh_producer (sbh_header h)) = Some (bc_block_num c'))"
proof -
  obtain p s1 where p: "next_pending fc s (bh_timestamp (sbh_header h)) (bh_confirmed (sbh_header h)) = Inr p"
      and s1: "finish_next_unsigned fc p h pfs validator = Inr s1" "s' = s1\<lparr>bs_additional_signatures := sigs\<rparr>"
      and c': "bs_common s' = pb_common p"
    by (rule next_state_Inr[OF run])
  note f = next_pending_common[OF p, folded c_def pend_def c', folded c'_def]
  obtain pa where pa: "get_scheduled_producer s (pb_timestamp p) = Inr pa" "pb_producer p = pa_producer_name pa"
      "bc_valid_block_signing_authority (pb_common p) = pa_authority pa"
      "case tbl_find (bc_producer_to_last_produced (bs_common s)) (pb_producer p) of
         None \<Rightarrow> True | Some n \<Rightarrow> n < (bc_block_num (bs_common s) + 1) - ucast (bh_confirmed (sbh_header h))"
    by (rule next_pending_Inr[OF p])
  obtain legacy maybe_new w where u: "bh_timestamp (sbh_header h) = pb_timestamp p" "bh_previous (sbh_header h) = pb_previous p"
      "bh_producer (sbh_header h) = pb_producer p" "bs_pending_schedule s1 = next_pending_schedule p maybe_new"
      and lg: "legacy_schedule_change fc p (sbh_header h) w = Inr legacy"
      and ex: "extension_schedule_change fc p (bs_header_exts s1) w legacy = Inr maybe_new"
    by (rule finish_next_unsigned_Inr[OF s1(1)])
  have promo: "bc_active_schedule c' = bc_active_schedule c \<or>
      bc_active_schedule c' = si_schedule pend \<and> pas_producers (si_schedule pend) \<noteq> [] \<and>
      si_schedule_lib_num pend \<le> bc_dpos_irreversible_blocknum c'"
    using f(4,5) by auto
  have change: "\<not> pb_was_pending_promoted p \<and> pas_version sch = pas_version (bc_active_schedule c') + 1 \<and>
      pas_producers (si_schedule pend) = []" if "maybe_new = Some (sch, d)" for sch d
    using that lg ex f(8) unfolding legacy_schedule_change_def extension_schedule_change_def c'[symmetric] c'_def[symmetric]
    by (auto simp: producer_authority_schedule_of_legacy_def split: option.splits if_splits)
  have pend: "pas_producers (si_schedule pend') = [] \<or> si_schedule pend' = si_schedule pend \<or>
      pas_producers (si_schedule pend) = [] \<and> bc_active_schedule c' = bc_active_schedule c \<and>
      pas_version (si_schedule pend') = pas_version (bc_active_schedule c) + 1 \<and>
      si_schedule_lib_num pend' = bc_block_num c'"
  proof (cases maybe_new)
    case None
    then show ?thesis
      using u(4) s1(2) f(8) by (auto simp: pend'_def next_pending_schedule_def Let_def producer_authority_schedule_default_def)
  next
    case (Some x)
    obtain sch d where x: "x = (sch, d)" by (cases x)
    note ch = change[OF Some[unfolded x]]
    have "pend' = \<lparr>si_schedule_lib_num = bc_block_num c', si_schedule_hash = d, si_schedule = sch\<rparr>"
      using u(4) s1(2) Some x c' by (simp add: pend'_def next_pending_schedule_def c'_def)
    then show ?thesis using ch f(5) by simp
  qed
  have confirms: "\<forall>n. tbl_find (bc_producer_to_last_produced c) (bh_producer (sbh_header h)) = Some n \<longrightarrow>
      unat n + unat (bh_confirmed (sbh_header h)) <
        unat (bc_block_num c') + (if unat (bh_confirmed (sbh_header h)) \<le> unat (bc_block_num c') then 0 else 2 ^ 32)"
    using pa(4) u(3) f(1) by (auto simp: c_def not_confirmed_before)
  have made: "tbl_wf (bc_producer_to_last_produced c) \<longrightarrow>
      tbl_find (bc_producer_to_last_produced c') (bh_producer (sbh_header h)) = Some (bc_block_num c')"
    using f(7) u(3) by (simp add: tbl_wf_promote_map)
  show ?thesis
    using promo pend u(1-3) f(9) pa(1-3) c' confirms made by (auto simp: c_def c'_def)
qed

text \<open>
  C23. The check of a block's signatures succeeds exactly when every signature recovers to a
  key, the keys are distinct and all belong to the signing authority, and their weights reach its
  threshold; there are then no more signatures than keys in the authority.
\<close>

theorem verify_signee_iff:
  fixes s :: "('k, 's) block_header_state"
  defines "auth \<equiv> bc_valid_block_signing_authority (bs_common s)"
  shows "verify_signee fc s = Inr () \<longleftrightarrow>
    (\<exists>ks. list_all2 (\<lambda>sig k. recover_key fc sig (sig_digest fc s) = Inr k)
            (sbh_producer_signature (bs_header s) # bs_additional_signatures s) ks \<and>
       distinct ks \<and> length ks \<le> length (bsa_keys auth) \<and>
       length (filter (\<lambda>k. kw_key k \<in> set ks) (bsa_keys auth)) = length ks \<and>
       unat (bsa_threshold auth) \<le>
         sum_list (map (\<lambda>k. unat (kw_weight k)) (filter (\<lambda>k. kw_key k \<in> set ks) (bsa_keys auth))))"
    (is "_ \<longleftrightarrow> (\<exists>ks. ?P ks)")
proof -
  define Q where "Q = (\<lambda>S. length (filter (\<lambda>k. kw_key k \<in> S) (bsa_keys auth)) = card S \<and>
      unat (bsa_threshold auth) \<le> sum_list (map (\<lambda>k. unat (kw_weight k)) (filter (\<lambda>k. kw_key k \<in> S) (bsa_keys auth))))"
  define rec where "rec = (\<lambda>sig. recover_key fc sig (sig_digest fc s))"
  have "verify_signee fc s = Inr () \<longleftrightarrow> Suc (length (bs_additional_signatures s)) \<le> length (bsa_keys auth) \<and>
      (\<exists>key. rec (sbh_producer_signature (bs_header s)) = Inr key \<and>
        (\<exists>S. for_each (\<lambda>sig keys. res_bind (rec sig) (\<lambda>k. eos_assert (k \<notin> keys) wrong_signing_key (Inr (insert k keys))))
               (bs_additional_signatures s) {key} = Inr S \<and> Q S))"
    unfolding verify_signee_def Let_def auth_def[symmetric] keys_satisfy_and_relevant_eq rec_def Q_def by simp
  also have "\<dots> \<longleftrightarrow> (\<exists>key ks. rec (sbh_producer_signature (bs_header s)) = Inr key \<and>
         list_all2 (\<lambda>sig k. rec sig = Inr k) (bs_additional_signatures s) ks \<and>
         distinct (key # ks) \<and> Suc (length (bs_additional_signatures s)) \<le> length (bsa_keys auth) \<and> Q (set (key # ks)))"
    unfolding recover_loop by auto
  also have "\<dots> \<longleftrightarrow> (\<exists>key ks. ?P (key # ks))"
    unfolding Q_def rec_def by (intro iff_exI) (auto simp: distinct_card dest: list_all2_lengthD)
  also have "\<dots> \<longleftrightarrow> (\<exists>ks. ?P ks)"
  proof
    assume "\<exists>ks. ?P ks"
    then obtain ks where ks: "?P ks" ..
    then obtain key ks' where "ks = key # ks'" by (cases ks) auto
    then show "\<exists>key ks. ?P (key # ks)" using ks by blast
  qed blast
  finally show ?thesis .
qed

text \<open>
  A block that a producer finishes and signs is accepted by every other node: finishing
  the signed header with the additional signatures, all checks included, succeeds and gives
  the same state.
\<close>

lemma signed_block_accepted:
  assumes "finish_next_sign fc p h pfs validator signer = Inr (s', h')"
  shows "finish_next fc p h' (bs_additional_signatures s') pfs validator False = Inr s'"
proof -
  obtain s where s: "finish_next_unsigned fc p h pfs validator = Inr s" "sign fc signer s = Inr s'"
      and h': "h' = h\<lparr>sbh_producer_signature := sbh_producer_signature (bs_header s')\<rparr>"
      and wtm: "bs_additional_signatures s' \<noteq> [] \<longrightarrow>
        is_builtin_in_set (pb_prev_activated_protocol_features p) pfs wtmsig_block_signatures"
    using assms by (auto simp: finish_next_sign_def Let_def)
  obtain sigs where s': "s' = s\<lparr>bs_header := (bs_header s)\<lparr>sbh_producer_signature := last sigs\<rparr>,
        bs_additional_signatures := butlast sigs\<rparr>"
      and ver: "verify_signee fc s' = Inr ()"
    using s(2) by (auto simp: sign_def Let_def)
  have hs: "bs_header s = h \<and> bs_additional_signatures s = []" by (rule finish_next_unsigned_Inr[OF s(1)]) simp
  have "finish_next_unsigned fc p h' pfs validator = Inr (s\<lparr>bs_header := h'\<rparr>)"
    unfolding h' finish_next_unsigned_signature s(1) by simp
  moreover have "(if bs_additional_signatures s' \<noteq> [] then s\<lparr>bs_header := h', bs_additional_signatures := bs_additional_signatures s'\<rparr>
      else s\<lparr>bs_header := h'\<rparr>) = s'"
    using hs by (cases s) (simp add: s' h')
  ultimately show ?thesis
    using wtm ver by (simp add: finish_next_def Let_def)
qed

text \<open>
  C25. A header made from the template of the next block passes the checks against that
  template, provided the new features are distinct, not yet active and approved by the validator,
  and a new schedule has the next version, while no schedule is pending or being promoted. The
  state then activates exactly the new features, and the new schedule is pending from this block on.
\<close>

theorem made_header_accepted:
  fixes p :: "'k pending_block_header_state"
  assumes mk: "make_block_header fc ns p tmroot amroot new fs pfs = Inr h"
    and "finite (pb_prev_activated_protocol_features p)"
    and "distinct fs" "pb_prev_activated_protocol_features p \<inter> set fs = {}"
    and "validator (pb_timestamp p) (pb_prev_activated_protocol_features p) fs = Inr ()"
    and "\<forall>sch. new = Some sch \<longrightarrow> \<not> pb_was_pending_promoted p \<and>
      pas_version sch = pas_version (bc_active_schedule (pb_common p)) + 1 \<and>
      pas_producers (si_schedule (pb_prev_pending_schedule p)) = []"
    and "unpack_features fc (pack_features fc fs) = Inr fs"
    and "\<forall>sch. new = Some sch \<longrightarrow> unpack_schedule fc (pack_schedule fc sch) = Inr sch"
  shows "\<exists>s'. finish_next_unsigned fc p h pfs validator = Inr s' \<and>
    bs_common s' = pb_common p \<and>
    bs_activated_protocol_features s' = pb_prev_activated_protocol_features p \<union> set fs \<and>
    (\<forall>sch. new = Some sch \<longrightarrow>
      si_schedule_lib_num (bs_pending_schedule s') = bc_block_num (pb_common p) \<and>
      pas_version (si_schedule (bs_pending_schedule s')) = pas_version sch \<and>
      map pa_producer_name (pas_producers (si_schedule (bs_pending_schedule s'))) = map pa_producer_name (pas_producers sch))"
proof -
  let ?wtm = "is_builtin_in_set (pb_prev_activated_protocol_features p) pfs wtmsig_block_signatures"
  define ext_new where "ext_new = (if ?wtm then new else None)"
  have ext: "extract_loop fc 0 0 [] (bh_header_extensions (sbh_header h)) = Inr (feature_exts fs @ schedule_exts ext_new)"
    using mk made_extensions[OF assms(7,3), of ext_new] assms(8)
    by (auto simp: make_block_header_def Let_def ext_new_def split: option.splits if_splits)
  then have ext': "validate_and_extract_header_extensions fc (sbh_header h) = Inr (feature_exts fs @ schedule_exts ext_new)"
    by (simp add: validate_and_extract_header_extensions_def)
  have fields: "bh_timestamp (sbh_header h) = pb_timestamp p" "bh_previous (sbh_header h) = pb_previous p"
      "bh_confirmed (sbh_header h) = pb_confirmed p" "bh_producer (sbh_header h) = pb_producer p"
      "bh_schedule_version (sbh_header h) = pb_active_schedule_version p"
    using mk by (auto simp: make_block_header_def Let_def split: option.splits if_splits)
  note feats = made_features_accepted[where new = ext_new and validator = validator and p = p and fs = fs, OF assms(2-5)]
  show ?thesis
  proof (cases new)
    case None
    then have "bh_new_producers (sbh_header h) = None" "ext_new = None"
      using mk by (auto simp: make_block_header_def Let_def ext_new_def)
    then show ?thesis
      using None fields ext' feats
      by (simp add: finish_next_unsigned_def Let_def legacy_schedule_change_def extension_schedule_change_def made_exts_lookup)
  next
    case (Some sch)
    note sch = assms(6)[rule_format, OF Some]
    show ?thesis
    proof (cases ?wtm)
      case True
      then have new: "bh_new_producers (sbh_header h) = None" "ext_new = Some sch"
        using mk Some by (auto simp: make_block_header_def Let_def ext_new_def)
      then show ?thesis
        using Some True fields ext' feats sch made_exts_lookup(3)[OF new(2), of fs]
        by (simp add: finish_next_unsigned_def Let_def legacy_schedule_change_def extension_schedule_change_def
            made_exts_lookup(1) get_schedule_change_def next_pending_schedule_def)
    next
      case False
      then obtain legacy where new: "bh_new_producers (sbh_header h) = Some legacy" "ext_new = None"
          and d: "downgrade_producers sch = Inr legacy"
        using mk Some by (auto simp: make_block_header_def Let_def ext_new_def)
      have "pas_version (producer_authority_schedule_of_legacy legacy) = pas_version sch"
        using downgrade_producers_Inr(1)[OF d] by (simp add: producer_authority_schedule_of_legacy_def)
      then show ?thesis
        using Some False fields ext' feats sch new downgrade_producers_Inr[OF d]
        by (simp add: finish_next_unsigned_def Let_def legacy_schedule_change_def extension_schedule_change_def
            made_exts_lookup(1) next_pending_schedule_def)
    qed
  qed
qed

section \<open>Examples\<close>

text \<open>The block after genesis, by the only producer, whose key is 5.\<close>

definition example_genesis :: "(nat, nat) block_header_state" where
  "example_genesis = genesis_header_state example_fc 0 5 10 digest_default"

definition example_next_header :: "(nat, nat) signed_block_header" where
  "example_next_header = \<lparr>sbh_header = \<lparr>bh_timestamp = 11, bh_producer = system_account_name, bh_confirmed = 0,
     bh_previous = bs_id example_genesis, bh_transaction_mroot = digest_default, bh_action_mroot = digest_default,
     bh_schedule_version = 0, bh_new_producers = None, bh_header_extensions = []\<rparr>, sbh_producer_signature = 5\<rparr>"

definition example_validator :: feature_validator where
  "example_validator ts active new = Inr ()"

definition example_made ::
  "(nat pending_block_header_state \<times> (nat, nat) signed_block_header \<times>
    (nat, nat) block_header_state \<times> (nat, nat) signed_block_header) res" where
  "example_made =
     res_bind (next_pending example_fc example_genesis 11 0) (\<lambda>p.
     res_bind (make_block_header example_fc 0 p digest_default digest_default None [digest_default]
                 protocol_feature_set_new) (\<lambda>h.
     res_bind (finish_next_sign example_fc p h protocol_feature_set_new example_validator (\<lambda>d. Inr [5])) (\<lambda>(s, h').
     Inr (p, h, s, h'))))"

lemma example_next_succeeds:
  "\<not> isl (next_state example_fc example_genesis example_next_header [] protocol_feature_set_new example_validator False)"
  by code_simp

lemma example_made_succeeds: "\<not> isl example_made"
  by code_simp

definition example_voting :: "(nat, nat) block_header_state" where
  "example_voting = example_genesis\<lparr>bs_common := (bs_common example_genesis)
     \<lparr>bc_producer_to_last_implied_irb := [(1, 3), (2, 8), (4, 7)], bc_dpos_proposed_irreversible_blocknum := 9\<rparr>\<rparr>"

theorem calc_dpos_supermajority_witness:
  "2 * length [3 :: u32, 9, 7] < 3 * length (filter (\<lambda>n. calc_dpos_last_irreversible example_voting 2 \<le> n) [3, 9, 7])"
  using calc_dpos_supermajority[of example_voting 2] by (simp add: example_voting_def)

theorem irreversible_le_proposed_le_head_witness:
  "\<exists>s'. next_state example_fc example_genesis example_next_header [] protocol_feature_set_new example_validator False = Inr s' \<and>
    bc_dpos_irreversible_blocknum (bs_common s') \<le> bc_block_num (bs_common s')"
proof -
  obtain s' where run: "next_state example_fc example_genesis example_next_header [] protocol_feature_set_new
      example_validator False = Inr s'"
    by (rule not_isl_obtain[OF example_next_succeeds])
  have "bc_block_num (bs_common example_genesis) \<noteq> -1" by code_simp
  then have "header_chain example_fc protocol_feature_set_new example_validator
      (genesis_header_state example_fc 0 5 10 digest_default) s'"
    using chain_step[OF chain_start _ run] by (simp add: example_genesis_def)
  from irreversible_le_proposed_le_head[OF this] run show ?thesis by (intro exI[of _ s']) (auto intro: order_trans)
qed

text \<open>
  The third block, by the producer of the second one. With the claim to confirm ten blocks, where there are only two,
  it is accepted by wrap-around.
\<close>

definition example_second :: "(nat, nat) block_header_state" where
  "example_second = res_value example_genesis
     (next_state example_fc example_genesis example_next_header [] protocol_feature_set_new example_validator False)"

definition example_third_header :: "u16 \<Rightarrow> (nat, nat) signed_block_header" where
  "example_third_header confirmed = example_next_header\<lparr>sbh_header := (sbh_header example_next_header)
     \<lparr>bh_timestamp := 12, bh_confirmed := confirmed, bh_previous := bs_id example_second\<rparr>\<rparr>"

lemma example_third_succeeds:
  "\<not> isl (next_state example_fc example_second (example_third_header 0) [] protocol_feature_set_new example_validator False)"
  "\<not> isl (next_state example_fc example_second (example_third_header 10) [] protocol_feature_set_new example_validator False)"
  by code_simp+

theorem next_state_schedule_safety_witness:
  "tbl_find (bc_producer_to_last_produced (bs_common example_second)) system_account_name = Some 2 \<and>
   (\<exists>s' pa. next_state example_fc example_second (example_third_header 0) [] protocol_feature_set_new example_validator False = Inr s' \<and>
     get_scheduled_producer example_second 12 = Inr pa \<and> pa_producer_name pa = system_account_name \<and>
     2 < unat (bc_block_num (bs_common s')) \<and>
     tbl_find (bc_producer_to_last_produced (bs_common s')) system_account_name = Some (bc_block_num (bs_common s'))) \<and>
   (\<exists>s'. next_state example_fc example_second (example_third_header 10) [] protocol_feature_set_new example_validator False = Inr s' \<and>
     tbl_find (bc_producer_to_last_produced (bs_common s')) system_account_name = Some (bc_block_num (bs_common s')))"
proof -
  obtain s' where s': "next_state example_fc example_second (example_third_header 0) [] protocol_feature_set_new
      example_validator False = Inr s'"
    by (rule not_isl_obtain[OF example_third_succeeds(1)])
  obtain s2 where s2: "next_state example_fc example_second (example_third_header 10) [] protocol_feature_set_new
      example_validator False = Inr s2"
    by (rule not_isl_obtain[OF example_third_succeeds(2)])
  have g: "tbl_find (bc_producer_to_last_produced (bs_common example_second)) system_account_name = Some 2"
    "tbl_wf (bc_producer_to_last_produced (bs_common example_second))" by code_simp+
  have h: "bh_producer (sbh_header (example_third_header n)) = system_account_name"
    "bh_timestamp (sbh_header (example_third_header n)) = 12" "bh_confirmed (sbh_header (example_third_header n)) = n" for n
    by (simp_all add: example_third_header_def example_next_header_def)
  show ?thesis
    using next_state_schedule_safety[OF s'] next_state_schedule_safety[OF s2] g s' s2 by (auto simp: h)
qed

theorem made_header_accepted_witness:
  "\<exists>p h s'. finish_next_unsigned example_fc p h protocol_feature_set_new example_validator = Inr s' \<and>
    bs_activated_protocol_features s' = {digest_default}"
proof -
  obtain x where x: "example_made = Inr x" by (rule not_isl_obtain[OF example_made_succeeds])
  obtain p h s' h' where "x = (p, h, s', h')" by (cases x)
  then have p: "next_pending example_fc example_genesis 11 0 = Inr p"
    and h: "make_block_header example_fc 0 p digest_default digest_default None [digest_default] protocol_feature_set_new = Inr h"
    using x by (auto simp: example_made_def)
  have act: "pb_prev_activated_protocol_features p = {}"
    unfolding next_pending_common(11)[OF p] by (simp add: example_genesis_def genesis_header_state_def Let_def)
  have fc: "unpack_features example_fc (pack_features example_fc [digest_default]) = Inr [digest_default]"
    by (simp add: example_fc_def)
  show ?thesis
    using made_header_accepted[OF h, of example_validator] act fc by (auto simp: example_validator_def)
qed

end
