(* ===== verification/Blocks.thy ===== *)
theory Blocks
  imports Header_Chain
begin

text \<open>
  Blocks and their states (\<^verbatim>\<open>block.hpp\<close>, \<^verbatim>\<open>block.cpp\<close>, \<^verbatim>\<open>block_state.hpp\<close>, \<^verbatim>\<open>block_state.cpp\<close>): the
  extension that carries additional signatures, and how a block state is made from a received
  and from a produced block. A packed transaction is of type \<open>'t\<close> and the metadata cached for one of type \<open>'m\<close>.
\<close>

section \<open>Blocks\<close>

datatype status_enum = executed | soft_fail | hard_fail | delayed | expired

record 't transaction_receipt =
  tr_status :: status_enum
  tr_cpu_usage_us :: u32
  tr_net_usage_words :: u32
  tr_trx :: "digest + 't"

definition transaction_receipt_of_id :: "digest \<Rightarrow> 't transaction_receipt" where
  "transaction_receipt_of_id tid =
     \<lparr>tr_status = executed, tr_cpu_usage_us = 0, tr_net_usage_words = 0, tr_trx = Inl tid\<rparr>"

definition transaction_receipt_of_packed :: "'t \<Rightarrow> 't transaction_receipt" where
  "transaction_receipt_of_packed ptrx =
     \<lparr>tr_status = executed, tr_cpu_usage_us = 0, tr_net_usage_words = 0, tr_trx = Inr ptrx\<rparr>"

definition receipt_digest ::
  "(status_enum \<Rightarrow> u32 \<Rightarrow> u32 \<Rightarrow> digest \<Rightarrow> digest) \<Rightarrow> ('t \<Rightarrow> digest) \<Rightarrow> 't transaction_receipt \<Rightarrow> digest" where
  "receipt_digest enc packed_digest r =
     enc (tr_status r) (tr_cpu_usage_us r) (tr_net_usage_words r)
       (case tr_trx r of Inl tid \<Rightarrow> tid | Inr ptrx \<Rightarrow> packed_digest ptrx)"

record ('k, 's, 't) signed_block =
  sb_signed_header :: "('k, 's) signed_block_header"
  sb_transactions :: "'t transaction_receipt list"
  sb_block_extensions :: extensions_type

text \<open>Packing and unpacking of a vector of signatures.\<close>

record 's signature_codec =
  pack_signatures :: "'s list \<Rightarrow> bytes"
  unpack_signatures :: "bytes \<Rightarrow> 's list res"

definition additional_sigs_eid :: u16 where
  "additional_sigs_eid = 2"

definition signatures_reflector_init :: "'s list \<Rightarrow> 's list res" where
  "signatures_reflector_init sigs =
     eos_assert (length sigs > 0) ill_formed_additional_block_signatures_extension
     (res_bind (for_each (\<lambda>s unique_sigs.
          eos_assert (s \<notin> unique_sigs) ill_formed_additional_block_signatures_extension
            (Inr (insert s unique_sigs))) sigs {})
        (\<lambda>_. Inr sigs))"

definition extract_block_extension :: "'s signature_codec \<Rightarrow> u16 \<Rightarrow> bytes \<Rightarrow> ('s list \<times> bool) option res" where
  "extract_block_extension codec eid data =
     (if eid = additional_sigs_eid then
        res_bind (unpack_signatures codec data) (\<lambda>raw.
        res_bind (signatures_reflector_init raw) (\<lambda>sigs. Inr (Some (sigs, True))))
      else Inr None)"

fun extract_block_loop ::
  "'s signature_codec \<Rightarrow> nat \<Rightarrow> u16 \<Rightarrow> (u16 \<times> 's list) list \<Rightarrow> extensions_type \<Rightarrow> (u16 \<times> 's list) list res" where
  "extract_block_loop codec i lower_bound results [] = Inr results"
| "extract_block_loop codec i lower_bound results ((eid, data) # exts) =
     eos_assert (eid \<ge> lower_bound) invalid_block_extension
     (res_bind (extract_block_extension codec eid data) (\<lambda>match.
      case match of
        None \<Rightarrow> Inl invalid_block_extension
      | Some (ext, enforce_unique) \<Rightarrow>
          eos_assert (enforce_unique \<longrightarrow> i = 0 \<or> eid > lower_bound) invalid_block_header_extension
          (extract_block_loop codec (Suc i) eid (results @ [(eid, ext)]) exts)))"

definition validate_and_extract_extensions ::
  "'s signature_codec \<Rightarrow> ('k, 's, 't) signed_block \<Rightarrow> (u16 \<times> 's list) list res" where
  "validate_and_extract_extensions codec b = extract_block_loop codec 0 0 [] (sb_block_extensions b)"

section \<open>Block states\<close>

record ('k, 's, 't, 'm) block_state =
  bst_header_state :: "('k, 's) block_header_state"
  bst_block :: "('k, 's, 't) signed_block option"
  bst_validated :: bool
  bst_pub_keys_recovered :: bool
  bst_cached_trxs :: "'m list"

definition extract_trxs_metas :: "('k, 's, 't, 'm) block_state \<Rightarrow> 'm list \<times> ('k, 's, 't, 'm) block_state" where
  "extract_trxs_metas b = (bst_cached_trxs b, b\<lparr>bst_pub_keys_recovered := False, bst_cached_trxs := []\<rparr>)"

definition set_trxs_metas :: "'m list \<Rightarrow> bool \<Rightarrow> ('k, 's, 't, 'm) block_state \<Rightarrow> ('k, 's, 't, 'm) block_state" where
  "set_trxs_metas metas keys_recovered b = b\<lparr>bst_pub_keys_recovered := keys_recovered, bst_cached_trxs := metas\<rparr>"

definition extract_additional_signatures :: "'s signature_codec \<Rightarrow> ('k, 's, 't) signed_block \<Rightarrow> 's list res" where
  "extract_additional_signatures codec b =
     res_bind (validate_and_extract_extensions codec b) (\<lambda>exts.
     if length (filter (\<lambda>e. fst e = additional_sigs_eid) exts) > 0 then
       (case find (\<lambda>e. additional_sigs_eid \<le> fst e) exts of
          None \<Rightarrow> Inl undefined_behavior
        | Some e \<Rightarrow> Inr (snd e))
     else Inr [])"

definition inject_additional_signatures ::
  "('k, 's) fc_library \<Rightarrow> 's signature_codec \<Rightarrow> 'k pending_block_header_state \<Rightarrow> ('k, 's, 't) signed_block \<Rightarrow>
   protocol_feature_set \<Rightarrow> feature_validator \<Rightarrow> (digest \<Rightarrow> 's list res) \<Rightarrow>
   (('k, 's) block_header_state \<times> ('k, 's, 't) signed_block) res" where
  "inject_additional_signatures fc codec cur b pfs validator signer =
     res_bind (finish_next_sign fc cur (sb_signed_header b) pfs validator signer) (\<lambda>(result, h).
     let b = b\<lparr>sb_signed_header := h\<rparr> in
     if bs_additional_signatures result \<noteq> [] then
       eos_assert (is_builtin_in_set (pb_prev_activated_protocol_features cur) pfs wtmsig_block_signatures)
         block_validate_exception
       (Inr (result, b\<lparr>sb_block_extensions := emplace_extension (sb_block_extensions b) additional_sigs_eid
                         (pack_signatures codec (bs_additional_signatures result))\<rparr>))
     else Inr (result, b))"

definition block_state_received ::
  "('k, 's) fc_library \<Rightarrow> 's signature_codec \<Rightarrow> ('k, 's) block_header_state \<Rightarrow> ('k, 's, 't) signed_block \<Rightarrow>
   protocol_feature_set \<Rightarrow> feature_validator \<Rightarrow> bool \<Rightarrow> ('k, 's, 't, 'm) block_state res" where
  "block_state_received fc codec prev b pfs validator skip_validate_signee =
     res_bind (extract_additional_signatures codec b) (\<lambda>sigs.
     res_bind (next_state fc prev (sb_signed_header b) sigs pfs validator skip_validate_signee) (\<lambda>s.
     Inr \<lparr>bst_header_state = s, bst_block = Some b, bst_validated = False,
          bst_pub_keys_recovered = False, bst_cached_trxs = []\<rparr>))"

definition block_state_produced ::
  "('k, 's) fc_library \<Rightarrow> 's signature_codec \<Rightarrow> 'k pending_block_header_state \<Rightarrow> ('k, 's, 't) signed_block \<Rightarrow>
   'm list \<Rightarrow> protocol_feature_set \<Rightarrow> feature_validator \<Rightarrow> (digest \<Rightarrow> 's list res) \<Rightarrow>
   ('k, 's, 't, 'm) block_state res" where
  "block_state_produced fc codec cur b trx_metas pfs validator signer =
     res_bind (inject_additional_signatures fc codec cur b pfs validator signer) (\<lambda>(s, b).
     Inr \<lparr>bst_header_state = s, bst_block = Some b, bst_validated = False,
          bst_pub_keys_recovered = True, bst_cached_trxs = trx_metas\<rparr>)"

section \<open>Facts\<close>

lemma signatures_reflector_init_eq:
  "signatures_reflector_init sigs =
     (if sigs \<noteq> [] \<and> distinct sigs then Inr sigs else Inl ill_formed_additional_block_signatures_extension)"
  unfolding signatures_reflector_init_def activation_reflector_init_loop by (simp add: eos_assert_def)

lemma extract_injected:
  assumes "sigs \<noteq> [] \<longrightarrow> unpack_signatures codec (pack_signatures codec sigs) = Inr sigs" "distinct sigs"
    and "sb_block_extensions b = (if sigs \<noteq> []
      then emplace_extension [] additional_sigs_eid (pack_signatures codec sigs) else [])"
  shows "extract_additional_signatures codec b = Inr sigs"
  using assms
  by (auto simp: extract_additional_signatures_def validate_and_extract_extensions_def emplace_extension_def
      extract_block_extension_def signatures_reflector_init_eq additional_sigs_eid_def)

section \<open>Properties\<close>

text \<open>
  C24. A block that a producer builds on a block state and signs is accepted by every node
  that has that block state: the receiving node, with all signature checks on, computes the same
  header state, whether or not the block carries additional signatures.
\<close>

theorem produced_block_received:
  fixes b :: "('k, 's, 't) signed_block" and bst :: "('k, 's, 't, 'm) block_state"
  assumes cur: "next_pending fc prev ts confirmed = Inr cur" and "ts \<noteq> 0"
    and made: "block_state_produced fc codec cur b metas pfs validator signer = Inr bst"
    and plain: "sb_block_extensions b = []"
    and codec: "\<And>sigs. sigs \<noteq> [] \<Longrightarrow> unpack_signatures codec (pack_signatures codec sigs) = Inr sigs"
    and sigs: "distinct (bs_additional_signatures (bst_header_state bst))"
  shows "\<exists>b' bst' :: ('k, 's, 't, 'm) block_state. bst_block bst = Some b' \<and>
    block_state_received fc codec prev b' pfs validator False = Inr bst' \<and>
    bst_header_state bst' = bst_header_state bst"
proof -
  obtain s h' where fin: "finish_next_sign fc cur (sb_signed_header b) pfs validator signer = Inr (s, h')"
    using made by (auto simp: block_state_produced_def inject_additional_signatures_def)
  define b' where "b' = b\<lparr>sb_signed_header := h', sb_block_extensions := (if bs_additional_signatures s \<noteq> []
      then emplace_extension [] additional_sigs_eid (pack_signatures codec (bs_additional_signatures s)) else [])\<rparr>"
  have bst: "bst_header_state bst = s" "bst_block bst = Some b'"
    using made plain unfolding block_state_produced_def inject_additional_signatures_def fin b'_def
    by (auto simp: Let_def split: if_splits)
  note acc = signed_block_accepted[OF fin]
  obtain s1 where u: "finish_next_unsigned fc cur h' pfs validator = Inr s1"
    by (rule finish_next_Inr[OF acc])
  have f: "bh_timestamp (sbh_header h') = pb_timestamp cur \<and> bh_confirmed (sbh_header h') = pb_confirmed cur"
    by (rule finish_next_unsigned_Inr[OF u]) simp
  have "pb_timestamp cur = ts"
    by (rule next_pending_Inr[OF cur]) (use \<open>ts \<noteq> 0\<close> in simp)
  moreover have "pb_confirmed cur = confirmed" by (rule next_pending_common[OF cur])
  ultimately have "next_state fc prev h' (bs_additional_signatures s) pfs validator False = Inr s"
    using f cur acc by (simp add: next_state_def)
  moreover have "extract_additional_signatures codec b' = Inr (bs_additional_signatures s)"
    by (rule extract_injected) (use codec sigs bst in \<open>auto simp: b'_def\<close>)
  ultimately have "block_state_received fc codec prev b' pfs validator False =
      Inr (\<lparr>bst_header_state = s, bst_block = Some b', bst_validated = False,
        bst_pub_keys_recovered = False, bst_cached_trxs = []\<rparr> :: ('k, 's, 't, 'm) block_state)"
    by (simp add: block_state_received_def b'_def)
  then show ?thesis using bst by auto
qed

section \<open>Examples\<close>

text \<open>A signature that is a number is packed as that many zeros and a one.\<close>

fun example_unpack :: "nat \<Rightarrow> bytes \<Rightarrow> nat list" where
  "example_unpack n [] = []"
| "example_unpack n (b # bs) = (if b = 0 then example_unpack (Suc n) bs else n # example_unpack 0 bs)"

definition example_codec :: "nat signature_codec" where
  "example_codec = \<lparr>pack_signatures = (\<lambda>sigs. concat (map (\<lambda>n. replicate n 0 @ [1]) sigs)),
     unpack_signatures = (\<lambda>bs. Inr (example_unpack 0 bs))\<rparr>"

lemma example_unpack_one: "example_unpack k (replicate n 0 @ 1 # bs) = (k + n) # example_unpack 0 bs"
  by (induction n arbitrary: k) simp_all

lemma example_codec_inverse: "unpack_signatures example_codec (pack_signatures example_codec sigs) = Inr sigs"
  by (induction sigs) (simp_all add: example_codec_def example_unpack_one)

definition example_block :: "(nat, nat) signed_block_header \<Rightarrow> (nat, nat, nat) signed_block" where
  "example_block h = \<lparr>sb_signed_header = h, sb_transactions = [], sb_block_extensions = []\<rparr>"

definition example_produced ::
  "(nat pending_block_header_state \<times> (nat, nat) signed_block_header \<times> (nat, nat, nat, nat) block_state) res" where
  "example_produced =
     res_bind (next_pending example_fc example_genesis 11 0) (\<lambda>p.
     res_bind (make_block_header example_fc 0 p digest_default digest_default None [] protocol_feature_set_new) (\<lambda>h.
     res_bind (block_state_produced example_fc example_codec p (example_block h) [] protocol_feature_set_new
                 example_validator (\<lambda>d. Inr [5])) (\<lambda>b.
     if bs_additional_signatures (bst_header_state b) = [] then Inr (p, h, b) else Inl undefined_behavior)))"

lemma example_produced_succeeds: "\<not> isl example_produced"
  by code_simp

theorem produced_block_received_witness:
  "\<exists>b' (bst' :: (nat, nat, nat, nat) block_state).
     block_state_received example_fc example_codec example_genesis b' protocol_feature_set_new example_validator False = Inr bst'"
proof -
  obtain x where x: "example_produced = Inr x" by (rule not_isl_obtain[OF example_produced_succeeds])
  obtain p h b where b: "x = (p, h, b)" by (cases x)
  have run: "next_pending example_fc example_genesis 11 0 = Inr p"
      "block_state_produced example_fc example_codec p (example_block h) [] protocol_feature_set_new
         example_validator (\<lambda>d. Inr [5]) = Inr b"
      "bs_additional_signatures (bst_header_state b) = []"
    using x b by (auto simp: example_produced_def split: if_splits)
  show ?thesis
    using produced_block_received[OF run(1) _ run(2) _ example_codec_inverse] run(3)
    by (auto simp: example_block_def)
qed

end
