(* ===== verification/Index_Orders.thy ===== *)
theory Index_Orders
  imports Prelude
begin

text \<open>
  Ordered indices whose order is a comparison of their elements: the first element of the index
  and its elements in order; the contract that the comparison of an ordered container must
  meet (a strict weak order), and what a client may conclude from it.
\<close>

definition index_first :: "('a \<Rightarrow> 'a \<Rightarrow> bool) \<Rightarrow> 'a list \<Rightarrow> 'a option" where
  "index_first lt xs =
     (case xs of [] \<Rightarrow> None | y # ys \<Rightarrow> Some (fold (\<lambda>x best. if lt x best then x else best) ys y))"

fun index_insert :: "('a \<Rightarrow> 'a \<Rightarrow> bool) \<Rightarrow> 'a \<Rightarrow> 'a list \<Rightarrow> 'a list" where
  "index_insert lt x [] = [x]"
| "index_insert lt x (y # ys) = (if lt x y then x # y # ys else y # index_insert lt x ys)"

definition index_list :: "('a \<Rightarrow> 'a \<Rightarrow> bool) \<Rightarrow> 'a list \<Rightarrow> 'a list" where
  "index_list lt xs = fold (index_insert lt) xs []"

lemma set_index_insert [simp]: "set (index_insert lt x ys) = insert x (set ys)"
  by (induction ys) auto

lemma mset_index_insert [simp]: "length (index_insert lt x ys) = Suc (length ys)"
  by (induction ys) auto

lemma distinct_index_insert:
  "f x \<notin> f ` set ys \<Longrightarrow> distinct (map f ys) \<Longrightarrow> distinct (map f (index_insert lt x ys))"
  by (induction ys) auto

lemma set_fold_index_insert [simp]: "set (fold (index_insert lt) xs ys) = set xs \<union> set ys"
  by (induction xs arbitrary: ys) auto

lemma distinct_fold_index_insert:
  "distinct (map f (xs @ ys)) \<Longrightarrow> distinct (map f (fold (index_insert lt) xs ys))"
proof (induction xs arbitrary: ys)
  case (Cons x xs)
  then have "distinct (map f (xs @ index_insert lt x ys))"
    using distinct_index_insert[of f x ys lt] by auto
  then show ?case using Cons.IH by simp
qed simp

lemma set_index_list [simp]: "set (index_list lt xs) = set xs"
  by (simp add: index_list_def)

lemma distinct_index_list: "distinct (map f xs) \<Longrightarrow> distinct (map f (index_list lt xs))"
  unfolding index_list_def by (rule distinct_fold_index_insert) simp

lemma index_first_None [simp]: "index_first lt xs = None \<longleftrightarrow> xs = []"
  by (simp add: index_first_def split: list.splits)

locale index_order =
  fixes lt :: "'a \<Rightarrow> 'a \<Rightarrow> bool"
  assumes asym: "lt a b \<Longrightarrow> \<not> lt b a"
    and neg_trans: "\<not> lt a b \<Longrightarrow> \<not> lt b c \<Longrightarrow> \<not> lt a c"
begin

lemma irrefl: "\<not> lt a a"
  using asym by blast

lemma trans: "lt a b \<Longrightarrow> lt b c \<Longrightarrow> lt a c"
  using asym neg_trans by blast

lemma fold_first:
  "fold (\<lambda>x best. if lt x best then x else best) xs b \<in> insert b (set xs) \<and>
   (\<forall>y \<in> insert b (set xs). \<not> lt y (fold (\<lambda>x best. if lt x best then x else best) xs b))"
proof (induction xs arbitrary: b)
  case (Cons x xs)
  let ?b = "if lt x b then x else b"
  note IH = Cons.IH[of ?b]
  let ?r = "fold (\<lambda>x best. if lt x best then x else best) xs ?b"
  have "\<not> lt b ?b" "\<not> lt x ?b" using irrefl asym by auto
  then have "\<not> lt b ?r" "\<not> lt x ?r" using IH neg_trans by blast+
  then show ?case using IH by auto
qed (simp add: irrefl)

lemma first_least:
  assumes "index_first lt xs = Some x"
  shows "x \<in> set xs" and "y \<in> set xs \<Longrightarrow> \<not> lt y x"
  using assms fold_first[of "tl xs" "hd xs"] by (cases xs; auto simp: index_first_def)+

lemma sorted_index_insert:
  "sorted_wrt (\<lambda>a b. \<not> lt b a) ys \<Longrightarrow> sorted_wrt (\<lambda>a b. \<not> lt b a) (index_insert lt x ys)"
proof (induction ys)
  case (Cons y ys)
  show ?case
  proof (cases "lt x y")
    case True
    have "\<not> lt z x" if "z \<in> set ys" for z
      using that Cons.prems True neg_trans[of y z x] neg_trans[of z y x] asym by (auto dest: trans)
    then show ?thesis using True Cons.prems asym by auto
  next
    case False
    then show ?thesis using Cons by auto
  qed
qed simp

lemma sorted_fold_index_insert:
  "sorted_wrt (\<lambda>a b. \<not> lt b a) ys \<Longrightarrow> sorted_wrt (\<lambda>a b. \<not> lt b a) (fold (index_insert lt) xs ys)"
  by (induction xs arbitrary: ys) (simp_all add: sorted_index_insert)

lemma sorted_index_list: "sorted_wrt (\<lambda>a b. \<not> lt b a) (index_list lt xs)"
  unfolding index_list_def by (rule sorted_fold_index_insert) simp

end

end
