(* ===== verification/Fork_Database.thy ===== *)
theory Fork_Database
  imports Blocks Index_Orders
begin

text \<open>
  The fork database (\<^verbatim>\<open>fork_database.cpp\<close>): the tree of blocks after the last irreversible one, with
  the block that the node currently prefers. The multi-index container is the list of its
  blocks in the order of their insertion, with unique ids; the index by validity, irreversible
  block number, block number and id is the order \<open>by_lib_less\<close>, of which the sources read the first
  element. The root and the head are read only for what never changes in a block, so
  they are values and not references. A loop that follows links from block to block, or from a block to its
  children, is bounded by the number of blocks; \<open>no_return\<close> is the result of one that goes on beyond that.
\<close>

abbreviation out_of_range_exception :: exn where
  "out_of_range_exception \<equiv> exception_class ''out_of_range_exception''"

section \<open>Data\<close>

abbreviation (input) bst_id :: "('k, 's, 't, 'm) block_state \<Rightarrow> digest" where
  "bst_id b \<equiv> bs_id (bst_header_state b)"

abbreviation (input) bst_previous :: "('k, 's, 't, 'm) block_state \<Rightarrow> digest" where
  "bst_previous b \<equiv> bh_previous (sbh_header (bs_header (bst_header_state b)))"

abbreviation (input) bst_block_num :: "('k, 's, 't, 'm) block_state \<Rightarrow> u32" where
  "bst_block_num b \<equiv> bc_block_num (bs_common (bst_header_state b))"

abbreviation (input) bst_lib :: "('k, 's, 't, 'm) block_state \<Rightarrow> u32" where
  "bst_lib b \<equiv> bc_dpos_irreversible_blocknum (bs_common (bst_header_state b))"

definition sha256_less :: "digest \<Rightarrow> digest \<Rightarrow> bool" where
  "sha256_less lhs rhs \<longleftrightarrow>
     hash0 lhs < hash0 rhs \<or> hash0 lhs = hash0 rhs \<and>
     (hash1 lhs < hash1 rhs \<or> hash1 lhs = hash1 rhs \<and>
      (hash2 lhs < hash2 rhs \<or> hash2 lhs = hash2 rhs \<and> hash3 lhs < hash3 rhs))"

definition by_lib_less :: "('k, 's, 't, 'm) block_state \<Rightarrow> ('k, 's, 't, 'm) block_state \<Rightarrow> bool" where
  "by_lib_less a b \<longleftrightarrow>
     (bst_validated a \<and> \<not> bst_validated b) \<or> bst_validated a = bst_validated b \<and>
     (bst_lib a > bst_lib b \<or> bst_lib a = bst_lib b \<and>
      (bst_block_num a > bst_block_num b \<or> bst_block_num a = bst_block_num b \<and> sha256_less (bst_id a) (bst_id b)))"

definition first_preferred :: "('k, 's, 't, 'm) block_state \<Rightarrow> ('k, 's, 't, 'm) block_state \<Rightarrow> bool" where
  "first_preferred lhs rhs \<longleftrightarrow>
     bst_lib lhs > bst_lib rhs \<or> bst_lib lhs = bst_lib rhs \<and> bst_block_num lhs > bst_block_num rhs"

record ('k, 's, 't, 'm) fork_database =
  fd_index :: "('k, 's, 't, 'm) block_state list"
  fd_root :: "('k, 's, 't, 'm) block_state option"
  fd_head :: "('k, 's, 't, 'm) block_state option"

text \<open>The first element of the index by irreversible block number, and its first element that is not valid.\<close>

definition lib_begin :: "('k, 's, 't, 'm) block_state list \<Rightarrow> ('k, 's, 't, 'm) block_state option" where
  "lib_begin idx = index_first by_lib_less idx"

definition lib_lower_bound_false :: "('k, 's, 't, 'm) block_state list \<Rightarrow> ('k, 's, 't, 'm) block_state option" where
  "lib_lower_bound_false idx = lib_begin (filter (\<lambda>b. \<not> bst_validated b) idx)"

section \<open>Lookups and branches\<close>

definition get_block :: "('k, 's, 't, 'm) fork_database \<Rightarrow> digest \<Rightarrow> ('k, 's, 't, 'm) block_state option" where
  "get_block db i = find (\<lambda>b. bst_id b = i) (fd_index db)"

definition get_block_header ::
  "('k, 's, 't, 'm) fork_database \<Rightarrow> digest \<Rightarrow> ('k, 's) block_header_state option res" where
  "get_block_header db i =
     (case fd_root db of
        None \<Rightarrow> Inl undefined_behavior
      | Some root \<Rightarrow>
          if bst_id root = i then Inr (Some (bst_header_state root))
          else Inr (map_option bst_header_state (get_block db i)))"

text \<open>The blocks on the way from a block towards the root, as long as they are in the index.\<close>

fun branch_loop ::
  "nat \<Rightarrow> ('k, 's, 't, 'm) fork_database \<Rightarrow> digest \<Rightarrow> ('k, 's, 't, 'm) block_state list res" where
  "branch_loop 0 db i = Inl no_return"
| "branch_loop (Suc fuel) db i =
     (case get_block db i of
        None \<Rightarrow> Inr []
      | Some b \<Rightarrow> res_bind (branch_loop fuel db (bst_previous b)) (\<lambda>bs. Inr (b # bs)))"

definition db_fuel :: "('k, 's, 't, 'm) fork_database \<Rightarrow> nat" where
  "db_fuel db = length (fd_index db) + 2"

definition fetch_branch ::
  "('k, 's, 't, 'm) fork_database \<Rightarrow> digest \<Rightarrow> u32 \<Rightarrow> ('k, 's, 't, 'm) block_state list res" where
  "fetch_branch db h trim_after_block_num =
     res_bind (branch_loop (db_fuel db) db h) (\<lambda>bs.
     Inr (filter (\<lambda>b. bst_block_num b \<le> trim_after_block_num) bs))"

definition search_on_branch ::
  "('k, 's, 't, 'm) fork_database \<Rightarrow> digest \<Rightarrow> u32 \<Rightarrow> ('k, 's, 't, 'm) block_state option res" where
  "search_on_branch db h block_num =
     res_bind (branch_loop (db_fuel db) db h) (\<lambda>bs. Inr (find (\<lambda>b. bst_block_num b = block_num) bs))"

definition block_or_root :: "('k, 's, 't, 'm) fork_database \<Rightarrow> digest \<Rightarrow> ('k, 's, 't, 'm) block_state res" where
  "block_or_root db i =
     (case fd_root db of
        None \<Rightarrow> Inl undefined_behavior
      | Some root \<Rightarrow>
          (case (if i = bst_id root then Some root else get_block db i) of
             None \<Rightarrow> Inl fork_db_block_not_found
           | Some b \<Rightarrow> Inr b))"

text \<open>The loop that walks one branch down to the height of the other.\<close>

fun descend_to ::
  "nat \<Rightarrow> ('k, 's, 't, 'm) fork_database \<Rightarrow> u32 \<Rightarrow> ('k, 's, 't, 'm) block_state list \<Rightarrow> ('k, 's, 't, 'm) block_state \<Rightarrow>
   (('k, 's, 't, 'm) block_state list \<times> ('k, 's, 't, 'm) block_state) res" where
  "descend_to 0 db height acc b = Inl no_return"
| "descend_to (Suc fuel) db height acc b =
     (if bst_block_num b > height then
        res_bind (block_or_root db (bst_previous b)) (\<lambda>p. descend_to fuel db height (acc @ [b]) p)
      else Inr (acc, b))"

text \<open>The loop that walks both branches down to blocks with the same previous block.\<close>

fun descend_both ::
  "nat \<Rightarrow> ('k, 's, 't, 'm) fork_database \<Rightarrow> ('k, 's, 't, 'm) block_state list \<Rightarrow> ('k, 's, 't, 'm) block_state list \<Rightarrow>
   ('k, 's, 't, 'm) block_state \<Rightarrow> ('k, 's, 't, 'm) block_state \<Rightarrow>
   (('k, 's, 't, 'm) block_state list \<times> ('k, 's, 't, 'm) block_state list) res" where
  "descend_both 0 db acc1 acc2 b1 b2 = Inl no_return"
| "descend_both (Suc fuel) db acc1 acc2 b1 b2 =
     (if bst_previous b1 \<noteq> bst_previous b2 then
        (case (get_block db (bst_previous b1), get_block db (bst_previous b2)) of
           (Some p1, Some p2) \<Rightarrow> descend_both fuel db (acc1 @ [b1]) (acc2 @ [b2]) p1 p2
         | _ \<Rightarrow> Inl fork_db_block_not_found)
      else Inr (acc1 @ [b1], acc2 @ [b2]))"

definition fetch_branch_from ::
  "('k, 's, 't, 'm) fork_database \<Rightarrow> digest \<Rightarrow> digest \<Rightarrow>
   (('k, 's, 't, 'm) block_state list \<times> ('k, 's, 't, 'm) block_state list) res" where
  "fetch_branch_from db first second =
     res_bind (block_or_root db first) (\<lambda>b1.
     res_bind (block_or_root db second) (\<lambda>b2.
     res_bind (descend_to (db_fuel db) db (bst_block_num b2) [] b1) (\<lambda>(acc1, b1).
     res_bind (descend_to (db_fuel db) db (bst_block_num b1) [] b2) (\<lambda>(acc2, b2).
     if bst_id b1 = bst_id b2 then Inr (acc1, acc2)
     else descend_both (db_fuel db) db acc1 acc2 b1 b2))))"

definition pending_head :: "('k, 's, 't, 'm) fork_database \<Rightarrow> ('k, 's, 't, 'm) block_state option res" where
  "pending_head db =
     (case lib_lower_bound_false (fd_index db) of
        None \<Rightarrow> Inr (fd_head db)
      | Some b \<Rightarrow>
          (case fd_head db of
             None \<Rightarrow> Inl undefined_behavior
           | Some h \<Rightarrow> if first_preferred b h then Inr (Some b) else Inr (fd_head db)))"

section \<open>Changes\<close>

definition reset :: "('k, 's) block_header_state \<Rightarrow> ('k, 's, 't, 'm) fork_database" where
  "reset root_bhs =
     (let root = \<lparr>bst_header_state = root_bhs, bst_block = None, bst_validated = True,
                  bst_pub_keys_recovered = False, bst_cached_trxs = []\<rparr>
      in \<lparr>fd_index = [], fd_root = Some root, fd_head = Some root\<rparr>)"

definition rollback_head_to_root :: "('k, 's, 't, 'm) fork_database \<Rightarrow> ('k, 's, 't, 'm) fork_database" where
  "rollback_head_to_root db =
     db\<lparr>fd_index := map (\<lambda>b. b\<lparr>bst_validated := False\<rparr>) (fd_index db), fd_head := fd_root db\<rparr>"

definition validate_activations ::
  "feature_validator \<Rightarrow> ('k, 's) block_header_state \<Rightarrow> ('k, 's) block_header_state \<Rightarrow> unit res" where
  "validate_activations validator prev_bh n =
     (let exts = bs_header_exts n in
      rethrow_exceptions fork_database_exception
        (if exts_count exts protocol_feature_activation_id > 0 then
           res_bind (get_activation (exts_lower_bound exts protocol_feature_activation_id)) (\<lambda>fs.
           validator (bh_timestamp (sbh_header (bs_header n))) (bs_activated_protocol_features prev_bh) fs)
         else Inr ()))"

definition fork_db_add ::
  "('k, 's, 't, 'm) block_state \<Rightarrow> bool \<Rightarrow> bool \<Rightarrow> feature_validator \<Rightarrow> ('k, 's, 't, 'm) fork_database \<Rightarrow>
   ('k, 's, 't, 'm) fork_database res" where
  "fork_db_add n ignore_duplicate validate validator db =
     eos_assert (fd_root db \<noteq> None) fork_database_exception
     (res_bind (get_block_header db (bst_previous n)) (\<lambda>prev_bh.
      case prev_bh of
        None \<Rightarrow> Inl unlinkable_block_exception
      | Some prev \<Rightarrow>
          res_bind (if validate then validate_activations validator prev (bst_header_state n) else Inr ()) (\<lambda>_.
          if get_block db (bst_id n) \<noteq> None then
            (if ignore_duplicate then Inr db else Inl fork_database_exception)
          else
            (let idx = fd_index db @ [n] in
             case lib_begin idx of
               None \<Rightarrow> Inl undefined_behavior
             | Some candidate \<Rightarrow>
                 Inr (db\<lparr>fd_index := idx,
                         fd_head := (if bst_validated candidate then Some candidate else fd_head db)\<rparr>)))))"

definition fork_db_add_block ::
  "('k, 's, 't, 'm) block_state \<Rightarrow> bool \<Rightarrow> ('k, 's, 't, 'm) fork_database \<Rightarrow> ('k, 's, 't, 'm) fork_database res" where
  "fork_db_add_block n ignore_duplicate db = fork_db_add n ignore_duplicate False (\<lambda>_ _ _. Inr ()) db"

text \<open>
  The queue of blocks to remove: the ids already expanded and those still to be. The children of
  a block are found in the index by previous id.
\<close>

definition children :: "('k, 's, 't, 'm) block_state list \<Rightarrow> digest \<Rightarrow> digest list" where
  "children idx i = map bst_id (filter (\<lambda>b. bst_previous b = i) idx)"

fun remove_loop ::
  "nat \<Rightarrow> ('k, 's, 't, 'm) block_state list \<Rightarrow> digest \<Rightarrow> digest list \<Rightarrow> digest list \<Rightarrow> digest list res" where
  "remove_loop 0 idx head_id expanded pending = (if pending = [] then Inr expanded else Inl no_return)"
| "remove_loop (Suc fuel) idx head_id expanded pending =
     (case pending of
        [] \<Rightarrow> Inr expanded
      | i # rest \<Rightarrow>
          eos_assert (i \<noteq> head_id) fork_database_exception
          (remove_loop fuel idx head_id (expanded @ [i]) (rest @ children idx i)))"

definition fork_db_remove :: "digest \<Rightarrow> ('k, 's, 't, 'm) fork_database \<Rightarrow> ('k, 's, 't, 'm) fork_database res" where
  "fork_db_remove i db =
     (case fd_head db of
        None \<Rightarrow> Inl undefined_behavior
      | Some h \<Rightarrow>
          res_bind (remove_loop (db_fuel db) (fd_index db) (bst_id h) [] [i]) (\<lambda>removed.
          Inr (db\<lparr>fd_index := filter (\<lambda>b. bst_id b \<notin> set removed) (fd_index db)\<rparr>)))"

text \<open>The ids of the blocks before the new root, down to the old one.\<close>

fun ancestors_loop ::
  "nat \<Rightarrow> ('k, 's, 't, 'm) fork_database \<Rightarrow> digest \<Rightarrow> ('k, 's, 't, 'm) block_state \<Rightarrow> digest list res" where
  "ancestors_loop 0 db root_id b = Inl no_return"
| "ancestors_loop (Suc fuel) db root_id b =
     (let p = bst_previous b in
      case get_block db p of
        None \<Rightarrow> eos_assert (p = root_id) fork_database_exception (Inr [p])
      | Some b' \<Rightarrow> res_bind (ancestors_loop fuel db root_id b') (\<lambda>ids. Inr (p # ids)))"

definition advance_root :: "digest \<Rightarrow> ('k, 's, 't, 'm) fork_database \<Rightarrow> ('k, 's, 't, 'm) fork_database res" where
  "advance_root i db =
     (case fd_root db of
        None \<Rightarrow> Inl fork_database_exception
      | Some root \<Rightarrow>
          (case get_block db i of
             None \<Rightarrow> Inl fork_database_exception
           | Some new_root \<Rightarrow>
               eos_assert (bst_validated new_root) fork_database_exception
               (res_bind (ancestors_loop (db_fuel db) db (bst_id root) new_root) (\<lambda>blocks_to_remove.
                res_bind (for_each fork_db_remove blocks_to_remove
                            (db\<lparr>fd_index := filter (\<lambda>b. bst_id b \<noteq> i) (fd_index db)\<rparr>)) (\<lambda>db.
                Inr (db\<lparr>fd_root := Some new_root\<rparr>))))))"

text \<open>
  A removal that throws changes nothing, but a call of \<open>advance_root\<close> that throws in its removals has already erased the
  new root and what the removals before removed. This is the database that a call leaves behind, apart from the
  new root that it sets when it does not throw.
\<close>

fun remove_until_thrown :: "digest list \<Rightarrow> ('k, 's, 't, 'm) fork_database \<Rightarrow> ('k, 's, 't, 'm) fork_database" where
  "remove_until_thrown [] db = db"
| "remove_until_thrown (i # ids) db =
     (case fork_db_remove i db of Inl e \<Rightarrow> db | Inr db' \<Rightarrow> remove_until_thrown ids db')"

definition advance_root_left :: "digest \<Rightarrow> ('k, 's, 't, 'm) fork_database \<Rightarrow> ('k, 's, 't, 'm) fork_database" where
  "advance_root_left i db =
     (case (fd_root db, get_block db i) of
        (Some root, Some new_root) \<Rightarrow>
          (if bst_validated new_root then
             (case ancestors_loop (db_fuel db) db (bst_id root) new_root of
                Inl e \<Rightarrow> db
              | Inr blocks_to_remove \<Rightarrow>
                  remove_until_thrown blocks_to_remove (db\<lparr>fd_index := filter (\<lambda>b. bst_id b \<noteq> i) (fd_index db)\<rparr>))
           else db)
      | _ \<Rightarrow> db)"

definition mark_valid :: "('k, 's, 't, 'm) block_state \<Rightarrow> ('k, 's, 't, 'm) fork_database \<Rightarrow> ('k, 's, 't, 'm) fork_database res" where
  "mark_valid h db =
     (if bst_validated h then Inr db
      else
        eos_assert (get_block db (bst_id h) \<noteq> None) fork_database_exception
        (let idx = map (\<lambda>b. if bst_id b = bst_id h then b\<lparr>bst_validated := True\<rparr> else b) (fd_index db) in
         case (lib_begin idx, fd_head db) of
           (Some candidate, Some head) \<Rightarrow>
             Inr (db\<lparr>fd_index := idx,
                     fd_head := (if first_preferred candidate head then Some candidate else fd_head db)\<rparr>)
         | _ \<Rightarrow> Inl undefined_behavior))"

section \<open>The file of a closed database\<close>

text \<open>
  What \<^verbatim>\<open>close\<close> writes and \<^verbatim>\<open>open\<close> reads, as data: the serialised form of a block state leaves out the
  parsed header extensions, which \<^verbatim>\<open>open\<close> extracts again from the block, and the cached transactions. Reading a file that ends
  before the id of the head throws.
\<close>

record ('k, 's, 't, 'm) fork_db_file =
  ff_magic_number :: u32
  ff_version :: u32
  ff_root :: "('k, 's) block_header_state"
  ff_blocks :: "('k, 's, 't, 'm) block_state list"
  ff_head :: "digest option"

definition fork_db_magic_number :: u32 where
  "fork_db_magic_number = 0x30510FDB"

definition fork_db_version :: u32 where
  "fork_db_version = 1"

text \<open>The elements of the index in the order of \<open>by_lib_less\<close>, from the first to the last.\<close>

definition by_lib_block_num :: "('k, 's, 't, 'm) block_state list \<Rightarrow> ('k, 's, 't, 'm) block_state list" where
  "by_lib_block_num idx = index_list by_lib_less idx"

text \<open>The merge of the reversed unvalidated and the reversed validated part.\<close>

fun merge_blocks ::
  "('k, 's, 't, 'm) block_state list \<Rightarrow> ('k, 's, 't, 'm) block_state list \<Rightarrow> ('k, 's, 't, 'm) block_state list" where
  "merge_blocks [] [] = []"
| "merge_blocks (u # us) [] = u # merge_blocks us []"
| "merge_blocks [] (v # vs) = v # merge_blocks [] vs"
| "merge_blocks (u # us) (v # vs) =
     (if first_preferred v u then u # merge_blocks us (v # vs) else v # merge_blocks (u # us) vs)"

definition serialized_state :: "('k, 's, 't, 'm) block_state \<Rightarrow> ('k, 's, 't, 'm) block_state" where
  "serialized_state b = b\<lparr>bst_header_state := (bst_header_state b)\<lparr>bs_header_exts := []\<rparr>,
     bst_pub_keys_recovered := False, bst_cached_trxs := []\<rparr>"

definition fork_db_close :: "('k, 's, 't, 'm) fork_database \<Rightarrow> ('k, 's, 't, 'm) fork_db_file option" where
  "fork_db_close db =
     (case fd_root db of
        None \<Rightarrow> None
      | Some root \<Rightarrow>
          (let indx = by_lib_block_num (fd_index db);
               unvalidated = rev (filter (\<lambda>b. \<not> bst_validated b) indx);
               validated = rev (filter bst_validated indx)
           in Some \<lparr>ff_magic_number = fork_db_magic_number, ff_version = fork_db_version,
                ff_root = (bst_header_state root)\<lparr>bs_header_exts := []\<rparr>,
                ff_blocks = map serialized_state (merge_blocks unvalidated validated),
                ff_head = map_option (\<lambda>h. bst_id h) (fd_head db)\<rparr>))"

definition load_block ::
  "('k, 's) fc_library \<Rightarrow> ('k, 's, 't, 'm) block_state \<Rightarrow> ('k, 's, 't, 'm) block_state res" where
  "load_block fc b =
     (case bst_block b of
        None \<Rightarrow> Inl undefined_behavior
      | Some blk \<Rightarrow>
          res_bind (validate_and_extract_header_extensions fc (sbh_header (sb_signed_header blk))) (\<lambda>exts.
          Inr (b\<lparr>bst_header_state := (bst_header_state b)\<lparr>bs_header_exts := exts\<rparr>\<rparr>)))"

definition fork_db_open ::
  "('k, 's) fc_library \<Rightarrow> feature_validator \<Rightarrow> ('k, 's, 't, 'm) fork_db_file \<Rightarrow> ('k, 's, 't, 'm) fork_database res" where
  "fork_db_open fc validator file =
     eos_assert (ff_magic_number file = fork_db_magic_number) fork_database_exception
     (eos_assert (ff_version file \<ge> fork_db_version \<and> ff_version file \<le> fork_db_version) fork_database_exception
      (res_bind (for_each (\<lambda>b db. res_bind (load_block fc b) (\<lambda>b. fork_db_add b False True validator db))
                   (ff_blocks file) (reset (ff_root file))) (\<lambda>db.
       case (ff_head file, fd_root db) of
         (Some head_id, Some root) \<Rightarrow>
           res_bind (if bst_id root = head_id then Inr root
                     else case get_block db head_id of None \<Rightarrow> Inl fork_database_exception | Some h \<Rightarrow> Inr h) (\<lambda>head.
           (case lib_begin (fd_index db) of
              Some candidate \<Rightarrow>
                if bst_validated candidate
                then eos_assert (\<not> first_preferred candidate head) fork_database_exception (Inr (db\<lparr>fd_head := Some head\<rparr>))
                else eos_assert (bst_id head = bst_id root) fork_database_exception (Inr (db\<lparr>fd_head := Some head\<rparr>))
            | None \<Rightarrow> eos_assert (bst_id head = bst_id root) fork_database_exception (Inr (db\<lparr>fd_head := Some head\<rparr>))))
       | _ \<Rightarrow> Inl out_of_range_exception)))"

section \<open>The order of preference\<close>

lemma sha256_less_asym: "sha256_less a b \<Longrightarrow> \<not> sha256_less b a"
  by (auto simp: sha256_less_def)

lemma sha256_less_neg_trans: "\<not> sha256_less a b \<Longrightarrow> \<not> sha256_less b c \<Longrightarrow> \<not> sha256_less a c"
  unfolding sha256_less_def by force

interpretation lib_order: index_order by_lib_less
proof
  fix a b c :: "('k, 's, 't, 'm) block_state"
  show "by_lib_less a b \<Longrightarrow> \<not> by_lib_less b a"
    by (auto simp: by_lib_less_def dest: sha256_less_asym)
  show "\<not> by_lib_less a b \<Longrightarrow> \<not> by_lib_less b c \<Longrightarrow> \<not> by_lib_less a c"
    unfolding by_lib_less_def using sha256_less_neg_trans[of "bst_id a" "bst_id b" "bst_id c"] by force
qed

lemma first_preferred_by_lib:
  "bst_validated a \<Longrightarrow> bst_validated b \<Longrightarrow> first_preferred a b \<Longrightarrow> by_lib_less a b"
  by (auto simp: first_preferred_def by_lib_less_def)

lemma first_preferred_trans: "first_preferred a b \<Longrightarrow> first_preferred b c \<Longrightarrow> first_preferred a c"
  by (auto simp: first_preferred_def)

lemma first_preferred_neg_trans:
  "\<not> first_preferred a b \<Longrightarrow> \<not> first_preferred b c \<Longrightarrow> \<not> first_preferred a c"
  unfolding first_preferred_def by force

lemma lib_begin_mem: "lib_begin idx = Some c \<Longrightarrow> c \<in> set idx"
  unfolding lib_begin_def by (rule lib_order.first_least(1))

lemma lib_begin_valid:
  assumes "lib_begin idx = Some c" "b \<in> set idx" "bst_validated b"
  shows "bst_validated c \<and> \<not> first_preferred b c"
proof -
  have nl: "\<not> by_lib_less b c"
    using lib_order.first_least(2)[OF assms(1)[unfolded lib_begin_def] assms(2)] .
  then have "bst_validated c" using assms(3) by (auto simp: by_lib_less_def)
  then show ?thesis using nl assms(3) first_preferred_by_lib by blast
qed

lemma lib_begin_None [simp]: "lib_begin idx = None \<longleftrightarrow> idx = []"
  by (simp add: lib_begin_def)

section \<open>The invariant\<close>

text \<open>
  Ids are unique, every block has its parent in the database and is numbered one after it,
  and the head is the root or a validated block of the index to which no validated block is preferred.
\<close>

definition is_parent :: "('k, 's, 't, 'm) block_state \<Rightarrow> ('k, 's, 't, 'm) block_state \<Rightarrow> bool" where
  "is_parent p b \<longleftrightarrow> bst_previous b = bst_id p \<and> unat (bst_block_num b) = Suc (unat (bst_block_num p))"

definition tree_wf :: "('k, 's, 't, 'm) block_state \<Rightarrow> ('k, 's, 't, 'm) block_state list \<Rightarrow> bool" where
  "tree_wf r idx \<longleftrightarrow> distinct (map (\<lambda>b. bst_id b) (r # idx)) \<and>
     (\<forall>b \<in> set idx. \<exists>p \<in> set (r # idx). is_parent p b)"

definition head_ok ::
  "('k, 's, 't, 'm) block_state \<Rightarrow> ('k, 's, 't, 'm) block_state list \<Rightarrow> ('k, 's, 't, 'm) block_state \<Rightarrow> bool" where
  "head_ok r idx h \<longleftrightarrow> (h = r \<or> h \<in> set idx \<and> bst_validated h) \<and>
     (\<forall>b \<in> set idx. bst_validated b \<longrightarrow> \<not> first_preferred b h)"

definition fork_db_inv :: "('k, 's, 't, 'm) fork_database \<Rightarrow> bool" where
  "fork_db_inv db \<longleftrightarrow> (\<exists>r h. fd_root db = Some r \<and> fd_head db = Some h \<and>
     tree_wf r (fd_index db) \<and> head_ok r (fd_index db) h)"

lemma fork_db_invE:
  assumes "fork_db_inv db"
  obtains r h where "fd_root db = Some r" "fd_head db = Some h" "tree_wf r (fd_index db)" "head_ok r (fd_index db) h"
  using assms by (auto simp: fork_db_inv_def)

lemma find_unique: "distinct (map f xs) \<Longrightarrow> x \<in> set xs \<Longrightarrow> find (\<lambda>y. f y = f x) xs = Some x"
  by (induction xs) (auto simp: image_iff)

lemma get_block_mem: "get_block db i = Some b \<Longrightarrow> b \<in> set (fd_index db) \<and> bst_id b = i"
  unfolding get_block_def by (metis (mono_tags) find_Some_iff nth_mem)

lemma get_block_None: "get_block db i = None \<longleftrightarrow> (\<forall>b \<in> set (fd_index db). bst_id b \<noteq> i)"
  by (auto simp: get_block_def find_None_iff)

lemma get_block_id:
  "tree_wf r (fd_index db) \<Longrightarrow> b \<in> set (fd_index db) \<Longrightarrow> get_block db (bst_id b) = Some b"
  unfolding get_block_def by (rule find_unique) (simp_all add: tree_wf_def)

lemma reset_inv: "fork_db_inv (reset bhs)"
  by (simp add: fork_db_inv_def reset_def Let_def tree_wf_def head_ok_def)

lemma rollback_inv:
  assumes "fork_db_inv db"
  shows "fork_db_inv (rollback_head_to_root db)"
proof -
  obtain r h where db: "fd_root db = Some r" "tree_wf r (fd_index db)" by (rule fork_db_invE[OF assms])
  have "tree_wf r (map (\<lambda>b. b\<lparr>bst_validated := False\<rparr>) (fd_index db))"
    using db(2) by (fastforce simp: tree_wf_def comp_def is_parent_def)
  then show ?thesis using db by (auto simp: fork_db_inv_def rollback_head_to_root_def head_ok_def)
qed

text \<open>
  A block state is numbered one after its previous block, as \<open>next\<close> numbers it, and it is not the
  root, whose previous block is not in the database.
\<close>

definition well_numbered :: "('k, 's, 't, 'm) fork_database \<Rightarrow> ('k, 's, 't, 'm) block_state \<Rightarrow> bool" where
  "well_numbered db n \<longleftrightarrow>
     (\<forall>r. fd_root db = Some r \<longrightarrow> bst_id n \<noteq> bst_id r \<and>
        (\<forall>p \<in> set (r # fd_index db). bst_previous n = bst_id p \<longrightarrow> is_parent p n))"

lemma get_block_header_parent:
  assumes "fd_root db = Some r" "get_block_header db i = Inr (Some bhs)"
  shows "\<exists>p \<in> set (r # fd_index db). bst_id p = i \<and> bst_header_state p = bhs"
  using assms by (auto simp: get_block_header_def split: if_splits dest!: get_block_mem)

lemma fork_db_add_Inr:
  assumes "fork_db_add n ignore validate validator db = Inr db'" "fd_root db = Some r"
  obtains "db' = db" "get_block db (bst_id n) \<noteq> None"
  | p c where "p \<in> set (r # fd_index db)" "bst_previous n = bst_id p" "get_block db (bst_id n) = None"
      "lib_begin (fd_index db @ [n]) = Some c"
      "db' = db\<lparr>fd_index := fd_index db @ [n], fd_head := (if bst_validated c then Some c else fd_head db)\<rparr>"
proof -
  obtain bhs where h: "get_block_header db (bst_previous n) = Inr (Some bhs)"
    using assms by (auto simp: fork_db_add_def split: option.splits)
  obtain p where p: "p \<in> set (r # fd_index db)" "bst_previous n = bst_id p"
    using get_block_header_parent[OF assms(2) h] by metis
  show ?thesis
  proof (cases "get_block db (bst_id n) = None")
    case False
    then show ?thesis
      using assms h by (intro that(1)) (auto simp: fork_db_add_def split: option.splits if_splits)
  next
    case True
    obtain c where c: "lib_begin (fd_index db @ [n]) = Some c"
      by (cases "lib_begin (fd_index db @ [n])") auto
    show ?thesis
      by (rule that(2)[OF p True c]) (use assms h True c in \<open>auto simp: fork_db_add_def Let_def split: if_splits\<close>)
  qed
qed

lemma fork_db_add_inv:
  assumes inv: "fork_db_inv db" and add: "fork_db_add n ignore validate validator db = Inr db'"
    and wn: "well_numbered db n"
  shows "fork_db_inv db'"
proof -
  obtain r h where db: "fd_root db = Some r" "fd_head db = Some h" "tree_wf r (fd_index db)" "head_ok r (fd_index db) h"
    by (rule fork_db_invE[OF inv])
  show ?thesis
  proof (rule fork_db_add_Inr[OF add db(1)])
    fix p c
    assume p: "p \<in> set (r # fd_index db)" "bst_previous n = bst_id p" and new: "get_block db (bst_id n) = None"
      and c: "lib_begin (fd_index db @ [n]) = Some c"
      and db': "db' = db\<lparr>fd_index := fd_index db @ [n], fd_head := (if bst_validated c then Some c else fd_head db)\<rparr>"
    have par: "is_parent p n" "bst_id n \<noteq> bst_id r" using wn p db(1) by (auto simp: well_numbered_def)
    have tree: "tree_wf r (fd_index db @ [n])"
      using db(3) par p(1) new by (auto simp: tree_wf_def get_block_None)
    have head: "head_ok r (fd_index db @ [n]) (if bst_validated c then c else h)"
    proof (cases "bst_validated c")
      case True
      then show ?thesis using lib_begin_mem[OF c] lib_begin_valid[OF c] by (auto simp: head_ok_def)
    next
      case False
      then have "\<forall>b \<in> set (fd_index db @ [n]). \<not> bst_validated b" using lib_begin_valid[OF c] by blast
      then show ?thesis using False db(4) by (auto simp: head_ok_def)
    qed
    show ?thesis using db tree head db' by (auto simp: fork_db_inv_def)
  qed (use inv in simp)
qed

lemma mark_valid_inv:
  assumes inv: "fork_db_inv db" and mv: "mark_valid b0 db = Inr db'"
  shows "fork_db_inv db'"
proof (cases "bst_validated b0")
  case True
  then show ?thesis using inv mv by (simp add: mark_valid_def)
next
  case False
  obtain r h where db: "fd_root db = Some r" "fd_head db = Some h" "tree_wf r (fd_index db)" "head_ok r (fd_index db) h"
    by (rule fork_db_invE[OF inv])
  define idx where "idx = map (\<lambda>b. if bst_id b = bst_id b0 then b\<lparr>bst_validated := True\<rparr> else b) (fd_index db)"
  obtain c where c: "lib_begin idx = Some c" and known: "get_block db (bst_id b0) \<noteq> None"
      and db': "db' = db\<lparr>fd_index := idx, fd_head := (if first_preferred c h then Some c else Some h)\<rparr>"
    using mv False db(2) by (auto simp: mark_valid_def Let_def idx_def split: option.splits if_splits)
  have ids: "map (\<lambda>b. bst_id b) idx = map (\<lambda>b. bst_id b) (fd_index db)" by (simp add: idx_def)
  have par: "\<forall>b \<in> set idx. \<exists>p \<in> set (r # idx). is_parent p b"
  proof
    fix b assume "b \<in> set idx"
    then obtain b1 where b1: "b1 \<in> set (fd_index db)" "b = (if bst_id b1 = bst_id b0 then b1\<lparr>bst_validated := True\<rparr> else b1)"
      by (auto simp: idx_def)
    then obtain p where p: "p \<in> set (r # fd_index db)" "is_parent p b1" using db(3) by (auto simp: tree_wf_def)
    let ?p = "if p = r then r else if bst_id p = bst_id b0 then p\<lparr>bst_validated := True\<rparr> else p"
    have "?p \<in> set (r # idx)" using p(1) by (auto simp: idx_def)
    moreover have "is_parent ?p b" using p(2) b1(2) by (auto simp: is_parent_def)
    ultimately show "\<exists>p \<in> set (r # idx). is_parent p b" by blast
  qed
  have tree: "tree_wf r idx" using db(3) ids par by (simp add: tree_wf_def)
  obtain b1 where "b1 \<in> set (fd_index db)" "bst_id b1 = bst_id b0" using known by (auto simp: get_block_None)
  then have "b1\<lparr>bst_validated := True\<rparr> \<in> set idx" by (force simp: idx_def)
  then have cv: "bst_validated c" using lib_begin_valid[OF c] by fastforce
  have keep: "h = r \<or> h \<in> set idx \<and> bst_validated h"
    using db(4) by (cases "bst_id h = bst_id b0") (force simp: head_ok_def idx_def image_iff)+
  have "head_ok r idx (if first_preferred c h then c else h)"
  proof (cases "first_preferred c h")
    case True
    then show ?thesis using cv lib_begin_mem[OF c] lib_begin_valid[OF c] by (auto simp: head_ok_def)
  next
    case False
    then have "\<forall>b \<in> set idx. bst_validated b \<longrightarrow> \<not> first_preferred b h"
      using lib_begin_valid[OF c] first_preferred_neg_trans by blast
    then show ?thesis using False keep by (simp add: head_ok_def)
  qed
  then show ?thesis using tree db db' by (auto simp: fork_db_inv_def split: if_splits)
qed

lemma remove_loop_closed:
  "remove_loop fuel idx hid expanded pending = Inr R \<Longrightarrow>
   set expanded \<union> set pending \<subseteq> set R \<and>
   (\<forall>i \<in> set R. i \<in> set expanded \<or> i \<noteq> hid \<and> set (children idx i) \<subseteq> set R)"
proof (induction fuel idx hid expanded pending rule: remove_loop.induct)
  case (2 fuel idx hid expanded pending)
  show ?case
  proof (cases pending)
    case (Cons i rest)
    then have "i \<noteq> hid" and run: "remove_loop fuel idx hid (expanded @ [i]) (rest @ children idx i) = Inr R"
      using 2(2) by auto
    with 2(1)[OF Cons _ run] show ?thesis using Cons by auto
  qed (use 2 in auto)
qed (auto split: if_splits)

lemma fork_db_remove_Inr:
  assumes "fork_db_remove i db = Inr db'" "fd_head db = Some h"
  obtains R where "db' = db\<lparr>fd_index := filter (\<lambda>b. bst_id b \<notin> R) (fd_index db)\<rparr>" "i \<in> R" "bst_id h \<notin> R"
    "\<forall>b \<in> set (fd_index db). bst_previous b \<in> R \<longrightarrow> bst_id b \<in> R"
proof -
  obtain R where R: "remove_loop (db_fuel db) (fd_index db) (bst_id h) [] [i] = Inr R"
      "db' = db\<lparr>fd_index := filter (\<lambda>b. bst_id b \<notin> set R) (fd_index db)\<rparr>"
    using assms by (auto simp: fork_db_remove_def)
  note c = remove_loop_closed[OF R(1)]
  have "\<forall>b \<in> set (fd_index db). bst_previous b \<in> set R \<longrightarrow> bst_id b \<in> set R"
    using c by (force simp: children_def)
  then show ?thesis using that[of "set R"] R(2) c by auto
qed

lemma tree_wf_filter:
  assumes "tree_wf r idx" "\<forall>b \<in> set idx. bst_previous b \<in> R \<longrightarrow> bst_id b \<in> R"
  shows "tree_wf r (filter (\<lambda>b. bst_id b \<notin> R) idx)"
proof -
  have "\<exists>p \<in> set (r # filter (\<lambda>b. bst_id b \<notin> R) idx). is_parent p b" if b: "b \<in> set idx" "bst_id b \<notin> R" for b
  proof -
    obtain p where p: "p \<in> set (r # idx)" "is_parent p b" using assms(1) b(1) by (auto simp: tree_wf_def)
    have "bst_id p \<notin> R" using assms(2) b p(2) by (auto simp: is_parent_def)
    then show ?thesis using p by auto
  qed
  then show ?thesis using assms(1) by (auto simp: tree_wf_def distinct_map_filter)
qed

lemma fork_db_remove_inv:
  assumes inv: "fork_db_inv db" and rm: "fork_db_remove i db = Inr db'"
  shows "fork_db_inv db'"
proof -
  obtain r h where db: "fd_root db = Some r" "fd_head db = Some h" "tree_wf r (fd_index db)" "head_ok r (fd_index db) h"
    by (rule fork_db_invE[OF inv])
  obtain R where R: "db' = db\<lparr>fd_index := filter (\<lambda>b. bst_id b \<notin> R) (fd_index db)\<rparr>" "bst_id h \<notin> R"
      "\<forall>b \<in> set (fd_index db). bst_previous b \<in> R \<longrightarrow> bst_id b \<in> R"
    by (rule fork_db_remove_Inr[OF rm db(2)])
  have "head_ok r (filter (\<lambda>b. bst_id b \<notin> R) (fd_index db)) h" using db(4) R(2) by (auto simp: head_ok_def)
  then show ?thesis using db tree_wf_filter[OF db(3) R(3)] R(1) by (auto simp: fork_db_inv_def)
qed

lemma remove_all_Inr:
  assumes "for_each fork_db_remove ids db = Inr db'" "fd_head db = Some h"
  shows "\<exists>R. db' = db\<lparr>fd_index := filter (\<lambda>b. bst_id b \<notin> R) (fd_index db)\<rparr> \<and> set ids \<subseteq> R \<and>
    (ids \<noteq> [] \<longrightarrow> bst_id h \<notin> R) \<and> (\<forall>b \<in> set (fd_index db). bst_previous b \<in> R \<longrightarrow> bst_id b \<in> R)"
  using assms
proof (induction ids arbitrary: db)
  case Nil
  then show ?case by (intro exI[of _ "{}"]) auto
next
  case (Cons i ids)
  obtain db1 where rm: "fork_db_remove i db = Inr db1" and run: "for_each fork_db_remove ids db1 = Inr db'"
    using Cons.prems(1) by auto
  obtain R1 where R1: "db1 = db\<lparr>fd_index := filter (\<lambda>b. bst_id b \<notin> R1) (fd_index db)\<rparr>" "i \<in> R1" "bst_id h \<notin> R1"
      "\<forall>b \<in> set (fd_index db). bst_previous b \<in> R1 \<longrightarrow> bst_id b \<in> R1"
    by (rule fork_db_remove_Inr[OF rm Cons.prems(2)])
  have "fd_head db1 = Some h" using R1(1) Cons.prems(2) by simp
  then obtain R2 where R2: "db' = db1\<lparr>fd_index := filter (\<lambda>b. bst_id b \<notin> R2) (fd_index db1)\<rparr>" "set ids \<subseteq> R2"
      "ids \<noteq> [] \<longrightarrow> bst_id h \<notin> R2" "\<forall>b \<in> set (fd_index db1). bst_previous b \<in> R2 \<longrightarrow> bst_id b \<in> R2"
    using Cons.IH[OF run] by blast
  define R where "R = (if ids = [] then R1 else R1 \<union> R2)"
  show ?case
  proof (cases "ids = []")
    case True
    then show ?thesis using R1 run by (intro exI[of _ R1]) auto
  next
    case False
    then show ?thesis using R1 R2 by (intro exI[of _ "R1 \<union> R2"]) (auto intro!: filter_cong)
  qed
qed

lemma ancestors_loop_root:
  "ancestors_loop fuel db root_id b = Inr ids \<Longrightarrow> root_id \<in> set ids"
  by (induction fuel db root_id b arbitrary: ids rule: ancestors_loop.induct)
    (auto simp: Let_def split: option.splits)

lemma advance_root_Inr:
  assumes inv: "fork_db_inv db" and adv: "advance_root i db = Inr db'" and root: "fd_root db = Some r" and head: "fd_head db = Some h"
  obtains n R where "get_block db i = Some n" "bst_validated n"
    "db' = db\<lparr>fd_index := filter (\<lambda>b. bst_id b \<notin> R) (filter (\<lambda>b. bst_id b \<noteq> i) (fd_index db)), fd_root := Some n\<rparr>"
    "bst_id r \<in> R" "bst_id h \<notin> R"
    "\<forall>b \<in> set (filter (\<lambda>b. bst_id b \<noteq> i) (fd_index db)). bst_previous b \<in> R \<longrightarrow> bst_id b \<in> R"
proof -
  define db0 where "db0 = db\<lparr>fd_index := filter (\<lambda>b. bst_id b \<noteq> i) (fd_index db)\<rparr>"
  obtain n where n: "get_block db i = Some n"
    using adv root by (cases "get_block db i") (simp_all add: advance_root_def)
  note a = adv[unfolded advance_root_def root n option.case, folded db0_def]
  have v: "bst_validated n" using a by simp
  obtain ids db1 where ids: "ancestors_loop (db_fuel db) db (bst_id r) n = Inr ids"
      and rm: "for_each fork_db_remove ids db0 = Inr db1" and db': "db' = db1\<lparr>fd_root := Some n\<rparr>"
    using a by (simp only: eos_assert_Inr res_bind_Inr sum.inject) blast
  have rid: "bst_id r \<in> set ids" by (rule ancestors_loop_root[OF ids])
  have "fd_head db0 = Some h" by (simp add: db0_def head)
  from remove_all_Inr[OF rm this] obtain R
    where "db1 = db0\<lparr>fd_index := filter (\<lambda>b. bst_id b \<notin> R) (fd_index db0)\<rparr>" "set ids \<subseteq> R"
      "ids \<noteq> [] \<longrightarrow> bst_id h \<notin> R" "\<forall>b \<in> set (fd_index db0). bst_previous b \<in> R \<longrightarrow> bst_id b \<in> R"
    by (elim exE conjE)
  then show ?thesis using rid by (intro that[OF n v, of R]) (auto simp: db0_def db')
qed

lemma advance_root_inv:
  assumes inv: "fork_db_inv db" and adv: "advance_root i db = Inr db'"
  shows "fork_db_inv db'"
proof -
  obtain r h where db: "fd_root db = Some r" "fd_head db = Some h" "tree_wf r (fd_index db)" "head_ok r (fd_index db) h"
    by (rule fork_db_invE[OF inv])
  obtain n R where n: "get_block db i = Some n" "bst_validated n"
    and db': "db' = db\<lparr>fd_index := filter (\<lambda>b. bst_id b \<notin> R) (filter (\<lambda>b. bst_id b \<noteq> i) (fd_index db)), fd_root := Some n\<rparr>"
    and R: "bst_id r \<in> R" "bst_id h \<notin> R"
      "\<forall>b \<in> set (filter (\<lambda>b. bst_id b \<noteq> i) (fd_index db)). bst_previous b \<in> R \<longrightarrow> bst_id b \<in> R"
    by (rule advance_root_Inr[OF inv adv db(1,2)])
  let ?idx = "filter (\<lambda>b. bst_id b \<notin> R) (filter (\<lambda>b. bst_id b \<noteq> i) (fd_index db))"
  have ni: "n \<in> set (fd_index db)" "bst_id n = i" using get_block_mem[OF n(1)] by auto
  have uniq: "b = n" if "b \<in> set (fd_index db)" "bst_id b = i" for b
    using get_block_id[OF db(3) that(1)] that(2) n(1) by simp
  have "\<exists>p \<in> set (n # ?idx). is_parent p b" if b: "b \<in> set ?idx" for b
  proof -
    obtain p where p: "p \<in> set (r # fd_index db)" "is_parent p b" using db(3) b by (auto simp: tree_wf_def)
    have "bst_previous b \<notin> R" using R(3) b by auto
    then have "bst_id p \<notin> R" using p(2) by (simp add: is_parent_def)
    then have "p \<in> set (n # ?idx)" using p(1) R(1) uniq by auto
    then show ?thesis using p(2) by blast
  qed
  then have tree: "tree_wf n ?idx" using db(3) ni(2) by (auto simp: tree_wf_def distinct_map_filter)
  have "h = n \<or> h \<in> set ?idx \<and> bst_validated h" using db(4) R(1,2) uniq by (auto simp: head_ok_def)
  then have "head_ok n ?idx h" using db(4) by (auto simp: head_ok_def)
  then show ?thesis using tree db' db(2) by (auto simp: fork_db_inv_def)
qed

text \<open>A call that throws leaves the database as it was, or without the new root, whose children are then orphans.\<close>

lemma remove_until_thrown_Inr: "for_each fork_db_remove ids db = Inr db' \<Longrightarrow> remove_until_thrown ids db = db'"
  by (induction ids db rule: remove_until_thrown.induct) auto

lemma advance_root_left_Inr:
  "advance_root i db = Inr db' \<Longrightarrow> db' = (advance_root_left i db)\<lparr>fd_root := get_block db i\<rparr>"
  by (auto simp: advance_root_def advance_root_left_def remove_until_thrown_Inr split: option.splits)

lemma remove_until_thrown_subset:
  "fd_root (remove_until_thrown ids db) = fd_root db \<and> set (fd_index (remove_until_thrown ids db)) \<subseteq> set (fd_index db)"
proof (induction ids db rule: remove_until_thrown.induct)
  case (2 i ids db)
  show ?case
  proof (cases "fork_db_remove i db")
    case (Inr db')
    then have "fd_root db' = fd_root db" "set (fd_index db') \<subseteq> set (fd_index db)"
      by (auto simp: fork_db_remove_def split: option.splits)
    then show ?thesis using 2 Inr by auto
  qed simp
qed simp

lemma advance_root_left_cases:
  "advance_root_left i db = db \<or>
    fd_root (advance_root_left i db) = fd_root db \<and> get_block db i \<noteq> None \<and> get_block (advance_root_left i db) i = None"
proof -
  have "get_block db' i = None" if "set (fd_index db') \<subseteq> set (filter (\<lambda>b. bst_id b \<noteq> i) (fd_index db))"
    for db' :: "('a, 'b, 'c, 'd) fork_database"
    using that by (auto simp: get_block_def find_None_iff)
  then show ?thesis
    using remove_until_thrown_subset[of _ "db\<lparr>fd_index := filter (\<lambda>b. bst_id b \<noteq> i) (fd_index db)\<rparr>"]
    by (auto simp: advance_root_left_def split: option.splits sum.splits)
qed

text \<open>
  The databases that the operations of the sources lead to when they return. The database that a throwing
  \<open>advance_root\<close> may leave is not among them: it need not be a tree.
\<close>

inductive fork_db_reachable :: "('k, 's, 't, 'm) fork_database \<Rightarrow> bool" where
  fork_db_reset: "fork_db_reachable (reset bhs)"
| fork_db_added: "fork_db_reachable db \<Longrightarrow> well_numbered db n \<Longrightarrow>
    fork_db_add n ignore validate validator db = Inr db' \<Longrightarrow> fork_db_reachable db'"
| fork_db_marked: "fork_db_reachable db \<Longrightarrow> mark_valid b db = Inr db' \<Longrightarrow> fork_db_reachable db'"
| fork_db_removed: "fork_db_reachable db \<Longrightarrow> fork_db_remove i db = Inr db' \<Longrightarrow> fork_db_reachable db'"
| fork_db_advanced: "fork_db_reachable db \<Longrightarrow> advance_root i db = Inr db' \<Longrightarrow> fork_db_reachable db'"
| fork_db_rolled_back: "fork_db_reachable db \<Longrightarrow> fork_db_reachable (rollback_head_to_root db)"

lemma fork_db_reachable_inv: "fork_db_reachable db \<Longrightarrow> fork_db_inv db"
  by (induction rule: fork_db_reachable.induct)
    (auto intro: reset_inv rollback_inv elim: fork_db_add_inv mark_valid_inv fork_db_remove_inv advance_root_inv)

end
