(* ===== verification/Fork_Branches.thy ===== *)
theory Fork_Branches
  imports Fork_Database
begin

text \<open>
  What the fork database guarantees: its shape after any sequence of operations, the two
  branches from a common ancestor that a switch of forks undoes and applies, and that a closed
  database is restored when it is opened.
\<close>

section \<open>Heights\<close>

definition depth :: "('k, 's, 't, 'm) block_state \<Rightarrow> ('k, 's, 't, 'm) block_state \<Rightarrow> nat" where
  "depth r b = unat (bst_block_num b) - unat (bst_block_num r)"

lemma tree_parent:
  assumes "tree_wf r idx" "b \<in> set idx"
  obtains p where "p \<in> set (r # idx)" "bst_previous b = bst_id p" "unat (bst_block_num b) = Suc (unat (bst_block_num p))"
  using assms by (auto simp: tree_wf_def is_parent_def)

lemma heights_filled:
  assumes wf: "tree_wf r idx"
  shows "b \<in> set idx \<Longrightarrow> unat (bst_block_num r) < unat (bst_block_num b) \<and>
    {Suc (unat (bst_block_num r))..unat (bst_block_num b)} \<subseteq> (\<lambda>b. unat (bst_block_num b)) ` set idx"
proof (induction "unat (bst_block_num b)" arbitrary: b rule: less_induct)
  case less
  obtain p where p: "p \<in> set (r # idx)" "unat (bst_block_num b) = Suc (unat (bst_block_num p))"
    by (rule tree_parent[OF wf less.prems])
  show ?case
  proof (cases "p = r")
    case True
    then have "{Suc (unat (bst_block_num r))..unat (bst_block_num b)} = {unat (bst_block_num b)}" using p(2) by auto
    then show ?thesis
      using True p(2) imageI[OF less.prems, of "\<lambda>b. unat (bst_block_num b)"] by simp
  next
    case False
    then have "p \<in> set idx" using p(1) by simp
    then have IH: "unat (bst_block_num r) < unat (bst_block_num p)"
        "{Suc (unat (bst_block_num r))..unat (bst_block_num p)} \<subseteq> (\<lambda>b. unat (bst_block_num b)) ` set idx"
      using less.hyps[of p] p(2) by auto
    have "{Suc (unat (bst_block_num r))..unat (bst_block_num b)} =
        insert (unat (bst_block_num b)) {Suc (unat (bst_block_num r))..unat (bst_block_num p)}"
      using IH(1) p(2) by auto
    then show ?thesis
      using IH p(2) imageI[OF less.prems, of "\<lambda>b. unat (bst_block_num b)"] by simp
  qed
qed

lemma above_root: "tree_wf r idx \<Longrightarrow> b \<in> set idx \<Longrightarrow> unat (bst_block_num r) < unat (bst_block_num b)"
  using heights_filled by blast

lemma depth_le:
  assumes "tree_wf r idx" "b \<in> set (r # idx)"
  shows "depth r b \<le> length idx"
proof (cases "b = r")
  case False
  then have "b \<in> set idx" using assms(2) by simp
  from heights_filled[OF assms(1) this]
  have "card {Suc (unat (bst_block_num r))..unat (bst_block_num b)} \<le> card ((\<lambda>b. unat (bst_block_num b)) ` set idx)"
    by (intro card_mono) auto
  also have "\<dots> \<le> length idx" by (meson card_image_le card_length order_trans finite_set)
  finally show ?thesis by (simp add: depth_def)
qed (simp add: depth_def)

lemma same_height_root:
  assumes "tree_wf r idx" "b \<in> set (r # idx)" "unat (bst_block_num b) = unat (bst_block_num r)"
  shows "b = r"
  using assms above_root[OF assms(1), of b] by auto

lemma root_id_fresh: "tree_wf r idx \<Longrightarrow> b \<in> set idx \<Longrightarrow> bst_id b \<noteq> bst_id r"
  using imageI[of b "set idx" "\<lambda>b. bst_id b"] by (auto simp: tree_wf_def simp del: image_eqI)

section \<open>Branches\<close>

text \<open>The blocks from the one with id \<open>i\<close> down to, and without, the block with id \<open>a\<close>.\<close>

fun is_branch :: "('k, 's, 't, 'm) fork_database \<Rightarrow> digest \<Rightarrow> ('k, 's, 't, 'm) block_state list \<Rightarrow> digest \<Rightarrow> bool" where
  "is_branch db i [] a \<longleftrightarrow> i = a"
| "is_branch db i (b # bs) a \<longleftrightarrow> b \<in> set (fd_index db) \<and> bst_id b = i \<and> is_branch db (bst_previous b) bs a"

lemma is_branch_append: "is_branch db i (xs @ ys) a \<longleftrightarrow> (\<exists>j. is_branch db i xs j \<and> is_branch db j ys a)"
  by (induction xs arbitrary: i) auto

lemma block_or_root_id:
  assumes "fd_root db = Some r" "tree_wf r (fd_index db)" "b \<in> set (r # fd_index db)"
  shows "block_or_root db (bst_id b) = Inr b"
proof (cases "b = r")
  case False
  then have b: "b \<in> set (fd_index db)" using assms(3) by simp
  then have "bst_id b \<noteq> bst_id r" by (rule root_id_fresh[OF assms(2)])
  then show ?thesis using get_block_id[OF assms(2) b] assms(1) by (simp add: block_or_root_def)
qed (simp add: block_or_root_def assms(1))

lemma branch_loop_correct:
  assumes db: "fd_root db = Some r" "tree_wf r (fd_index db)"
  shows "b \<in> set (r # fd_index db) \<Longrightarrow> depth r b < fuel \<Longrightarrow>
    \<exists>xs. branch_loop fuel db (bst_id b) = Inr xs \<and> is_branch db (bst_id b) xs (bst_id r)"
proof (induction fuel arbitrary: b)
  case (Suc fuel)
  show ?case
  proof (cases "b = r")
    case True
    then have "get_block db (bst_id b) = None" using root_id_fresh[OF db(2)] by (auto simp: get_block_None)
    then show ?thesis using True by simp
  next
    case False
    then have b: "b \<in> set (fd_index db)" using Suc.prems by simp
    obtain p where p: "p \<in> set (r # fd_index db)" "bst_previous b = bst_id p"
        "unat (bst_block_num b) = Suc (unat (bst_block_num p))"
      by (rule tree_parent[OF db(2) b])
    have "depth r p < fuel" using Suc.prems(2) p(3) above_root[OF db(2) b] by (simp add: depth_def)
    from Suc.IH[OF p(1) this] obtain xs where "branch_loop fuel db (bst_id p) = Inr xs" "is_branch db (bst_id p) xs (bst_id r)"
      by blast
    then show ?thesis using get_block_id[OF db(2) b] b p(2) by (intro exI[of _ "b # xs"]) simp
  qed
qed simp

lemma descend_to_correct:
  assumes db: "fd_root db = Some r" "tree_wf r (fd_index db)" and height: "bst_block_num r \<le> height"
  shows "b \<in> set (r # fd_index db) \<Longrightarrow> depth r b < fuel \<Longrightarrow>
    \<exists>xs b'. descend_to fuel db height acc b = Inr (acc @ xs, b') \<and> b' \<in> set (r # fd_index db) \<and>
      is_branch db (bst_id b) xs (bst_id b') \<and> bst_block_num b' = min (bst_block_num b) height \<and>
      (\<forall>x \<in> set xs. height < bst_block_num x)"
proof (induction fuel arbitrary: b acc)
  case (Suc fuel)
  show ?case
  proof (cases "bst_block_num b > height")
    case False
    then show ?thesis using Suc.prems(1) by (intro exI[of _ "[]"] exI[of _ b]) (auto simp: min_def)
  next
    case True
    then have "b \<noteq> r" using height by auto
    then have b: "b \<in> set (fd_index db)" using Suc.prems(1) by simp
    obtain p where p: "p \<in> set (r # fd_index db)" "bst_previous b = bst_id p"
        "unat (bst_block_num b) = Suc (unat (bst_block_num p))"
      by (rule tree_parent[OF db(2) b])
    have "depth r p < fuel" using Suc.prems(2) p(3) above_root[OF db(2) b] by (simp add: depth_def)
    from Suc.IH[OF p(1) this, of "acc @ [b]"] obtain xs b' where
      x: "descend_to fuel db height (acc @ [b]) p = Inr ((acc @ [b]) @ xs, b')" "b' \<in> set (r # fd_index db)"
        "is_branch db (bst_id p) xs (bst_id b')" "bst_block_num b' = min (bst_block_num p) height"
        "\<forall>x \<in> set xs. height < bst_block_num x" by blast
    have "height \<le> bst_block_num p" using True p(3) by (simp add: word_le_nat_alt word_less_nat_alt)
    then have "bst_block_num b' = min (bst_block_num b) height" 
      unfolding x(4) using less_imp_le[OF True] by (simp add: min.absorb2)
    moreover have "descend_to (Suc fuel) db height acc b = Inr (acc @ b # xs, b')"
      using True x(1) block_or_root_id[OF db p(1)] p(2) by simp
    ultimately show ?thesis
      using x True b p(2) by (intro exI[of _ "b # xs"] exI[of _ b']) auto
  qed
qed simp

lemma descend_both_correct:
  assumes db: "fd_root db = Some r" "tree_wf r (fd_index db)"
  shows "b1 \<in> set (r # fd_index db) \<Longrightarrow> b2 \<in> set (r # fd_index db) \<Longrightarrow> bst_block_num b1 = bst_block_num b2 \<Longrightarrow>
    bst_id b1 \<noteq> bst_id b2 \<Longrightarrow> depth r b1 < fuel \<Longrightarrow>
    \<exists>xs ys a. descend_both fuel db acc1 acc2 b1 b2 = Inr (acc1 @ xs, acc2 @ ys) \<and>
      is_branch db (bst_id b1) xs (bst_id a) \<and> is_branch db (bst_id b2) ys (bst_id a) \<and> a \<in> set (r # fd_index db) \<and>
      (\<forall>x \<in> set (xs @ ys). bst_block_num x \<le> bst_block_num b1) \<and>
      (\<forall>x \<in> set xs. \<forall>y \<in> set ys. bst_id x \<noteq> bst_id y)"
proof (induction fuel arbitrary: b1 b2 acc1 acc2)
  case (Suc fuel)
  have ne: "b1 \<noteq> r" "b2 \<noteq> r"
    using same_height_root[OF db(2) Suc.prems(1)] same_height_root[OF db(2) Suc.prems(2)] Suc.prems(3,4) by metis+
  then have b: "b1 \<in> set (fd_index db)" "b2 \<in> set (fd_index db)" using Suc.prems by auto
  obtain p1 where p1: "p1 \<in> set (r # fd_index db)" "bst_previous b1 = bst_id p1"
      "unat (bst_block_num b1) = Suc (unat (bst_block_num p1))"
    by (rule tree_parent[OF db(2) b(1)])
  obtain p2 where p2: "p2 \<in> set (r # fd_index db)" "bst_previous b2 = bst_id p2"
      "unat (bst_block_num b2) = Suc (unat (bst_block_num p2))"
    by (rule tree_parent[OF db(2) b(2)])
  have num: "bst_block_num p1 = bst_block_num p2" using p1(3) p2(3) Suc.prems(3) by (simp add: word_unat_eq_iff)
  show ?case
  proof (cases "bst_id p1 = bst_id p2")
    case True
    show ?thesis
      by (rule exI[of _ "[b1]"], rule exI[of _ "[b2]"], rule exI[of _ p1])
        (use True p1 p2 b Suc.prems(3,4) in simp)
  next
    case False
    have np: "p1 \<noteq> r" "p2 \<noteq> r"
      using same_height_root[OF db(2) p1(1)] same_height_root[OF db(2) p2(1)] num False by metis+
    then have gb: "get_block db (bst_id p1) = Some p1" "get_block db (bst_id p2) = Some p2"
      using get_block_id[OF db(2), of p1] get_block_id[OF db(2), of p2] p1(1) p2(1) by simp_all
    have "depth r p1 < fuel" using Suc.prems(5) p1(3) above_root[OF db(2) b(1)] by (simp add: depth_def)
    from Suc.IH[OF p1(1) p2(1) num False this, of "acc1 @ [b1]" "acc2 @ [b2]"] obtain xs ys a where
      x: "descend_both fuel db (acc1 @ [b1]) (acc2 @ [b2]) p1 p2 = Inr ((acc1 @ [b1]) @ xs, (acc2 @ [b2]) @ ys)"
        "is_branch db (bst_id p1) xs (bst_id a)" "is_branch db (bst_id p2) ys (bst_id a)" "a \<in> set (r # fd_index db)"
        "\<forall>x \<in> set (xs @ ys). bst_block_num x \<le> bst_block_num p1"
        "\<forall>x \<in> set xs. \<forall>y \<in> set ys. bst_id x \<noteq> bst_id y" by blast
    have less: "bst_block_num p1 < bst_block_num b1" using p1(3) by (simp add: word_less_nat_alt)
    have eqid: "x = y" if "x \<in> set (fd_index db)" "y \<in> set (fd_index db)" "bst_id x = bst_id y" for x y
      using get_block_id[OF db(2) that(1)] get_block_id[OF db(2) that(2)] unfolding that(3) by simp
    have inidx: "set zs \<subseteq> set (fd_index db)" if "is_branch db i zs j" for i zs j
      using that by (induction zs arbitrary: i) auto
    have apart: "bst_id x \<noteq> bst_id y" if "x \<in> set (b1 # xs)" "y \<in> set (b2 # ys)" for x y
    proof
      assume "bst_id x = bst_id y"
      moreover have "x \<in> set (fd_index db)" "y \<in> set (fd_index db)"
        using that b inidx[OF x(2)] inidx[OF x(3)] by auto
      ultimately have "x = y" using eqid by blast
      moreover have "bst_block_num z < bst_block_num b1" if "z \<in> set (xs @ ys)" for z
        using x(5) that less by (meson order_le_less_trans)
      ultimately show False
        using that x(6) Suc.prems(3,4) \<open>bst_id x = bst_id y\<close> by (cases "x = b1"; cases "y = b2"; fastforce)
    qed
    have low: "bst_block_num x \<le> bst_block_num b1" if "x \<in> set ((b1 # xs) @ (b2 # ys))" for x
    proof -
      have "bst_block_num x \<le> bst_block_num p1" if "x \<in> set (xs @ ys)" using x(5) that by blast
      then show ?thesis using that less Suc.prems(3) by (auto intro: order_trans[OF _ less_imp_le])
    qed
    show ?thesis
    proof (rule exI[of _ "b1 # xs"], rule exI[of _ "b2 # ys"], rule exI[of _ a], intro conjI)
      show "descend_both (Suc fuel) db acc1 acc2 b1 b2 = Inr (acc1 @ b1 # xs, acc2 @ b2 # ys)"
        using x(1) gb False p1(2) p2(2) by simp
      show "is_branch db (bst_id b1) (b1 # xs) (bst_id a)" "is_branch db (bst_id b2) (b2 # ys) (bst_id a)"
        using x(2,3) b p1(2) p2(2) by simp_all
      show "\<forall>x \<in> set ((b1 # xs) @ (b2 # ys)). bst_block_num x \<le> bst_block_num b1" using low by blast
      show "\<forall>x \<in> set (b1 # xs). \<forall>y \<in> set (b2 # ys). bst_id x \<noteq> bst_id y" using apart by blast
    qed (rule x(4))
  qed
qed simp

lemma fetch_branch_from_inv:
  assumes db: "fd_root db = Some r" "tree_wf r (fd_index db)"
    and b: "b1 \<in> set (r # fd_index db)" "b2 \<in> set (r # fd_index db)"
  shows "\<exists>xs ys a. fetch_branch_from db (bst_id b1) (bst_id b2) = Inr (xs, ys) \<and> a \<in> set (r # fd_index db) \<and>
    is_branch db (bst_id b1) xs (bst_id a) \<and> is_branch db (bst_id b2) ys (bst_id a) \<and>
    (\<forall>x \<in> set xs. \<forall>y \<in> set ys. bst_id x \<noteq> bst_id y)"
proof -
  have fuel: "depth r b < db_fuel db" if "b \<in> set (r # fd_index db)" for b
    using depth_le[OF db(2) that] by (simp add: db_fuel_def)
  have low: "bst_block_num r \<le> bst_block_num b" if "b \<in> set (r # fd_index db)" for b
    using above_root[OF db(2), of b] that by (auto simp: word_le_nat_alt)
  obtain xs1 c1 where c1: "descend_to (db_fuel db) db (bst_block_num b2) [] b1 = Inr (xs1, c1)" "c1 \<in> set (r # fd_index db)"
      "is_branch db (bst_id b1) xs1 (bst_id c1)" "bst_block_num c1 = min (bst_block_num b1) (bst_block_num b2)"
      "\<forall>x \<in> set xs1. bst_block_num b2 < bst_block_num x"
    using descend_to_correct[OF db low[OF b(2)] b(1) fuel[OF b(1)], of "[]"] by auto
  obtain xs2 c2 where c2: "descend_to (db_fuel db) db (bst_block_num c1) [] b2 = Inr (xs2, c2)" "c2 \<in> set (r # fd_index db)"
      "is_branch db (bst_id b2) xs2 (bst_id c2)" "bst_block_num c2 = min (bst_block_num b2) (bst_block_num c1)"
      "\<forall>x \<in> set xs2. bst_block_num c1 < bst_block_num x"
    using descend_to_correct[OF db low[OF c1(2)] b(2) fuel[OF b(2)], of "[]"] by auto
  have num: "bst_block_num c1 = bst_block_num c2" using c1(4) c2(4) by (simp add: min_def split: if_splits)
  have one: "xs1 = [] \<or> xs2 = []"
  proof (cases "bst_block_num b1 \<le> bst_block_num b2")
    case True
    then have "descend_to (db_fuel db) db (bst_block_num b2) [] b1 = Inr ([], b1)" by (simp add: db_fuel_def leD)
    then show ?thesis using c1(1) by simp
  next
    case False
    then have "bst_block_num c1 = bst_block_num b2" using c1(4) by (simp add: min_def)
    then have "descend_to (db_fuel db) db (bst_block_num c1) [] b2 = Inr ([], b2)" by (simp add: db_fuel_def)
    then show ?thesis using c2(1) by simp
  qed
  show ?thesis
  proof (cases "bst_id c1 = bst_id c2")
    case True
    then have "fetch_branch_from db (bst_id b1) (bst_id b2) = Inr (xs1, xs2)"
      using c1(1) c2(1) block_or_root_id[OF db b(1)] block_or_root_id[OF db b(2)] by (simp add: fetch_branch_from_def)
    moreover have "\<forall>x \<in> set xs1. \<forall>y \<in> set xs2. bst_id x \<noteq> bst_id y" using one by auto
    ultimately show ?thesis using c1(2,3) c2(3) True by metis
  next
    case False
    from descend_both_correct[OF db c1(2) c2(2) num False fuel[OF c1(2)], of xs1 xs2]
    obtain xs ys a where x: "descend_both (db_fuel db) db xs1 xs2 c1 c2 = Inr (xs1 @ xs, xs2 @ ys)"
        "is_branch db (bst_id c1) xs (bst_id a)" "is_branch db (bst_id c2) ys (bst_id a)" "a \<in> set (r # fd_index db)"
        "\<forall>x \<in> set (xs @ ys). bst_block_num x \<le> bst_block_num c1"
        "\<forall>x \<in> set xs. \<forall>y \<in> set ys. bst_id x \<noteq> bst_id y"
      by (elim exE conjE)
    have res: "fetch_branch_from db (bst_id b1) (bst_id b2) = Inr (xs1 @ xs, xs2 @ ys)"
      using c1(1) c2(1) x(1) False block_or_root_id[OF db b(1)] block_or_root_id[OF db b(2)]
      by (simp add: fetch_branch_from_def)
    have mem: "set zs \<subseteq> set (fd_index db)" if "is_branch db i zs j" for i zs j
      using that by (induction zs arbitrary: i) auto
    have same: "bst_block_num u = bst_block_num v" if "u \<in> set (fd_index db)" "v \<in> set (fd_index db)" "bst_id u = bst_id v" for u v
      using get_block_id[OF db(2) that(1)] get_block_id[OF db(2) that(2)] unfolding that(3) by simp
    have high: "bst_block_num c1 < bst_block_num x" if "x \<in> set (xs1 @ xs2)" for x
      using that c1(4,5) c2(5) by (auto simp: min_def intro: le_less_trans)
    have "bst_id u \<noteq> bst_id v" if uv: "u \<in> set (xs1 @ xs)" "v \<in> set (xs2 @ ys)" for u v
    proof
      assume eq: "bst_id u = bst_id v"
      have "u \<in> set (fd_index db)" "v \<in> set (fd_index db)"
        using uv mem[OF c1(3)] mem[OF c2(3)] mem[OF x(2)] mem[OF x(3)] by auto
      then have n: "bst_block_num u = bst_block_num v" using eq by (rule same)
      have lowz: "z \<in> set (xs @ ys) \<Longrightarrow> \<not> bst_block_num c1 < bst_block_num z" for z
        using x(5) leD by blast
      have "u \<in> set xs1 \<Longrightarrow> v \<in> set ys \<Longrightarrow> False" "u \<in> set xs \<Longrightarrow> v \<in> set xs2 \<Longrightarrow> False"
        using high[of u] high[of v] lowz[of u] lowz[of v] n by simp_all
      then show False using uv x(6) one eq by auto
    qed
    moreover have "is_branch db (bst_id b1) (xs1 @ xs) (bst_id a)" "is_branch db (bst_id b2) (xs2 @ ys) (bst_id a)"
      using c1(3) c2(3) x(2,3) by (auto simp: is_branch_append)
    ultimately show ?thesis using res x(4) by blast
  qed
qed

section \<open>What the controller relies on\<close>

text \<open>
  C27. Whatever calls that return the fork database goes through, as long as the numbers in the block ids are
  right, it holds a tree: the root and the blocks have distinct ids, the parent of every block is the root or
  another block, one lower. The head is the root or a validated block, and no validated block is
  preferred to it.
\<close>

theorem fork_database_tree:
  assumes "fork_db_reachable db"
  shows "\<exists>r h. fd_root db = Some r \<and> fd_head db = Some h \<and>
     distinct (map bst_id (r # fd_index db)) \<and>
     (\<forall>b \<in> set (fd_index db). \<exists>p \<in> set (r # fd_index db).
        bst_previous b = bst_id p \<and> unat (bst_block_num b) = Suc (unat (bst_block_num p))) \<and>
     (h = r \<or> h \<in> set (fd_index db) \<and> bst_validated h) \<and>
     (\<forall>b \<in> set (fd_index db). bst_validated b \<longrightarrow> \<not> first_preferred b h)"
  using fork_db_reachable_inv[OF assms] by (simp add: fork_db_inv_def tree_wf_def head_ok_def is_parent_def)

text \<open>
  C28. For two blocks that a reachable fork database knows, \<open>fetch_branch_from\<close> ends without an exception
  and returns, from each block down, the blocks above a common ancestor; the two branches share
  no block. These are the blocks that a switch of forks pops and applies.
\<close>

theorem fetch_branch_from_correct:
  assumes "fork_db_reachable db" and "fd_root db = Some r"
    and "b1 \<in> set (r # fd_index db)" and "b2 \<in> set (r # fd_index db)"
  shows "\<exists>xs ys a. fetch_branch_from db (bst_id b1) (bst_id b2) = Inr (xs, ys) \<and> a \<in> set (r # fd_index db) \<and>
    is_branch db (bst_id b1) xs (bst_id a) \<and> is_branch db (bst_id b2) ys (bst_id a) \<and>
    (\<forall>x \<in> set xs. \<forall>y \<in> set ys. bst_id x \<noteq> bst_id y)"
proof (rule fetch_branch_from_inv[OF assms(2) _ assms(3,4)])
  show "tree_wf r (fd_index db)" using fork_db_reachable_inv[OF assms(1)] assms(2) by (auto simp: fork_db_inv_def)
qed

section \<open>Examples\<close>

text \<open>The database of genesis after the block of \<open>example_produced\<close> has been added.\<close>

definition example_added :: "((nat, nat, nat, nat) block_state \<times> (nat, nat, nat, nat) fork_database) res" where
  "example_added =
     res_bind example_produced (\<lambda>(p, h, b).
     res_bind (fork_db_add b False True example_validator (reset example_genesis)) (\<lambda>db.
     if bst_id b \<noteq> bs_id example_genesis \<and> bst_previous b = bs_id example_genesis \<and>
        unat (bst_block_num b) = Suc (unat (bc_block_num (bs_common example_genesis))) \<and>
        map bst_id (fd_index db) = [bst_id b]
     then Inr (b, db) else Inl undefined_behavior))"

lemma example_added_succeeds: "\<not> isl example_added"
  by code_simp

lemma example_added_reachable:
  "\<exists>b db. example_added = Inr (b, db) \<and> fork_db_reachable db \<and> map bst_id (fd_index db) = [bst_id b] \<and>
     bst_id b \<noteq> bs_id example_genesis"
proof -
  obtain x where x: "example_added = Inr x" by (rule not_isl_obtain[OF example_added_succeeds])
  obtain b db where bdb: "x = (b, db)" by (cases x)
  have run: "fork_db_add b False True example_validator (reset example_genesis) = Inr db"
      "bst_id b \<noteq> bs_id example_genesis" "bst_previous b = bs_id example_genesis"
      "unat (bst_block_num b) = Suc (unat (bc_block_num (bs_common example_genesis)))" "map bst_id (fd_index db) = [bst_id b]"
    using x bdb by (auto simp: example_added_def split: if_splits prod.splits)
  have "well_numbered (reset example_genesis) b"
    using run(2-4) by (simp add: well_numbered_def reset_def Let_def is_parent_def)
  then have "fork_db_reachable db" using run(1) fork_db_reset fork_db_added by blast
  then have "example_added = Inr (b, db) \<and> fork_db_reachable db \<and> map bst_id (fd_index db) = [bst_id b] \<and>
      bst_id b \<noteq> bs_id example_genesis" using x bdb run(2,5) by simp
  then show ?thesis by (intro exI)
qed

theorem fork_database_tree_witness:
  "\<exists>b db r. example_added = Inr (b, db) \<and> fd_root db = Some r \<and> distinct (map bst_id (r # fd_index db))"
proof -
  obtain b db where "example_added = Inr (b, db)" "fork_db_reachable db" using example_added_reachable by blast
  then show ?thesis using fork_database_tree[of db] by blast
qed

theorem fetch_branch_from_correct_witness:
  "\<exists>b db r xs ys. example_added = Inr (b, db) \<and> fd_root db = Some r \<and>
     fetch_branch_from db (bst_id b) (bst_id r) = Inr (xs, ys)"
proof -
  obtain b db where db: "example_added = Inr (b, db)" "fork_db_reachable db" "map bst_id (fd_index db) = [bst_id b]"
    using example_added_reachable by (elim exE conjE)
  obtain r where r: "fd_root db = Some r" using fork_db_reachable_inv[OF db(2)] by (auto simp: fork_db_inv_def)
  obtain c where c: "c \<in> set (fd_index db)" "bst_id c = bst_id b" using db(3) by (cases "fd_index db") auto
  have "c \<in> set (r # fd_index db)" "r \<in> set (r # fd_index db)" using c(1) by simp_all
  from fetch_branch_from_correct[OF db(2) r this]
  obtain xs ys where "fetch_branch_from db (bst_id b) (bst_id r) = Inr (xs, ys)" unfolding c(2) by (elim exE conjE)
  then have "example_added = Inr (b, db) \<and> fd_root db = Some r \<and> fetch_branch_from db (bst_id b) (bst_id r) = Inr (xs, ys)"
    using db(1) r by simp
  then show ?thesis by (intro exI)
qed

end
