(* ===== verification/Fork_Pruning.thy ===== *)
theory Fork_Pruning
  imports Fork_Branches
begin

text \<open>
  The abstract meaning of pruning: removing a block removes it and its descendants, and advancing the
  root keeps exactly the proper descendants of the new root. The queue of \<open>fork_db_remove\<close> and the
  sequence of removals in \<open>advance_root\<close> implement it, and both end.
\<close>

section \<open>Descendants\<close>

inductive descendant :: "('k, 's, 't, 'm) block_state list \<Rightarrow> digest \<Rightarrow> digest \<Rightarrow> bool"
  for idx and i where
  descendant_self: "descendant idx i i"
| descendant_child: "b \<in> set idx \<Longrightarrow> descendant idx i (bst_previous b) \<Longrightarrow> descendant idx i (bst_id b)"

definition links_ok :: "('k, 's, 't, 'm) block_state list \<Rightarrow> bool" where
  "links_ok idx \<longleftrightarrow> distinct (map (\<lambda>b. bst_id b) idx) \<and>
     (\<forall>b \<in> set idx. \<forall>p \<in> set idx. bst_previous b = bst_id p \<longrightarrow> unat (bst_block_num b) = Suc (unat (bst_block_num p)))"

lemma links_ok_unique: "links_ok idx \<Longrightarrow> a \<in> set idx \<Longrightarrow> b \<in> set idx \<Longrightarrow> bst_id a = bst_id b \<Longrightarrow> a = b"
  unfolding links_ok_def by (metis find_unique option.inject)

lemma links_ok_filter: "links_ok idx \<Longrightarrow> links_ok (filter P idx)"
  by (auto simp: links_ok_def distinct_map_filter)

lemma tree_wf_links:
  assumes wf: "tree_wf r idx"
  shows "links_ok idx"
proof -
  have "unat (bst_block_num b) = Suc (unat (bst_block_num p))"
    if b: "b \<in> set idx" and p: "p \<in> set idx" "bst_previous b = bst_id p" for b p
  proof -
    obtain q where q: "q \<in> set (r # idx)" "bst_previous b = bst_id q" "unat (bst_block_num b) = Suc (unat (bst_block_num q))"
      by (rule tree_parent[OF wf b])
    have "q \<noteq> r" using root_id_fresh[OF wf p(1)] p(2) q(2) by auto
    then have "q \<in> set idx" using q(1) by simp
    moreover have "distinct (map (\<lambda>b. bst_id b) idx)" using wf by (simp add: tree_wf_def)
    ultimately have "p = q" using p q(2) by (metis find_unique option.inject)
    then show ?thesis using q(3) by simp
  qed
  then show ?thesis using wf by (auto simp: links_ok_def tree_wf_def)
qed

text \<open>A proper descendant is a block of the index that is higher than the block it descends from.\<close>

lemma descendant_cases_block:
  assumes "descendant idx i j" "j \<noteq> i"
  obtains b where "b \<in> set idx" "bst_id b = j" "descendant idx i (bst_previous b)"
  using assms by (cases rule: descendant.cases) auto

lemma descendant_parent:
  assumes ok: "links_ok idx" and b: "b \<in> set idx" "descendant idx i (bst_id b)" "bst_id b \<noteq> i"
  shows "descendant idx i (bst_previous b)"
proof -
  obtain b' where "b' \<in> set idx" "bst_id b' = bst_id b" "descendant idx i (bst_previous b')"
    by (rule descendant_cases_block[OF b(2,3)])
  then show ?thesis using links_ok_unique[OF ok] b(1) by metis
qed

lemma descendant_higher:
  assumes ok: "links_ok idx" and a: "a \<in> set idx"
  shows "descendant idx (bst_id a) j \<Longrightarrow> j = bst_id a \<or>
    (\<exists>b \<in> set idx. bst_id b = j \<and> unat (bst_block_num a) < unat (bst_block_num b))"
proof (induction rule: descendant.induct)
  case (descendant_child b)
  from descendant_child.IH show ?case
  proof
    assume "bst_previous b = bst_id a"
    then show ?thesis using ok a descendant_child(1) by (auto simp: links_ok_def)
  next
    assume "\<exists>c \<in> set idx. bst_id c = bst_previous b \<and> unat (bst_block_num a) < unat (bst_block_num c)"
    then obtain c where c: "c \<in> set idx" "bst_id c = bst_previous b" "unat (bst_block_num a) < unat (bst_block_num c)" by blast
    then have "unat (bst_block_num b) = Suc (unat (bst_block_num c))"
      using ok descendant_child(1) unfolding links_ok_def by metis
    then show ?thesis using c(3) descendant_child(1) by auto
  qed
qed simp

section \<open>Removal\<close>

text \<open>
  The invariant of the queue: its ids are distinct descendants, a descendant other than the
  start is in the queue exactly when its parent has been expanded.
\<close>

definition queue_inv :: "('k, 's, 't, 'm) block_state list \<Rightarrow> digest \<Rightarrow> digest list \<Rightarrow> digest list \<Rightarrow> bool" where
  "queue_inv idx i expanded pending \<longleftrightarrow> distinct (expanded @ pending) \<and> i \<in> set (expanded @ pending) \<and>
     (\<forall>j \<in> set (expanded @ pending). descendant idx i j) \<and>
     (\<forall>b \<in> set idx. bst_id b \<noteq> i \<longrightarrow> (bst_id b \<in> set (expanded @ pending) \<longleftrightarrow> bst_previous b \<in> set expanded))"

lemma descendant_in_index: "descendant idx i j \<Longrightarrow> j = i \<or> j \<in> (\<lambda>b. bst_id b) ` set idx"
  by (induction rule: descendant.induct) auto

lemma queue_inv_length:
  assumes "queue_inv idx i expanded pending"
  shows "length (expanded @ pending) \<le> Suc (length idx)"
proof -
  have "distinct (expanded @ pending)" using assms unfolding queue_inv_def by (elim conjE)
  then have "length (expanded @ pending) = card (set (expanded @ pending))" by (rule distinct_card[symmetric])
  also have "\<dots> \<le> card (insert i ((\<lambda>b. bst_id b) ` set idx))"
  proof (rule card_mono)
    show "set (expanded @ pending) \<subseteq> insert i ((\<lambda>b. bst_id b) ` set idx)"
    proof
      fix j assume "j \<in> set (expanded @ pending)"
      then have "descendant idx i j" using assms unfolding queue_inv_def by blast
      then show "j \<in> insert i ((\<lambda>b. bst_id b) ` set idx)" using descendant_in_index by blast
    qed
  qed simp
  also have "\<dots> \<le> Suc (card ((\<lambda>b. bst_id b) ` set idx))" by (rule card_insert_le_m1) simp_all
  also have "\<dots> \<le> Suc (length idx)" using card_image_le[of "set idx" "\<lambda>b. bst_id b"] card_length[of idx] by simp
  finally show ?thesis .
qed

lemma child_not_start:
  assumes ok: "links_ok idx" and b: "b \<in> set idx" "descendant idx i (bst_previous b)"
  shows "bst_id b \<noteq> i"
proof
  assume i: "bst_id b = i"
  from descendant_higher[OF ok b(1)] b(2) i
  consider "bst_previous b = bst_id b" | c where "c \<in> set idx" "bst_id c = bst_previous b"
      "unat (bst_block_num b) < unat (bst_block_num c)" by blast
  then show False
  proof cases
    case 1
    then have "unat (bst_block_num b) = Suc (unat (bst_block_num b))" using ok b(1) unfolding links_ok_def by metis
    then show False by simp
  next
    case 2
    then have "unat (bst_block_num b) = Suc (unat (bst_block_num c))" using ok b(1) unfolding links_ok_def by metis
    then show False using 2(3) by simp
  qed
qed

lemma children_mem:
  assumes "links_ok idx" "b \<in> set idx"
  shows "bst_id b \<in> set (children idx j) \<longleftrightarrow> bst_previous b = j"
proof
  assume "bst_id b \<in> set (children idx j)"
  then obtain c where c: "c \<in> set idx" "bst_previous c = j" "bst_id c = bst_id b" by (auto simp: children_def)
  have "c = b" by (rule links_ok_unique[OF assms(1) c(1) assms(2) c(3)])
  then show "bst_previous b = j" using c(2) by simp
qed (use assms(2) in \<open>auto simp: children_def\<close>)

lemma queue_inv_step:
  assumes ok: "links_ok idx" and inv: "queue_inv idx i expanded (j # rest)"
  shows "queue_inv idx i (expanded @ [j]) (rest @ children idx j)"
proof -
  note q = inv[unfolded queue_inv_def]
  have dq: "distinct (expanded @ j # rest)" using q by (elim conjE)
  have iq: "i \<in> set (expanded @ j # rest)" using q by (elim conjE)
  have desc: "descendant idx i k" if "k \<in> set (expanded @ j # rest)" for k using q that by blast
  have mem: "bst_id b \<in> set (expanded @ j # rest) \<longleftrightarrow> bst_previous b \<in> set expanded"
    if "b \<in> set idx" "bst_id b \<noteq> i" for b using q that by blast
  have kids: "\<exists>b \<in> set idx. bst_id b = k \<and> bst_previous b = j \<and> bst_id b \<noteq> i" if k: "k \<in> set (children idx j)" for k
  proof -
    obtain b where b: "b \<in> set idx" "bst_id b = k" "bst_previous b = j" using k by (auto simp: children_def)
    have "descendant idx i (bst_previous b)" using desc b(3) by simp
    then have "bst_id b \<noteq> i" by (rule child_not_start[OF ok b(1)])
    then show ?thesis using b by blast
  qed
  have "k \<notin> set (expanded @ j # rest)" if k: "k \<in> set (children idx j)" for k
  proof -
    obtain b where b: "b \<in> set idx" "bst_id b = k" "bst_previous b = j" "bst_id b \<noteq> i" using kids[OF k] by (elim bexE conjE)
    have "j \<notin> set expanded" using dq by simp
    then show ?thesis using mem[OF b(1,4)] unfolding b(2,3) by blast
  qed
  moreover have "distinct (children idx j)" using ok by (auto simp: children_def links_ok_def distinct_map_filter)
  ultimately have dist: "distinct ((expanded @ [j]) @ rest @ children idx j)" using dq by auto
  have down: "descendant idx i k" if k: "k \<in> set (children idx j)" for k
  proof -
    obtain b where b: "b \<in> set idx" "bst_id b = k" "bst_previous b = j" using kids[OF k] by (elim bexE conjE)
    show ?thesis using descendant_child[OF b(1), of i] desc[of j] unfolding b(2,3) by simp
  qed
  have "bst_id b \<in> set ((expanded @ [j]) @ rest @ children idx j) \<longleftrightarrow> bst_previous b \<in> set (expanded @ [j])"
    if "b \<in> set idx" "bst_id b \<noteq> i" for b
    using mem[OF that] children_mem[OF ok that(1), of j] by auto
  then show ?thesis unfolding queue_inv_def using dist iq desc down by auto
qed

lemma queue_inv_done:
  assumes ok: "links_ok idx" and inv: "queue_inv idx i expanded []"
  shows "j \<in> set expanded \<longleftrightarrow> descendant idx i j"
proof
  assume "descendant idx i j"
  then show "j \<in> set expanded"
  proof (induction rule: descendant.induct)
    case (descendant_child b)
    then show ?case using inv child_not_start[OF ok, of b i] unfolding queue_inv_def by simp
  qed (use inv in \<open>simp add: queue_inv_def\<close>)
qed (use inv in \<open>simp add: queue_inv_def\<close>)

lemma remove_loop_exact:
  assumes ok: "links_ok idx"
  shows "queue_inv idx i expanded pending \<Longrightarrow> length expanded + fuel \<ge> Suc (length idx) \<Longrightarrow>
    hid \<notin> set expanded \<Longrightarrow>
    (if descendant idx i hid then remove_loop fuel idx hid expanded pending = Inl fork_database_exception
     else \<exists>R. remove_loop fuel idx hid expanded pending = Inr R \<and> (\<forall>j. j \<in> set R \<longleftrightarrow> descendant idx i j))"
proof (induction fuel arbitrary: expanded pending)
  case 0
  have "length pending = 0" using queue_inv_length[OF 0(1)] 0(2) unfolding length_append by linarith
  then show ?case using 0 queue_inv_done[OF ok, of i expanded] by auto
next
  case (Suc fuel)
  show ?case
  proof (cases pending)
    case Nil
    then show ?thesis using Suc.prems queue_inv_done[OF ok, of i expanded] by auto
  next
    case (Cons j rest)
    then have j: "descendant idx i j" using Suc.prems(1) by (simp add: queue_inv_def)
    show ?thesis
    proof (cases "j = hid")
      case True
      then show ?thesis using Cons j by simp
    next
      case False
      then show ?thesis
        using Suc.IH[OF queue_inv_step[OF ok Suc.prems(1)[unfolded Cons]]] Suc.prems(2,3) Cons by simp
    qed
  qed
qed

lemma fork_db_remove_links:
  assumes h: "fd_head db = Some h" and ok: "links_ok (fd_index db)"
  shows "fork_db_remove i db =
     (if descendant (fd_index db) i (bst_id h) then Inl fork_database_exception
      else Inr (db\<lparr>fd_index := filter (\<lambda>b. \<not> descendant (fd_index db) i (bst_id b)) (fd_index db)\<rparr>))"
proof -
  have "queue_inv (fd_index db) i [] [i]"
    using child_not_start[OF ok] by (auto simp: queue_inv_def descendant_self)
  note loop = remove_loop_exact[OF ok this, of "db_fuel db" "bst_id h"]
  show ?thesis
  proof (cases "descendant (fd_index db) i (bst_id h)")
    case True
    then show ?thesis using loop h by (simp add: fork_db_remove_def db_fuel_def)
  next
    case False
    then obtain R where "remove_loop (db_fuel db) (fd_index db) (bst_id h) [] [i] = Inr R"
        "\<forall>j. j \<in> set R \<longleftrightarrow> descendant (fd_index db) i j"
      using loop by (auto simp: db_fuel_def)
    then show ?thesis using h False by (simp add: fork_db_remove_def)
  qed
qed

section \<open>Advancing the root\<close>

text \<open>
  Once the new root has left the index, no proper ancestor of it reaches a block that descends from it.
\<close>

lemma ancestor_not_reached:
  assumes ok: "links_ok idx" and sub: "set idx' \<subseteq> set idx" "\<forall>b \<in> set idx'. bst_id b \<noteq> i"
  shows "descendant idx' a j \<Longrightarrow> descendant idx i j \<Longrightarrow> descendant idx i a"
proof (induction rule: descendant.induct)
  case (descendant_child b)
  then have "b \<in> set idx" "bst_id b \<noteq> i" using sub by auto
  then show ?case using descendant_child descendant_parent[OF ok] by blast
qed

lemma remove_all_keeps:
  assumes "links_ok idx" "fd_head db = Some h" "descendant idx i (bst_id h)"
    and "links_ok (fd_index db)" "set (fd_index db) \<subseteq> set idx" "\<forall>b \<in> set (fd_index db). bst_id b \<noteq> i"
    and "\<forall>a \<in> set as. \<not> descendant idx i a"
  shows "\<exists>db'. for_each fork_db_remove as db = Inr db' \<and>
     (\<forall>b \<in> set (fd_index db). descendant idx i (bst_id b) \<longrightarrow> b \<in> set (fd_index db'))"
  using assms(2-)
proof (induction as arbitrary: db)
  case (Cons a as)
  define db1 where "db1 = db\<lparr>fd_index := filter (\<lambda>b. \<not> descendant (fd_index db) a (bst_id b)) (fd_index db)\<rparr>"
  have a: "\<not> descendant idx i a" using Cons.prems(6) by simp
  have keep: "\<not> descendant (fd_index db) a j" if "descendant idx i j" for j
    using ancestor_not_reached[OF assms(1) Cons.prems(4,5) _ that] a by blast
  have step: "fork_db_remove a db = Inr db1"
    using fork_db_remove_links[OF Cons.prems(1,3)] keep[OF Cons.prems(2)] by (simp add: db1_def)
  have "fd_head db1 = Some h" "links_ok (fd_index db1)" "set (fd_index db1) \<subseteq> set idx"
      "\<forall>b \<in> set (fd_index db1). bst_id b \<noteq> i" "\<forall>a \<in> set as. \<not> descendant idx i a"
    using Cons.prems(1,4-6) links_ok_filter[OF Cons.prems(3)] by (auto simp: db1_def)
  from Cons.IH[OF this(1) Cons.prems(2) this(2-5)]
  obtain db' where i: "for_each fork_db_remove as db1 = Inr db'"
      "\<forall>b \<in> set (fd_index db1). descendant idx i (bst_id b) \<longrightarrow> b \<in> set (fd_index db')" by blast
  have "b \<in> set (fd_index db')" if "b \<in> set (fd_index db)" "descendant idx i (bst_id b)" for b
    using i(2) that keep[OF that(2)] by (simp add: db1_def)
  then show ?case using step i(1) by simp
qed simp

lemma remove_all_total:
  assumes "fd_head db = Some h" "links_ok (fd_index db)"
  shows "for_each fork_db_remove as db = Inl fork_database_exception \<or> (\<exists>db'. for_each fork_db_remove as db = Inr db')"
  using assms
proof (induction as arbitrary: db)
  case (Cons a as)
  note step = fork_db_remove_links[OF Cons.prems, of a]
  show ?case
  proof (cases "descendant (fd_index db) a (bst_id h)")
    case False
    then show ?thesis using step Cons.IH links_ok_filter[OF Cons.prems(2)] Cons.prems(1) by simp
  qed (use step in simp)
qed simp

text \<open>The walk to the old root collects lower blocks only, and the old root itself.\<close>

lemma ancestors_loop_correct:
  assumes db: "fd_root db = Some r" "tree_wf r (fd_index db)"
  shows "b \<in> set (fd_index db) \<Longrightarrow> depth r b \<le> fuel \<Longrightarrow>
    \<exists>ids. ancestors_loop fuel db (bst_id r) b = Inr ids \<and>
      (\<forall>a \<in> set ids. a = bst_id r \<or> (\<exists>c \<in> set (fd_index db). bst_id c = a \<and> unat (bst_block_num c) < unat (bst_block_num b)))"
proof (induction fuel arbitrary: b)
  case 0
  then show ?case using above_root[OF db(2) 0(1)] by (simp add: depth_def)
next
  case (Suc fuel)
  obtain p where p: "p \<in> set (r # fd_index db)" "bst_previous b = bst_id p" "unat (bst_block_num b) = Suc (unat (bst_block_num p))"
    by (rule tree_parent[OF db(2) Suc.prems(1)])
  show ?case
  proof (cases "p = r")
    case True
    have "get_block db (bst_id r) = None" using root_id_fresh[OF db(2)] by (auto simp: get_block_None)
    then show ?thesis using True p(2) by simp
  next
    case False
    then have pi: "p \<in> set (fd_index db)" using p(1) by simp
    have "depth r p \<le> fuel" using Suc.prems(2) p(3) above_root[OF db(2) pi] by (simp add: depth_def)
    from Suc.IH[OF pi this] obtain ids where ids: "ancestors_loop fuel db (bst_id r) p = Inr ids"
        "\<forall>a \<in> set ids. a = bst_id r \<or> (\<exists>c \<in> set (fd_index db). bst_id c = a \<and> unat (bst_block_num c) < unat (bst_block_num p))"
      by (elim exE conjE)
    have run: "ancestors_loop (Suc fuel) db (bst_id r) b = Inr (bst_id p # ids)"
      using ids(1) get_block_id[OF db(2) pi] p(2) by simp
    have "a = bst_id r \<or> (\<exists>c \<in> set (fd_index db). bst_id c = a \<and> unat (bst_block_num c) < unat (bst_block_num b))"
      if a: "a \<in> set (bst_id p # ids)" for a
    proof (cases "a = bst_id p")
      case True
      then show ?thesis using pi p(3) by auto
    next
      case False
      then have "a \<in> set ids" using a by simp
      then show ?thesis using ids(2) p(3) less_Suc_eq by fastforce
    qed
    then show ?thesis using run by blast
  qed
qed

lemma ancestor_not_descendant:
  assumes wf: "tree_wf r idx" and n: "n \<in> set idx"
    and a: "a = bst_id r \<or> (\<exists>c \<in> set idx. bst_id c = a \<and> unat (bst_block_num c) < unat (bst_block_num n))"
  shows "\<not> descendant idx (bst_id n) a"
proof
  assume "descendant idx (bst_id n) a"
  then obtain b where b: "b \<in> set idx" "bst_id b = a" "unat (bst_block_num n) \<le> unat (bst_block_num b)"
    using descendant_higher[OF tree_wf_links[OF wf] n] n less_imp_le by blast
  from a show False
  proof
    assume "a = bst_id r"
    then show False using root_id_fresh[OF wf b(1)] b(2) by simp
  next
    assume "\<exists>c \<in> set idx. bst_id c = a \<and> unat (bst_block_num c) < unat (bst_block_num n)"
    then obtain c where c: "c \<in> set idx" "bst_id c = a" "unat (bst_block_num c) < unat (bst_block_num n)" by (elim bexE conjE)
    have "bst_id c = bst_id b" unfolding b(2) c(2) ..
    then have "c = b" by (rule links_ok_unique[OF tree_wf_links[OF wf] c(1) b(1)])
    then show False using b(3) c(3) by simp
  qed
qed

text \<open>Everything that stays in the index when the ancestors are gone descends from the new root.\<close>

lemma kept_descends:
  assumes wf: "tree_wf r idx" and n: "n \<in> set idx"
    and R: "bst_id r \<in> R" "\<forall>b \<in> set (filter (\<lambda>b. bst_id b \<noteq> bst_id n) idx). bst_previous b \<in> R \<longrightarrow> bst_id b \<in> R"
    and b: "b \<in> set idx" "bst_id b \<notin> R"
  shows "descendant idx (bst_id n) (bst_id b)"
  using b
proof (induction "unat (bst_block_num b)" arbitrary: b rule: less_induct)
  case (less b)
  show ?case
  proof (cases "bst_id b = bst_id n")
    case False
    obtain p where p: "p \<in> set (r # idx)" "bst_previous b = bst_id p" "unat (bst_block_num b) = Suc (unat (bst_block_num p))"
      by (rule tree_parent[OF wf less.prems(1)])
    have "bst_id p \<notin> R" using R(2) less.prems False p(2) by auto
    moreover from this have "p \<in> set idx" using p(1) R(1) by auto
    ultimately have "descendant idx (bst_id n) (bst_id p)" using less.hyps[of p] p(3) by simp
    then show ?thesis using descendant_child[OF less.prems(1)] p(2) by simp
  qed (simp add: descendant_self)
qed

text \<open>The abstract operations: pruning in terms of descendants.\<close>

definition remove_spec :: "digest \<Rightarrow> ('k, 's, 't, 'm) fork_database \<Rightarrow> ('k, 's, 't, 'm) fork_database res" where
  "remove_spec i db =
     (if descendant (fd_index db) i (bst_id (the (fd_head db))) then Inl fork_database_exception
      else Inr (db\<lparr>fd_index := filter (\<lambda>b. \<not> descendant (fd_index db) i (bst_id b)) (fd_index db)\<rparr>))"

definition advance_spec :: "digest \<Rightarrow> ('k, 's, 't, 'm) fork_database \<Rightarrow> ('k, 's, 't, 'm) fork_database res" where
  "advance_spec i db =
     (case get_block db i of
        None \<Rightarrow> Inl fork_database_exception
      | Some n \<Rightarrow>
          if bst_validated n \<and> descendant (fd_index db) i (bst_id (the (fd_head db)))
          then Inr (db\<lparr>fd_index := filter (\<lambda>b. bst_id b \<noteq> i \<and> descendant (fd_index db) i (bst_id b)) (fd_index db),
                       fd_root := Some n\<rparr>)
          else Inl fork_database_exception)"

lemma advance_root_total:
  assumes inv: "fork_db_inv db" and n: "get_block db i = Some n" "bst_validated n" and h: "fd_head db = Some h"
  shows "advance_root i db = Inl fork_database_exception \<or> (\<exists>db'. advance_root i db = Inr db')"
    and "descendant (fd_index db) i (bst_id h) \<Longrightarrow> \<exists>db'. advance_root i db = Inr db' \<and>
      (\<forall>b \<in> set (fd_index db). bst_id b \<noteq> i \<and> descendant (fd_index db) i (bst_id b) \<longrightarrow> b \<in> set (fd_index db'))"
proof -
  obtain r where db: "fd_root db = Some r" "tree_wf r (fd_index db)" using inv by (auto simp: fork_db_inv_def)
  define db0 where "db0 = db\<lparr>fd_index := filter (\<lambda>b. bst_id b \<noteq> i) (fd_index db)\<rparr>"
  have ni: "n \<in> set (fd_index db)" "bst_id n = i" using get_block_mem[OF n(1)] by auto
  have "depth r n \<le> db_fuel db" using depth_le[OF db(2), of n] ni(1) by (simp add: db_fuel_def)
  from ancestors_loop_correct[OF db ni(1) this]
  obtain ids where ids: "ancestors_loop (db_fuel db) db (bst_id r) n = Inr ids"
      "\<forall>a \<in> set ids. a = bst_id r \<or> (\<exists>c \<in> set (fd_index db). bst_id c = a \<and> unat (bst_block_num c) < unat (bst_block_num n))"
    by (elim exE conjE)
  have run: "advance_root i db = res_bind (for_each fork_db_remove ids db0) (\<lambda>db. Inr (db\<lparr>fd_root := Some n\<rparr>))"
    using db(1) n ids(1) by (simp add: advance_root_def db0_def)
  note ok = tree_wf_links[OF db(2)]
  have ok0: "links_ok (fd_index db0)" "fd_head db0 = Some h" using links_ok_filter[OF ok] h by (simp_all add: db0_def)
  show "advance_root i db = Inl fork_database_exception \<or> (\<exists>db'. advance_root i db = Inr db')"
    using remove_all_total[OF ok0(2,1), of ids] run by auto
  assume d: "descendant (fd_index db) i (bst_id h)"
  have anc: "\<forall>a \<in> set ids. \<not> descendant (fd_index db) i a"
  proof
    fix a assume "a \<in> set ids"
    then show "\<not> descendant (fd_index db) i a"
      by (rule ancestor_not_descendant[OF db(2) ni(1) bspec[OF ids(2)], unfolded ni(2)])
  qed
  have sub: "set (fd_index db0) \<subseteq> set (fd_index db)" "\<forall>b \<in> set (fd_index db0). bst_id b \<noteq> i" by (simp_all add: db0_def)
  from remove_all_keeps[OF ok ok0(2) d ok0(1) sub anc]
  obtain db' where db': "for_each fork_db_remove ids db0 = Inr db'"
      "\<forall>b \<in> set (fd_index db0). descendant (fd_index db) i (bst_id b) \<longrightarrow> b \<in> set (fd_index db')"
    by (elim exE conjE)
  show "\<exists>db'. advance_root i db = Inr db' \<and>
      (\<forall>b \<in> set (fd_index db). bst_id b \<noteq> i \<and> descendant (fd_index db) i (bst_id b) \<longrightarrow> b \<in> set (fd_index db'))"
  proof (intro exI conjI)
    show "advance_root i db = Inr (db'\<lparr>fd_root := Some n\<rparr>)" using run db'(1) by simp
    show "\<forall>b \<in> set (fd_index db). bst_id b \<noteq> i \<and> descendant (fd_index db) i (bst_id b) \<longrightarrow>
        b \<in> set (fd_index (db'\<lparr>fd_root := Some n\<rparr>))"
      using db'(2) by (simp add: db0_def)
  qed
qed

lemma advance_root_result:
  assumes inv: "fork_db_inv db" and adv: "advance_root i db = Inr db'" and h: "fd_head db = Some h"
  shows "\<exists>n. get_block db i = Some n \<and> bst_validated n \<and> descendant (fd_index db) i (bst_id h) \<and>
    db' = db\<lparr>fd_index := filter (\<lambda>b. bst_id b \<noteq> i \<and> descendant (fd_index db) i (bst_id b)) (fd_index db), fd_root := Some n\<rparr>"
proof -
  obtain r where r: "fd_root db = Some r" "tree_wf r (fd_index db)" "head_ok r (fd_index db) h"
    using inv h by (auto simp: fork_db_inv_def)
  obtain n R where n: "get_block db i = Some n" "bst_validated n"
    and db': "db' = db\<lparr>fd_index := filter (\<lambda>b. bst_id b \<notin> R) (filter (\<lambda>b. bst_id b \<noteq> i) (fd_index db)), fd_root := Some n\<rparr>"
    and R: "bst_id r \<in> R" "bst_id h \<notin> R"
      "\<forall>b \<in> set (filter (\<lambda>b. bst_id b \<noteq> i) (fd_index db)). bst_previous b \<in> R \<longrightarrow> bst_id b \<in> R"
    by (rule advance_root_Inr[OF inv adv r(1) h])
  have ni: "n \<in> set (fd_index db)" "bst_id n = i" using get_block_mem[OF n(1)] by auto
  have kept: "descendant (fd_index db) i (bst_id b)" if "b \<in> set (fd_index db)" "bst_id b \<notin> R" for b
    using kept_descends[OF r(2) ni(1) R(1) _ that] R(3) ni(2) by simp
  have "h \<noteq> r" using R(1,2) by auto
  then have "h \<in> set (fd_index db)" using r(3) by (auto simp: head_ok_def)
  then have hd: "descendant (fd_index db) i (bst_id h)" using kept R(2) by blast
  have "b \<in> set (fd_index db')" if "b \<in> set (fd_index db)" "bst_id b \<noteq> i" "descendant (fd_index db) i (bst_id b)" for b
    using advance_root_total(2)[OF inv n h hd] adv that by auto
  then have "bst_id b \<notin> R" if "b \<in> set (fd_index db)" "bst_id b \<noteq> i" "descendant (fd_index db) i (bst_id b)" for b
    using that by (auto simp: db')
  then have "filter (\<lambda>b. bst_id b \<notin> R) (filter (\<lambda>b. bst_id b \<noteq> i) (fd_index db)) =
      filter (\<lambda>b. bst_id b \<noteq> i \<and> descendant (fd_index db) i (bst_id b)) (fd_index db)"
    using kept by (auto intro!: filter_cong)
  then show ?thesis using n hd db' by simp
qed

section \<open>The pruning operations refine their specifications\<close>

text \<open>
  C30. The removal of a block ends in every reachable fork database: it throws exactly when the
  head would be removed, and otherwise takes out the block and all its descendants and nothing else.
\<close>

theorem fork_db_remove_refines:
  assumes "fork_db_reachable db"
  shows "fork_db_remove i db = remove_spec i db"
proof -
  obtain r h where db: "fd_head db = Some h" "tree_wf r (fd_index db)"
    using fork_db_reachable_inv[OF assms] by (auto simp: fork_db_inv_def)
  show ?thesis using fork_db_remove_links[OF db(1) tree_wf_links[OF db(2)], of i] db(1) by (simp add: remove_spec_def)
qed

text \<open>
  C29. Advancing the root implements its specification: it succeeds exactly for a validated block
  of the index from which the head descends, makes that block the root, and keeps exactly its
  proper descendants; the walk to the old root and the removals end.
\<close>

theorem advance_root_refines:
  assumes "fork_db_reachable db"
  shows "advance_root i db = advance_spec i db"
proof -
  note inv = fork_db_reachable_inv[OF assms]
  obtain r h where db: "fd_root db = Some r" "fd_head db = Some h" using inv by (auto simp: fork_db_inv_def)
  consider "get_block db i = None" | n where "get_block db i = Some n" "\<not> bst_validated n"
    | n where "get_block db i = Some n" "bst_validated n" by (cases "get_block db i") auto
  then show ?thesis
  proof cases
    case (3 n)
    show ?thesis
    proof (cases "descendant (fd_index db) i (bst_id h)")
      case True
      obtain db' where run: "advance_root i db = Inr db'" using advance_root_total(2)[OF inv 3 db(2) True] by blast
      then show ?thesis using advance_root_result[OF inv run db(2)] 3 db(2) by (simp add: advance_spec_def)
    next
      case False
      have "advance_root i db \<noteq> Inr db'" for db'
        using advance_root_result[OF inv _ db(2), of i db'] False by blast
      then show ?thesis using advance_root_total(1)[OF inv 3 db(2)] False 3 db(2) by (simp add: advance_spec_def)
    qed
  qed (use db in \<open>simp_all add: advance_root_def advance_spec_def\<close>)
qed

theorem fork_db_remove_refines_witness:
  "\<exists>b db. example_added = Inr (b, db) \<and> fork_db_remove (bst_id b) db = remove_spec (bst_id b) db"
proof -
  obtain b db where db: "example_added = Inr (b, db)" "fork_db_reachable db"
    using example_added_reachable by (elim exE conjE)
  show ?thesis using fork_db_remove_refines[OF db(2)] db(1) by blast
qed

theorem advance_root_refines_witness:
  "\<exists>b db. example_added = Inr (b, db) \<and> advance_root (bst_id b) db = advance_spec (bst_id b) db"
proof -
  obtain b db where db: "example_added = Inr (b, db)" "fork_db_reachable db"
    using example_added_reachable by (elim exE conjE)
  show ?thesis using advance_root_refines[OF db(2)] db(1) by blast
qed

end
