(* ===== verification/Permissions.thy ===== *)
theory Permissions
  imports Authority_Checker Block_Headers
begin

text \<open>
  The permissions of accounts (\<^verbatim>\<open>permission_object.hpp\<close>, \<^verbatim>\<open>permission_link_object.hpp\<close>) and the part of
  the authorization manager (\<^verbatim>\<open>authorization_manager.cpp\<close>) that stores them: creation,
  modification and removal, lookups, the comparison of two permissions, and snapshots.
\<close>

abbreviation unactivated_key_type :: exn where
  "unactivated_key_type \<equiv> exception_class ''unactivated_key_type''"

abbreviation snapshot_exception :: exn where
  "snapshot_exception \<equiv> exception_class ''snapshot_exception''"

section \<open>Data\<close>

text \<open>
  The database gives every row of a table the next free id. No operation reads the ids of
  permission links, so they are left out.
\<close>

record 'k permission_object =
  po_id :: nat
  po_usage_id :: nat
  po_parent :: nat
  po_owner :: name
  po_name :: name
  po_last_updated :: int
  po_auth :: "'k authority"

record permission_link_object =
  pl_account :: name
  pl_code :: name
  pl_message_type :: name
  pl_required_permission :: name

type_synonym 'k permission_index = "(nat, 'k permission_object) table"

record 'k authorization_db =
  adb_permissions :: "'k permission_index"
  adb_next_permission :: nat
  adb_usages :: "(nat, int) table"
  adb_next_usage :: nat
  adb_links :: "(name \<times> name \<times> name, permission_link_object) table"

text \<open>What the manager asks of the controller and of the state of the protocol.\<close>

record 'k authorization_control =
  ac_pending_block_time :: "int res"
  ac_num_supported_key_types :: u32
  ac_key_which :: "'k \<Rightarrow> nat"
  ac_max_transaction_delay :: u32
  ac_max_authority_depth :: u16
  ac_is_builtin_activated :: "builtin_protocol_feature_t \<Rightarrow> bool"

section \<open>Comparison of permissions\<close>

text \<open>
  The walk up the parents. A chain without repetition has at most as many permissions as the index.
\<close>

fun satisfies_loop :: "nat \<Rightarrow> 'k permission_index \<Rightarrow> nat \<Rightarrow> 'k permission_object \<Rightarrow> bool res" where
  "satisfies_loop 0 idx i parent = Inl no_return"
| "satisfies_loop (Suc fuel) idx i parent =
     (if i = po_parent parent then Inr True
      else if po_parent parent = 0 then Inr False
      else case tbl_find idx (po_parent parent) of
             None \<Rightarrow> Inl undefined_behavior
           | Some parent \<Rightarrow> satisfies_loop fuel idx i parent)"

definition permission_satisfies :: "'k permission_index \<Rightarrow> 'k permission_object \<Rightarrow> 'k permission_object \<Rightarrow> bool res" where
  "permission_satisfies idx p other =
     (if po_owner p \<noteq> po_owner other then Inr False
      else if po_id p = po_id other \<or> po_id p = po_parent other then Inr True
      else case tbl_find idx (po_parent other) of
             None \<Rightarrow> Inl undefined_behavior
           | Some parent \<Rightarrow> satisfies_loop (Suc (length idx)) idx (po_id p) parent)"

section \<open>The manager\<close>

definition authorization_initialize_database :: "'k authorization_db" where
  "authorization_initialize_database =
     \<lparr>adb_permissions = [(0, \<lparr>po_id = 0, po_usage_id = 0, po_parent = 0, po_owner = 0, po_name = 0,
                             po_last_updated = 0, po_auth = authority_default\<rparr>)],
      adb_next_permission = 1, adb_usages = [], adb_next_usage = 0, adb_links = []\<rparr>"

text \<open>A row of the permission index; the index by owner and name rejects a second row with the same ones.\<close>

definition find_by_owner :: "'k permission_index \<Rightarrow> name \<Rightarrow> name \<Rightarrow> 'k permission_object option" where
  "find_by_owner idx account nm =
     map_option snd (find (\<lambda>(i, p). po_owner p = account \<and> po_name p = nm) idx)"

definition insert_permission :: "'k permission_object \<Rightarrow> 'k authorization_db \<Rightarrow> 'k authorization_db res" where
  "insert_permission p db =
     eos_assert (find_by_owner (adb_permissions db) (po_owner p) (po_name p) = None) uniqueness_violated
     (Inr (db\<lparr>adb_permissions := tbl_insert (po_id p) p (adb_permissions db),
              adb_next_permission := Suc (po_id p)\<rparr>))"

definition create_usage :: "int \<Rightarrow> 'k authorization_db \<Rightarrow> nat \<times> 'k authorization_db" where
  "create_usage last_used db =
     (adb_next_usage db, db\<lparr>adb_usages := tbl_insert (adb_next_usage db) last_used (adb_usages db),
                            adb_next_usage := Suc (adb_next_usage db)\<rparr>)"

definition keys_supported :: "'k authorization_control \<Rightarrow> 'k authority \<Rightarrow> bool" where
  "keys_supported ctl auth \<longleftrightarrow>
     list_all (\<lambda>k. ac_key_which ctl (kw_key k) < unat (ac_num_supported_key_types ctl)) (auth_keys auth)"

definition create_permission ::
  "'k authorization_control \<Rightarrow> name \<Rightarrow> name \<Rightarrow> nat \<Rightarrow> 'k authority \<Rightarrow> int \<Rightarrow> 'k authorization_db \<Rightarrow>
   ('k permission_object \<times> 'k authorization_db) res" where
  "create_permission ctl account nm parent auth initial_creation_time db =
     eos_assert (keys_supported ctl auth) unactivated_key_type
     (res_bind (if initial_creation_time = 0 then ac_pending_block_time ctl else Inr initial_creation_time) (\<lambda>creation_time.
      let (usage_id, db) = create_usage creation_time db;
          perm = \<lparr>po_id = adb_next_permission db, po_usage_id = usage_id, po_parent = parent, po_owner = account,
                  po_name = nm, po_last_updated = creation_time, po_auth = auth\<rparr>
      in res_bind (insert_permission perm db) (\<lambda>db. Inr (perm, db))))"

definition modify_permission ::
  "'k authorization_control \<Rightarrow> 'k permission_object \<Rightarrow> 'k authority \<Rightarrow> 'k authorization_db \<Rightarrow> 'k authorization_db res" where
  "modify_permission ctl permission auth db =
     eos_assert (keys_supported ctl auth) unactivated_key_type
     (res_bind (ac_pending_block_time ctl) (\<lambda>now.
      case tbl_find (adb_permissions db) (po_id permission) of
        None \<Rightarrow> Inl undefined_behavior
      | Some po \<Rightarrow> Inr (db\<lparr>adb_permissions :=
          tbl_insert (po_id permission) (po\<lparr>po_auth := auth, po_last_updated := now\<rparr>) (adb_permissions db)\<rparr>)))"

definition remove_permission :: "'k permission_object \<Rightarrow> 'k authorization_db \<Rightarrow> 'k authorization_db res" where
  "remove_permission permission db =
     eos_assert (\<not> list_ex (\<lambda>(i, p). po_parent p = po_id permission) (adb_permissions db)) action_validate_exception
     (eos_assert (tbl_find (adb_usages db) (po_usage_id permission) \<noteq> None) row_not_found
      (Inr (db\<lparr>adb_usages := tbl_remove (po_usage_id permission) (adb_usages db),
               adb_permissions := tbl_remove (po_id permission) (adb_permissions db)\<rparr>)))"

definition update_permission_usage ::
  "'k authorization_control \<Rightarrow> 'k permission_object \<Rightarrow> 'k authorization_db \<Rightarrow> 'k authorization_db res" where
  "update_permission_usage ctl permission db =
     res_bind (tbl_get (adb_usages db) (po_usage_id permission)) (\<lambda>_.
     res_bind (ac_pending_block_time ctl) (\<lambda>now.
     Inr (db\<lparr>adb_usages := tbl_insert (po_usage_id permission) now (adb_usages db)\<rparr>)))"

definition get_permission_last_used :: "'k permission_object \<Rightarrow> 'k authorization_db \<Rightarrow> int res" where
  "get_permission_last_used permission db = tbl_get (adb_usages db) (po_usage_id permission)"

definition find_permission :: "'k authorization_db \<Rightarrow> permission_level \<Rightarrow> 'k permission_object option res" where
  "find_permission db lvl =
     rethrow_exceptions permission_query_exception
       (eos_assert (\<not> name_empty (fst lvl) \<and> \<not> name_empty (snd lvl)) invalid_permission
        (Inr (find_by_owner (adb_permissions db) (fst lvl) (snd lvl))))"

definition get_permission :: "'k authorization_db \<Rightarrow> permission_level \<Rightarrow> 'k permission_object res" where
  "get_permission db lvl =
     rethrow_exceptions permission_query_exception
       (eos_assert (\<not> name_empty (fst lvl) \<and> \<not> name_empty (snd lvl)) invalid_permission
        (case find_by_owner (adb_permissions db) (fst lvl) (snd lvl) of
           None \<Rightarrow> Inl row_not_found
         | Some p \<Rightarrow> Inr p))"

section \<open>Snapshots\<close>

record 'k snapshot_permission_object =
  spo_parent :: name
  spo_owner :: name
  spo_name :: name
  spo_last_updated :: int
  spo_last_used :: int
  spo_auth :: "'k authority"

text \<open>
  The row of a permission names its parent instead of using its id, and holds the time of the last use.
\<close>

definition to_snapshot_row :: "'k authorization_db \<Rightarrow> 'k permission_object \<Rightarrow> 'k snapshot_permission_object res" where
  "to_snapshot_row db value =
     res_bind (tbl_get (adb_permissions db) (po_parent value)) (\<lambda>parent.
     res_bind (tbl_get (adb_usages db) (po_usage_id value)) (\<lambda>last_used.
     Inr \<lparr>spo_parent = po_name parent, spo_owner = po_owner value, spo_name = po_name value,
          spo_last_updated = po_last_updated value, spo_last_used = last_used, spo_auth = po_auth value\<rparr>))"

definition from_snapshot_row ::
  "'k snapshot_permission_object \<Rightarrow> 'k authorization_db \<Rightarrow> 'k authorization_db res" where
  "from_snapshot_row row db =
     (let i = adb_next_permission db in
      res_bind
        (if i = 0 then
           eos_assert (spo_parent row = 0 \<and> spo_name row = 0 \<and> spo_owner row = 0 \<and> auth_accounts (spo_auth row) = [] \<and>
                       auth_keys (spo_auth row) = [] \<and> auth_waits (spo_auth row) = [] \<and>
                       auth_threshold (spo_auth row) = 0 \<and> spo_last_updated row = 0) snapshot_exception (Inr 0)
         else if spo_parent row \<noteq> 0 then
           (case find_by_owner (adb_permissions db) (spo_owner row) (spo_parent row) of
              None \<Rightarrow> Inl row_not_found
            | Some parent \<Rightarrow> eos_assert (po_id parent \<noteq> 0) snapshot_exception (Inr (po_id parent)))
         else Inr 0) (\<lambda>parent.
      let (usage_id, db) = (if i \<noteq> 0 then create_usage (spo_last_used row) db else (0, db)) in
      insert_permission
        \<lparr>po_id = i, po_usage_id = usage_id, po_parent = parent, po_owner = spo_owner row, po_name = spo_name row,
         po_last_updated = spo_last_updated row, po_auth = spo_auth row\<rparr> db))"

section \<open>The tree of permissions\<close>

text \<open>
  Ids are unique and smaller than the next one, so are the names of one owner. Row 0 is reserved. The
  parent of every other row is an older row, of the same owner unless it is the reserved one, and every
  other row has a usage row of its own.
\<close>

definition row_ok :: "'k permission_index \<Rightarrow> (nat, int) table \<Rightarrow> nat \<Rightarrow> 'k permission_object \<Rightarrow> bool" where
  "row_ok idx usages i p \<longleftrightarrow> po_parent p < i \<and>
     (\<exists>q. tbl_find idx (po_parent p) = Some q \<and> (po_parent p \<noteq> 0 \<longrightarrow> po_owner q = po_owner p)) \<and>
     tbl_find usages (po_usage_id p) \<noteq> None"

definition permissions_wf :: "'k authorization_db \<Rightarrow> bool" where
  "permissions_wf db \<longleftrightarrow> tbl_wf (adb_permissions db) \<and> tbl_wf (adb_usages db) \<and>
     (\<forall>i p. tbl_find (adb_permissions db) i = Some p \<longrightarrow> po_id p = i \<and> i < adb_next_permission db) \<and>
     (\<exists>z. tbl_find (adb_permissions db) 0 = Some z \<and> po_parent z = 0 \<and> po_owner z = 0 \<and> po_name z = 0) \<and>
     (\<forall>i j p q. tbl_find (adb_permissions db) i = Some p \<and> tbl_find (adb_permissions db) j = Some q \<and>
        po_owner p = po_owner q \<and> po_name p = po_name q \<longrightarrow> i = j) \<and>
     (\<forall>i p. tbl_find (adb_permissions db) i = Some p \<and> i \<noteq> 0 \<longrightarrow> row_ok (adb_permissions db) (adb_usages db) i p) \<and>
     (\<forall>u t. tbl_find (adb_usages db) u = Some t \<longrightarrow> u < adb_next_usage db) \<and>
     (\<forall>i j p q. tbl_find (adb_permissions db) i = Some p \<and> tbl_find (adb_permissions db) j = Some q \<and>
        i \<noteq> 0 \<and> j \<noteq> 0 \<and> po_usage_id p = po_usage_id q \<longrightarrow> i = j)"

lemma permissions_wfD:
  assumes "permissions_wf db"
  shows "tbl_wf (adb_permissions db)" and "tbl_wf (adb_usages db)"
    and "tbl_find (adb_permissions db) i = Some p \<Longrightarrow> po_id p = i \<and> i < adb_next_permission db"
    and "\<exists>z. tbl_find (adb_permissions db) 0 = Some z \<and> po_parent z = 0 \<and> po_owner z = 0 \<and> po_name z = 0"
    and "tbl_find (adb_permissions db) i = Some p \<Longrightarrow> tbl_find (adb_permissions db) j = Some q \<Longrightarrow>
      po_owner p = po_owner q \<Longrightarrow> po_name p = po_name q \<Longrightarrow> i = j"
    and "tbl_find (adb_permissions db) i = Some p \<Longrightarrow> i \<noteq> 0 \<Longrightarrow> row_ok (adb_permissions db) (adb_usages db) i p"
    and "tbl_find (adb_usages db) u = Some t \<Longrightarrow> u < adb_next_usage db"
    and "tbl_find (adb_permissions db) i = Some p \<Longrightarrow> tbl_find (adb_permissions db) j = Some q \<Longrightarrow>
      i \<noteq> 0 \<Longrightarrow> j \<noteq> 0 \<Longrightarrow> po_usage_id p = po_usage_id q \<Longrightarrow> i = j"
  using assms unfolding permissions_wf_def by blast+

lemma find_by_owner_Some:
  assumes "tbl_wf idx" "find_by_owner idx account nm = Some p"
  shows "\<exists>i. tbl_find idx i = Some p \<and> po_owner p = account \<and> po_name p = nm"
proof -
  obtain i where "(i, p) \<in> set idx" "po_owner p = account" "po_name p = nm"
    using assms(2) by (auto simp: find_by_owner_def find_Some_iff) (metis nth_mem)
  then show ?thesis using tbl_find_mem[OF assms(1)] by blast
qed

lemma find_by_owner_None:
  assumes "find_by_owner idx account nm = None" "tbl_find idx i = Some p"
  shows "po_owner p \<noteq> account \<or> po_name p \<noteq> nm"
  using assms tbl_find_Some_mem[OF assms(2)] by (auto simp: find_by_owner_def find_None_iff)

lemma find_by_owner_eq:
  assumes "permissions_wf db" "tbl_find (adb_permissions db) i = Some p"
  shows "find_by_owner (adb_permissions db) (po_owner p) (po_name p) = Some p"
proof (cases "find_by_owner (adb_permissions db) (po_owner p) (po_name p)")
  case None
  then show ?thesis using find_by_owner_None assms(2) by blast
next
  case (Some q)
  then obtain j where "tbl_find (adb_permissions db) j = Some q" "po_owner q = po_owner p" "po_name q = po_name p"
    using find_by_owner_Some[OF permissions_wfD(1)[OF assms(1)]] by blast
  then show ?thesis using permissions_wfD(5)[OF assms(1) assms(2)] Some assms(2) by fastforce
qed

lemma get_permission_Inr:
  "get_permission db lvl = Inr p \<longleftrightarrow>
     fst lvl \<noteq> 0 \<and> snd lvl \<noteq> 0 \<and> find_by_owner (adb_permissions db) (fst lvl) (snd lvl) = Some p"
  by (auto simp: get_permission_def rethrow_exceptions_def name_empty_def eos_assert_def split: option.splits sum.splits)

lemma get_permission_row:
  assumes "permissions_wf db" "get_permission db lvl = Inr p"
  shows "tbl_find (adb_permissions db) (po_id p) = Some p \<and> po_id p \<noteq> 0 \<and> (po_owner p, po_name p) = lvl"
proof -
  obtain i where i: "tbl_find (adb_permissions db) i = Some p" "po_owner p = fst lvl" "po_name p = snd lvl"
    using find_by_owner_Some[OF permissions_wfD(1)[OF assms(1)]] assms(2) unfolding get_permission_Inr by blast
  have "po_id p = i" using permissions_wfD(3)[OF assms(1) i(1)] by blast
  moreover have "i \<noteq> 0"
  proof
    assume "i = 0"
    then have "po_owner p = 0" using permissions_wfD(4)[OF assms(1)] i(1) by auto
    then show False using i(2) assms(2) by (simp add: get_permission_Inr)
  qed
  ultimately show ?thesis using i by (cases lvl) auto
qed

section \<open>Every operation keeps the tree\<close>

definition parent_valid :: "'k authorization_db \<Rightarrow> name \<Rightarrow> nat \<Rightarrow> bool" where
  "parent_valid db account parent \<longleftrightarrow>
     parent = 0 \<or> (\<exists>q. tbl_find (adb_permissions db) parent = Some q \<and> po_owner q = account)"

lemma permissions_wf_initial: "permissions_wf authorization_initialize_database"
  by (auto simp: permissions_wf_def authorization_initialize_database_def split: if_splits)

lemma create_permission_Inr:
  assumes "create_permission ctl account nm parent auth t0 db = Inr (p, db')"
  shows "find_by_owner (adb_permissions db) account nm = None" and "po_parent p = parent" "po_owner p = account" "po_name p = nm"
    "po_auth p = auth" "po_id p = adb_next_permission db" "po_usage_id p = adb_next_usage db" "keys_supported ctl auth"
    "db' = db\<lparr>adb_permissions := tbl_insert (adb_next_permission db) p (adb_permissions db),
             adb_next_permission := Suc (adb_next_permission db),
             adb_usages := tbl_insert (adb_next_usage db) (po_last_updated p) (adb_usages db),
             adb_next_usage := Suc (adb_next_usage db)\<rparr>"
  using assms by (auto simp: create_permission_def create_usage_def insert_permission_def Let_def)

lemma create_permission_wf:
  assumes wf: "permissions_wf db" and ok: "parent_valid db account parent"
    and run: "create_permission ctl account nm parent auth t0 db = Inr (p, db')"
  shows "permissions_wf db'"
proof -
  note p = create_permission_Inr[OF run]
  note D = permissions_wfD[OF wf]
  have new: "tbl_find (adb_permissions db) (adb_next_permission db) = None"
    using D(3)[of "adb_next_permission db"] by (cases "tbl_find (adb_permissions db) (adb_next_permission db)") auto
  obtain z where z: "tbl_find (adb_permissions db) 0 = Some z" "po_parent z = 0" "po_owner z = 0" "po_name z = 0" using D(4) by blast
  have pos: "0 < adb_next_permission db" using D(3)[OF z(1)] by simp
  have unew: "tbl_find (adb_usages db) (adb_next_usage db) = None"
    using D(7)[of "adb_next_usage db"] by (cases "tbl_find (adb_usages db) (adb_next_usage db)") auto
  have used: "po_usage_id q \<noteq> adb_next_usage db" if "tbl_find (adb_permissions db) i = Some q" "i \<noteq> 0" for i q
    using D(6)[OF that] unew by (auto simp: row_ok_def)
  have parent: "parent < adb_next_permission db" "\<exists>q. tbl_find (adb_permissions db) parent = Some q \<and> (parent \<noteq> 0 \<longrightarrow> po_owner q = account)"
    using ok z(1) pos D(3) by (auto simp: parent_valid_def)
  have keep: "row_ok (adb_permissions db') (adb_usages db') i q"
    if "row_ok (adb_permissions db) (adb_usages db) i q" "i < adb_next_permission db" for i q
    using that D(1,2) by (auto simp: row_ok_def p(9))
  have name: "\<not> (po_owner q = account \<and> po_name q = nm)" if "tbl_find (adb_permissions db) i = Some q" for i q
    using find_by_owner_None[OF p(1) that] by blast
  have old: "i = adb_next_permission db \<and> q = p \<or> i \<noteq> adb_next_permission db \<and> tbl_find (adb_permissions db) i = Some q"
    if "tbl_find (adb_permissions db') i = Some q" for i q
    using that D(1) by (auto simp: p(9) split: if_splits)
  show ?thesis unfolding permissions_wf_def
  proof (intro conjI allI impI)
    show "tbl_wf (adb_permissions db')" "tbl_wf (adb_usages db')" using D(1,2) by (simp_all add: p(9))
    show "po_id q = i" "i < adb_next_permission db'" if "tbl_find (adb_permissions db') i = Some q" for i q
      using that D(1,3) p(6) less_Suc_eq by (auto simp: p(9) split: if_splits)
    show "\<exists>z. tbl_find (adb_permissions db') 0 = Some z \<and> po_parent z = 0 \<and> po_owner z = 0 \<and> po_name z = 0"
      using z pos D(1) by (simp add: p(9))
    show "i = j" if "tbl_find (adb_permissions db') i = Some q \<and> tbl_find (adb_permissions db') j = Some q' \<and>
        po_owner q = po_owner q' \<and> po_name q = po_name q'" for i j q q'
      using old[of i q] old[of j q'] that D(5)[of i q j q'] name[of i q] name[of j q'] p(3,4) by auto
    show "row_ok (adb_permissions db') (adb_usages db') i q" if "tbl_find (adb_permissions db') i = Some q \<and> i \<noteq> 0" for i q
    proof (cases "i = adb_next_permission db")
      case True
      then have "q = p" using that D(1) by (simp add: p(9))
      then show ?thesis using True parent p(2,3,7) D(1,2) by (auto simp: row_ok_def p(9))
    next
      case False
      then show ?thesis using that D(1,3,6) keep by (auto simp: p(9))
    qed
    show "u < adb_next_usage db'" if "tbl_find (adb_usages db') u = Some t" for u t
      using that D(2,7) less_Suc_eq by (auto simp: p(9) split: if_splits)
    show "i = j" if "tbl_find (adb_permissions db') i = Some q \<and> tbl_find (adb_permissions db') j = Some q' \<and>
        i \<noteq> 0 \<and> j \<noteq> 0 \<and> po_usage_id q = po_usage_id q'" for i j q q'
      using old[of i q] old[of j q'] that D(8)[of i q j q'] used[of i q] used[of j q'] p(7) by auto
  qed
qed

lemma modify_permission_Inr:
  assumes "modify_permission ctl permission auth db = Inr db'"
  obtains po now where "keys_supported ctl auth" "tbl_find (adb_permissions db) (po_id permission) = Some po"
    "ac_pending_block_time ctl = Inr now"
    "db' = db\<lparr>adb_permissions := tbl_insert (po_id permission) (po\<lparr>po_auth := auth, po_last_updated := now\<rparr>) (adb_permissions db)\<rparr>"
  using assms by (auto simp: modify_permission_def split: option.splits)

lemma modify_permission_wf:
  assumes wf: "permissions_wf db" and run: "modify_permission ctl permission auth db = Inr db'"
  shows "permissions_wf db'"
proof -
  note D = permissions_wfD[OF wf]
  obtain po now where po: "tbl_find (adb_permissions db) (po_id permission) = Some po"
    and db': "db' = db\<lparr>adb_permissions := tbl_insert (po_id permission) (po\<lparr>po_auth := auth, po_last_updated := now\<rparr>) (adb_permissions db)\<rparr>"
    by (rule modify_permission_Inr[OF run])
  define f where "f i q = (if i = po_id permission then q\<lparr>po_auth := auth, po_last_updated := now\<rparr> else q)" for i and q :: "'a permission_object"
  have find: "tbl_find (adb_permissions db') i = map_option (f i) (tbl_find (adb_permissions db) i)" for i
    using po D(1) by (cases "tbl_find (adb_permissions db) i") (auto simp: db' f_def)
  have us: "adb_usages db' = adb_usages db" "adb_next_permission db' = adb_next_permission db" by (simp_all add: db')
  have same: "po_id (f i q) = po_id q" "po_usage_id (f i q) = po_usage_id q" "po_parent (f i q) = po_parent q"
    "po_owner (f i q) = po_owner q" "po_name (f i q) = po_name q" for i q
    by (simp_all add: f_def)
  have row: "row_ok (adb_permissions db') (adb_usages db') i (f i q)" if "row_ok (adb_permissions db) (adb_usages db) i q" for i q
    using that by (auto simp: row_ok_def find same us)
  show ?thesis unfolding permissions_wf_def
  proof (intro conjI allI impI)
    show "tbl_wf (adb_permissions db')" "tbl_wf (adb_usages db')" using D(1,2) by (simp_all add: db')
    show "po_id q = i" "i < adb_next_permission db'" if "tbl_find (adb_permissions db') i = Some q" for i q
      using that D(3) by (auto simp: find same us)
    show "\<exists>z. tbl_find (adb_permissions db') 0 = Some z \<and> po_parent z = 0 \<and> po_owner z = 0 \<and> po_name z = 0"
      using D(4) by (auto simp: find same)
    show "i = j" if "tbl_find (adb_permissions db') i = Some q \<and> tbl_find (adb_permissions db') j = Some q' \<and>
        po_owner q = po_owner q' \<and> po_name q = po_name q'" for i j q q'
      using that D(5) by (auto simp: find same)
    show "row_ok (adb_permissions db') (adb_usages db') i q" if "tbl_find (adb_permissions db') i = Some q \<and> i \<noteq> 0" for i q
      using that D(6) row by (auto simp: find)
    show "u < adb_next_usage db'" if "tbl_find (adb_usages db') u = Some t" for u t
      using that D(7) by (simp add: db')
    show "i = j" if "tbl_find (adb_permissions db') i = Some q \<and> tbl_find (adb_permissions db') j = Some q' \<and>
        i \<noteq> 0 \<and> j \<noteq> 0 \<and> po_usage_id q = po_usage_id q'" for i j q q'
      using that D(8) by (auto simp: find same)
  qed
qed

lemma remove_permission_wf:
  assumes wf: "permissions_wf db" and p: "tbl_find (adb_permissions db) (po_id p) = Some p" "po_id p \<noteq> 0"
    and run: "remove_permission p db = Inr db'"
  shows "permissions_wf db'"
proof -
  note D = permissions_wfD[OF wf]
  have db': "db' = db\<lparr>adb_usages := tbl_remove (po_usage_id p) (adb_usages db), adb_permissions := tbl_remove (po_id p) (adb_permissions db)\<rparr>"
    and kids: "\<not> list_ex (\<lambda>(i, q). po_parent q = po_id p) (adb_permissions db)"
    using run by (auto simp: remove_permission_def)
  have parent: "po_parent q \<noteq> po_id p" if "tbl_find (adb_permissions db) i = Some q" for i q
    using kids tbl_find_Some_mem[OF that] by (auto simp: list_ex_iff)
  have usage: "po_usage_id q \<noteq> po_usage_id p" if "tbl_find (adb_permissions db) i = Some q" "i \<noteq> 0" "i \<noteq> po_id p" for i q
    using D(8)[OF that(1) p(1) that(2) p(2)] that(3) by blast
  have row: "row_ok (adb_permissions db') (adb_usages db') i q"
    if "tbl_find (adb_permissions db) i = Some q" "i \<noteq> 0" "i \<noteq> po_id p" for i q
    using D(6)[OF that(1,2)] parent[OF that(1)] usage[OF that] by (auto simp: row_ok_def db')
  show ?thesis unfolding permissions_wf_def
  proof (intro conjI allI impI)
    show "tbl_wf (adb_permissions db')" "tbl_wf (adb_usages db')" using D(1,2) by (simp_all add: db')
    show "po_id q = i" "i < adb_next_permission db'" if "tbl_find (adb_permissions db') i = Some q" for i q
      using that D(3) by (auto simp: db' split: if_splits)
    show "\<exists>z. tbl_find (adb_permissions db') 0 = Some z \<and> po_parent z = 0 \<and> po_owner z = 0 \<and> po_name z = 0"
      using D(4) p(2) by (auto simp: db')
    show "i = j" if "tbl_find (adb_permissions db') i = Some q \<and> tbl_find (adb_permissions db') j = Some q' \<and>
        po_owner q = po_owner q' \<and> po_name q = po_name q'" for i j q q'
      using that D(5) by (auto simp: db' split: if_splits)
    show "row_ok (adb_permissions db') (adb_usages db') i q" if "tbl_find (adb_permissions db') i = Some q \<and> i \<noteq> 0" for i q
      using that row by (auto simp: db' split: if_splits)
    show "u < adb_next_usage db'" if "tbl_find (adb_usages db') u = Some t" for u t
      using that D(7) by (auto simp: db' split: if_splits)
    show "i = j" if "tbl_find (adb_permissions db') i = Some q \<and> tbl_find (adb_permissions db') j = Some q' \<and>
        i \<noteq> 0 \<and> j \<noteq> 0 \<and> po_usage_id q = po_usage_id q'" for i j q q'
      using that D(8) by (auto simp: db' split: if_splits)
  qed
qed

lemma permissions_wf_usages:
  assumes wf: "permissions_wf db" and u: "tbl_find (adb_usages db) u \<noteq> None"
  shows "permissions_wf (db\<lparr>adb_usages := tbl_insert u t (adb_usages db)\<rparr>)"
proof -
  define us where "us = tbl_insert u t (adb_usages db)"
  note D = permissions_wfD[OF wf]
  have find: "tbl_find us v = (if v = u then Some t else tbl_find (adb_usages db) v)" for v using D(2) by (simp add: us_def)
  have us: "tbl_wf us" using D(2) by (simp add: us_def)
  have row: "row_ok (adb_permissions db) us i p" if "row_ok (adb_permissions db) (adb_usages db) i p" for i p
    using that by (auto simp: row_ok_def find)
  have bound: "v < adb_next_usage db" if "tbl_find us v = Some t'" for v t'
    using that u D(7) by (auto simp: find split: if_splits)
  let ?db = "db\<lparr>adb_usages := us\<rparr>"
  have f: "adb_permissions ?db = adb_permissions db" "adb_usages ?db = us" "adb_next_permission ?db = adb_next_permission db"
    "adb_next_usage ?db = adb_next_usage db" by simp_all
  have "permissions_wf ?db" unfolding permissions_wf_def f using D(1,3-5,8) us row[OF D(6)] bound by blast
  then show ?thesis by (simp add: us_def)
qed

lemma update_permission_usage_wf:
  assumes wf: "permissions_wf db" and run: "update_permission_usage ctl p db = Inr db'"
  shows "permissions_wf db'"
  using run permissions_wf_usages[OF wf, of "po_usage_id p"] by (auto simp: update_permission_usage_def tbl_get_Inr)

end
