(* ===== verification/Permission_Tree.thy ===== *)
theory Permission_Tree
  imports Permissions
begin

text \<open>
  The permissions of every reachable database form trees, one step of which is the parent of
  \<^verbatim>\<open>permission_object\<close>, and the loop of \<^verbatim>\<open>permission_object::satisfies\<close> decides the order of these trees.
\<close>

section \<open>Reachable databases\<close>

text \<open>
  The callers pass as parent the reserved id or a permission that they have looked up for the same account.
\<close>

inductive permissions_reachable :: "'k authorization_db \<Rightarrow> bool" where
  permissions_initial: "permissions_reachable authorization_initialize_database"
| permissions_created: "permissions_reachable db \<Longrightarrow> parent_valid db account parent \<Longrightarrow>
    create_permission ctl account nm parent auth t0 db = Inr (p, db') \<Longrightarrow> permissions_reachable db'"
| permissions_modified: "permissions_reachable db \<Longrightarrow> modify_permission ctl p auth db = Inr db' \<Longrightarrow> permissions_reachable db'"
| permissions_removed: "permissions_reachable db \<Longrightarrow> get_permission db lvl = Inr p \<Longrightarrow>
    remove_permission p db = Inr db' \<Longrightarrow> permissions_reachable db'"
| permissions_used: "permissions_reachable db \<Longrightarrow> update_permission_usage ctl p db = Inr db' \<Longrightarrow> permissions_reachable db'"
| permissions_linked: "permissions_reachable db \<Longrightarrow> permissions_reachable (db\<lparr>adb_links := links\<rparr>)"

lemma permissions_wf_links:
  assumes "permissions_wf db"
  shows "permissions_wf (db\<lparr>adb_links := links\<rparr>)"
proof -
  let ?db = "db\<lparr>adb_links := links\<rparr>"
  have f: "adb_permissions ?db = adb_permissions db" "adb_usages ?db = adb_usages db"
    "adb_next_permission ?db = adb_next_permission db" "adb_next_usage ?db = adb_next_usage db" by simp_all
  show ?thesis unfolding permissions_wf_def f using assms unfolding permissions_wf_def .
qed

lemma permissions_reachable_wf: "permissions_reachable db \<Longrightarrow> permissions_wf db"
proof (induction rule: permissions_reachable.induct)
  case (permissions_removed db lvl p db')
  then show ?case using remove_permission_wf get_permission_row by blast
qed (auto intro: permissions_wf_initial create_permission_wf modify_permission_wf update_permission_usage_wf permissions_wf_links)

section \<open>Ancestors\<close>

inductive perm_ancestor :: "'k permission_index \<Rightarrow> nat \<Rightarrow> nat \<Rightarrow> bool" for idx i where
  ancestor_self: "perm_ancestor idx i i"
| ancestor_up: "tbl_find idx j = Some q \<Longrightarrow> perm_ancestor idx i (po_parent q) \<Longrightarrow> perm_ancestor idx i j"

lemma ancestor_step:
  assumes "perm_ancestor idx i j" "i \<noteq> j" "tbl_find idx j = Some q"
  shows "perm_ancestor idx i (po_parent q)"
  using assms by (cases rule: perm_ancestor.cases) auto

lemma ancestor_zero:
  assumes "permissions_wf db"
  shows "perm_ancestor (adb_permissions db) i j \<Longrightarrow> j = 0 \<Longrightarrow> i = 0"
proof (induction rule: perm_ancestor.induct)
  case (ancestor_up j q)
  then show ?case using permissions_wfD(4)[OF assms] by auto
qed

definition rank :: "'k permission_index \<Rightarrow> nat \<Rightarrow> nat" where
  "rank idx i = card {k \<in> fst ` set idx. k < i}"

lemma rank_less:
  assumes "tbl_find idx j = Some q" "j < i"
  shows "rank idx j < rank idx i"
  unfolding rank_def
proof (rule psubset_card_mono)
  have "j \<in> fst ` set idx" using tbl_find_Some_mem[OF assms(1)] by force
  then show "{k \<in> fst ` set idx. k < j} \<subset> {k \<in> fst ` set idx. k < i}" using assms(2) by auto
qed simp

lemma rank_le_length: "rank idx i \<le> length idx"
proof -
  have "rank idx i \<le> card (fst ` set idx)" unfolding rank_def by (rule card_mono) auto
  also have "\<dots> \<le> length idx" by (metis card_length length_map list.set_map)
  finally show ?thesis .
qed

lemma satisfies_loop_correct:
  assumes wf: "permissions_wf db" and i: "i \<noteq> 0"
  shows "tbl_find (adb_permissions db) (po_id p) = Some p \<Longrightarrow> rank (adb_permissions db) (po_id p) < fuel \<Longrightarrow>
    satisfies_loop fuel (adb_permissions db) i p = Inr (perm_ancestor (adb_permissions db) i (po_parent p))"
proof (induction fuel arbitrary: p)
  case (Suc fuel)
  let ?idx = "adb_permissions db"
  show ?case
  proof (cases "i = po_parent p \<or> po_parent p = 0")
    case True
    then show ?thesis using ancestor_zero[OF wf, of i 0] i by (auto intro: ancestor_self)
  next
    case False
    then have "po_id p \<noteq> 0" using permissions_wfD(4)[OF wf] Suc.prems(1) by (metis option.inject)
    then have "row_ok ?idx (adb_usages db) (po_id p) p" by (rule permissions_wfD(6)[OF wf Suc.prems(1)])
    then obtain q where q: "tbl_find ?idx (po_parent p) = Some q" "po_parent p < po_id p" by (auto simp: row_ok_def)
    have qid: "po_id q = po_parent p" using permissions_wfD(3)[OF wf q(1)] by blast
    have "rank ?idx (po_id q) < fuel" using rank_less[OF q] Suc.prems(2) qid by simp
    then have "satisfies_loop fuel ?idx i q = Inr (perm_ancestor ?idx i (po_parent q))" using Suc.IH[of q] q(1) qid by simp
    moreover have "perm_ancestor ?idx i (po_parent q) \<longleftrightarrow> perm_ancestor ?idx i (po_parent p)"
      using ancestor_up[OF q(1)] ancestor_step[OF _ _ q(1)] False by blast
    ultimately show ?thesis using False q(1) by simp
  qed
qed simp

lemma permission_satisfies_wf:
  assumes wf: "permissions_wf db" and p: "tbl_find (adb_permissions db) (po_id p) = Some p" "po_id p \<noteq> 0"
    and q: "tbl_find (adb_permissions db) (po_id q) = Some q" "po_id q \<noteq> 0"
  shows "permission_satisfies (adb_permissions db) p q =
    Inr (po_owner p = po_owner q \<and> perm_ancestor (adb_permissions db) (po_id p) (po_id q))"
proof (cases "po_owner p \<noteq> po_owner q \<or> po_id p = po_id q \<or> po_id p = po_parent q")
  case True
  have "perm_ancestor (adb_permissions db) (po_parent q) (po_id q)" by (rule ancestor_up[OF q(1) ancestor_self])
  then show ?thesis using True by (auto simp: permission_satisfies_def intro: ancestor_self)
next
  case False
  let ?idx = "adb_permissions db"
  have "row_ok ?idx (adb_usages db) (po_id q) q" by (rule permissions_wfD(6)[OF wf q])
  then obtain r where r: "tbl_find ?idx (po_parent q) = Some r" by (auto simp: row_ok_def)
  have rid: "po_id r = po_parent q" using permissions_wfD(3)[OF wf r] by blast
  have "satisfies_loop (Suc (length ?idx)) ?idx (po_id p) r = Inr (perm_ancestor ?idx (po_id p) (po_parent r))"
    by (rule satisfies_loop_correct[OF wf p(2)]) (use r rid rank_le_length[of ?idx "po_parent q"] in simp_all)
  moreover have "perm_ancestor ?idx (po_id p) (po_parent r) \<longleftrightarrow> perm_ancestor ?idx (po_id p) (po_id q)"
    using ancestor_up[OF r] ancestor_step[OF _ _ r] ancestor_up[OF q(1)] ancestor_step[OF _ _ q(1)] False by blast
  ultimately show ?thesis using False r by (simp add: permission_satisfies_def)
qed

text \<open>
  C33. In every reachable database the permissions form a forest: a permission has the id it is stored under,
  its parent is an older permission of the same account or the reserved one, no two
  permissions of an account have the same name, and every permission has its own usage row.
\<close>

theorem permission_forest:
  assumes "permissions_reachable db" and "tbl_find (adb_permissions db) i = Some p" and "i \<noteq> 0"
  shows "po_id p = i \<and> po_parent p < i \<and>
    (\<exists>q. tbl_find (adb_permissions db) (po_parent p) = Some q \<and> (po_parent p = 0 \<or> po_owner q = po_owner p)) \<and>
    tbl_find (adb_usages db) (po_usage_id p) \<noteq> None \<and>
    (\<forall>j q. tbl_find (adb_permissions db) j = Some q \<and> j \<noteq> i \<longrightarrow>
       (po_owner q, po_name q) \<noteq> (po_owner p, po_name p) \<and> (j = 0 \<or> po_usage_id q \<noteq> po_usage_id p))"
proof -
  note D = permissions_wfD[OF permissions_reachable_wf[OF assms(1)]]
  show ?thesis using D(3)[OF assms(2)] D(6)[OF assms(2,3)] D(5)[OF assms(2)] D(8)[OF assms(2) _ assms(3)]
    by (auto simp: row_ok_def)
qed

text \<open>
  C34. The comparison of two permissions ends, and answers exactly whether they belong to the same account and
  the first is the second or one of its ancestors.
\<close>

theorem permission_satisfies_exact:
  assumes "permissions_reachable db" and "get_permission db l1 = Inr p" and "get_permission db l2 = Inr q"
  shows "permission_satisfies (adb_permissions db) p q =
    Inr (fst l1 = fst l2 \<and> perm_ancestor (adb_permissions db) (po_id p) (po_id q))"
proof -
  note wf = permissions_reachable_wf[OF assms(1)]
  note p = get_permission_row[OF wf assms(2)] and q = get_permission_row[OF wf assms(3)]
  have "po_owner p = fst l1" "po_owner q = fst l2" using p q by auto
  then show ?thesis using permission_satisfies_wf[OF wf] p q by simp
qed

section \<open>Example\<close>

definition example_control :: "nat authorization_control" where
  "example_control = \<lparr>ac_pending_block_time = Inr 5, ac_num_supported_key_types = 2, ac_key_which = (\<lambda>_. 0),
     ac_max_transaction_delay = 100, ac_max_authority_depth = 6, ac_is_builtin_activated = (\<lambda>_. False)\<rparr>"

definition example_owner :: "nat permission_object" where
  "example_owner = \<lparr>po_id = 1, po_usage_id = 0, po_parent = 0, po_owner = 7, po_name = owner_name, po_last_updated = 5,
     po_auth = authority_of_key 3 0\<rparr>"

definition example_active :: "nat permission_object" where
  "example_active = \<lparr>po_id = 2, po_usage_id = 1, po_parent = 1, po_owner = 7, po_name = active_name, po_last_updated = 5,
     po_auth = authority_of_key 4 0\<rparr>"

definition example_permissions :: "nat authorization_db" where
  "example_permissions = authorization_initialize_database
     \<lparr>adb_permissions := adb_permissions authorization_initialize_database @ [(1, example_owner), (2, example_active)],
      adb_next_permission := 3, adb_usages := [(0, 5), (1, 5)], adb_next_usage := 2\<rparr>"

lemma names_distinct: "owner_name \<noteq> 0" "active_name \<noteq> 0" "owner_name \<noteq> active_name" "active_name \<noteq> owner_name"
  by (simp_all add: config_name_values)

lemma example_permissions_reachable: "permissions_reachable example_permissions"
proof -
  let ?db1 = "example_permissions\<lparr>adb_permissions := butlast (adb_permissions example_permissions),
    adb_next_permission := 2, adb_usages := [(0, 5)], adb_next_usage := 1\<rparr>"
  note defs = create_permission_def create_usage_def insert_permission_def keys_supported_def example_control_def
    example_permissions_def authorization_initialize_database_def example_owner_def example_active_def
    authority_of_key_def find_by_owner_def Let_def names_distinct
  have "create_permission example_control 7 owner_name 0 (authority_of_key 3 0) 0 authorization_initialize_database =
      Inr (example_owner, ?db1)" by (simp add: defs)
  then have r1: "permissions_reachable ?db1"
    by (rule permissions_created[OF permissions_initial, rotated]) (simp add: parent_valid_def)
  have "create_permission example_control 7 active_name 1 (authority_of_key 4 0) 0 ?db1 = Inr (example_active, example_permissions)"
    by (simp add: defs)
  then show ?thesis
    by (rule permissions_created[OF r1, rotated])
      (simp add: parent_valid_def example_permissions_def authorization_initialize_database_def example_owner_def)
qed

theorem permission_forest_witness:
  "tbl_find (adb_permissions example_permissions) 2 = Some example_active \<and> po_id example_active = 2 \<and>
   po_parent example_active < 2 \<and>
   (\<exists>q. tbl_find (adb_permissions example_permissions) (po_parent example_active) = Some q \<and> po_owner q = 7) \<and>
   tbl_find (adb_usages example_permissions) (po_usage_id example_active) \<noteq> None \<and>
   (po_owner example_owner, po_name example_owner) \<noteq> (po_owner example_active, po_name example_active)"
proof -
  have t: "tbl_find (adb_permissions example_permissions) 2 = Some example_active"
    "tbl_find (adb_permissions example_permissions) 1 = Some example_owner"
    by (simp_all add: example_permissions_def authorization_initialize_database_def)
  have o: "po_owner example_active = 7" "po_parent example_active \<noteq> 0" by (simp_all add: example_active_def)
  show ?thesis
    using permission_forest[OF example_permissions_reachable t(1)] t o by (metis numeral_eq_one_iff semiring_norm(85) zero_neq_numeral)
qed

theorem permission_satisfies_exact_witness:
  "permission_satisfies (adb_permissions example_permissions) example_owner example_active =
     Inr (perm_ancestor (adb_permissions example_permissions) 1 2)"
proof -
  have "get_permission example_permissions (7, owner_name) = Inr example_owner" "get_permission example_permissions (7, active_name) = Inr example_active"
    by (simp_all add: get_permission_Inr find_by_owner_def example_permissions_def authorization_initialize_database_def
        example_owner_def example_active_def names_distinct)
  from permission_satisfies_exact[OF example_permissions_reachable this] show ?thesis
    by (simp add: example_owner_def example_active_def)
qed

end
