(* ===== verification/Transactions.thy ===== *)
theory Transactions
  imports Block_Headers
begin

text \<open>
  Actions (\<^verbatim>\<open>action.hpp\<close>) and transactions (\<^verbatim>\<open>transaction.hpp\<close>, \<^verbatim>\<open>transaction.cpp\<close>): the header with its
  reference block, signatures, extensions, and the packed form that travels between nodes, plain or
  compressed. Packing, hashing and compression are functions of the \<^verbatim>\<open>fc\<close> and boost libraries: a record
  of parameters.
\<close>

abbreviation action_type_exception :: exn where
  "action_type_exception \<equiv> exception_class ''action_type_exception''"

abbreviation transaction_exception :: exn where
  "transaction_exception \<equiv> exception_class ''transaction_exception''"

abbreviation ill_formed_deferred_transaction_generation_context :: exn where
  "ill_formed_deferred_transaction_generation_context \<equiv>
     exception_class ''ill_formed_deferred_transaction_generation_context''"

abbreviation tx_cpu_usage_exceeded :: exn where
  "tx_cpu_usage_exceeded \<equiv> exception_class ''tx_cpu_usage_exceeded''"

abbreviation tx_duplicate_sig :: exn where
  "tx_duplicate_sig \<equiv> exception_class ''tx_duplicate_sig''"

abbreviation invalid_transaction_extension :: exn where
  "invalid_transaction_extension \<equiv> exception_class ''invalid_transaction_extension''"

abbreviation tx_too_big :: exn where
  "tx_too_big \<equiv> exception_class ''tx_too_big''"

abbreviation tx_decompression_error :: exn where
  "tx_decompression_error \<equiv> exception_class ''tx_decompression_error''"

abbreviation unhandled_exception :: exn where
  "unhandled_exception \<equiv> exception_class ''unhandled_exception''"

abbreviation unknown_transaction_compression :: exn where
  "unknown_transaction_compression \<equiv> exception_class ''unknown_transaction_compression''"

section \<open>Data\<close>

record action_base =
  act_account :: name
  act_name :: name
  act_authorization :: "permission_level list"

record action = action_base +
  act_data :: bytes

record transaction_header =
  th_expiration :: u32
  th_ref_block_num :: u16
  th_ref_block_prefix :: u32
  th_max_net_usage_words :: u32
  th_max_cpu_usage_ms :: u8
  th_delay_sec :: u32

record transaction =
  trx_header :: transaction_header
  trx_context_free_actions :: "action list"
  trx_actions :: "action list"
  trx_extensions :: extensions_type

record 's signed_transaction =
  st_trx :: transaction
  st_signatures :: "'s list"
  st_context_free_data :: "bytes list"

text \<open>The compression is a byte, of which two values have a meaning.\<close>

definition compression_none :: u8 where
  "compression_none = 0"

definition compression_zlib :: u8 where
  "compression_zlib = 1"

record 's packed_transaction =
  pt_signatures :: "'s list"
  pt_compression :: u8
  pt_packed_context_free_data :: bytes
  pt_packed_trx :: bytes
  pt_unpacked_trx :: "'s signed_transaction"
  pt_trx_id :: digest

record deferred_transaction_generation_context =
  dtgc_sender_trx_id :: digest
  dtgc_sender_id :: u128
  dtgc_sender :: name

text \<open>
  What the code calls in the libraries. A decompressor is fed with the whole input: it has
  written some output, and has reached the end of the stream or failed.
\<close>

record ('k, 's) trx_library =
  tl_sha256 :: "bytes \<Rightarrow> digest"
  tl_endian_reverse_u32 :: "u32 \<Rightarrow> u32"
  tl_pack_action_base :: "action \<Rightarrow> bytes"
  tl_pack_bytes :: "bytes \<Rightarrow> bytes"
  tl_pack_digest :: "digest \<Rightarrow> bytes"
  tl_pack_byte :: "u8 \<Rightarrow> bytes"
  tl_pack_transaction :: "transaction \<Rightarrow> bytes"
  tl_unpack_transaction :: "bytes \<Rightarrow> transaction res"
  tl_pack_context_free_data :: "bytes list \<Rightarrow> bytes"
  tl_unpack_context_free_data :: "bytes \<Rightarrow> bytes list res"
  tl_pack_signatures :: "'s list \<Rightarrow> bytes"
  tl_unpack_generation_context :: "bytes \<Rightarrow> deferred_transaction_generation_context res"
  tl_recover_key :: "'s \<Rightarrow> digest \<Rightarrow> 'k res"
  tl_zlib_compressor :: "bytes \<Rightarrow> bytes"
  tl_zlib_decompressor :: "bytes \<Rightarrow> bytes \<times> bool"

section \<open>Actions\<close>

definition data_as :: "name \<Rightarrow> name \<Rightarrow> (bytes \<Rightarrow> 'a res) \<Rightarrow> action \<Rightarrow> 'a res" where
  "data_as account nm unpack act =
     eos_assert (act_account act = account) action_type_exception
     (eos_assert (act_name act = nm) action_type_exception
      (unpack (act_data act)))"

definition generate_action_digest :: "('k, 's) trx_library \<Rightarrow> action \<Rightarrow> bytes \<Rightarrow> digest" where
  "generate_action_digest lib act action_output =
     (let hash = tl_sha256 lib;
          hash_base = hash (tl_pack_action_base lib act);
          hash_data = hash (tl_pack_bytes lib (act_data act) @ tl_pack_bytes lib action_output)
      in hash (tl_pack_digest lib hash_base @ tl_pack_digest lib hash_data))"

section \<open>Transaction headers\<close>

definition get_ref_blocknum :: "transaction_header \<Rightarrow> u32 \<Rightarrow> u32" where
  "get_ref_blocknum h head_blocknum = (head_blocknum div 0xffff) * 0xffff + head_blocknum mod 0xffff"

definition set_reference_block ::
  "('k, 's) trx_library \<Rightarrow> digest \<Rightarrow> transaction_header \<Rightarrow> transaction_header" where
  "set_reference_block lib reference_block h =
     h\<lparr>th_ref_block_num := ucast (tl_endian_reverse_u32 lib (ucast (hash0 reference_block))),
       th_ref_block_prefix := ucast (hash1 reference_block)\<rparr>"

definition verify_reference_block :: "('k, 's) trx_library \<Rightarrow> digest \<Rightarrow> transaction_header \<Rightarrow> bool" where
  "verify_reference_block lib reference_block h \<longleftrightarrow>
     th_ref_block_num h = ucast (tl_endian_reverse_u32 lib (ucast (hash0 reference_block))) \<and>
     th_ref_block_prefix h = ucast (hash1 reference_block)"

definition transaction_header_validate :: "transaction_header \<Rightarrow> unit res" where
  "transaction_header_validate h =
     eos_assert (th_max_net_usage_words h < (-1) div 8) transaction_exception (Inr ())"

section \<open>Transactions\<close>

definition transaction_id :: "('k, 's) trx_library \<Rightarrow> transaction \<Rightarrow> digest" where
  "transaction_id lib t = tl_sha256 lib (tl_pack_transaction lib t)"

definition transaction_sig_digest :: "('k, 's) trx_library \<Rightarrow> digest \<Rightarrow> bytes list \<Rightarrow> transaction \<Rightarrow> digest" where
  "transaction_sig_digest lib chain_id cfd t =
     tl_sha256 lib (tl_pack_digest lib chain_id @ tl_pack_transaction lib t @
       (if length cfd \<noteq> 0 then tl_pack_digest lib (tl_sha256 lib (tl_pack_context_free_data lib cfd))
        else tl_pack_digest lib digest_default))"

text \<open>
  The recovery of the signing keys. The clock is read before the first signature, before each signature
  and at the end; \<open>clock n\<close> is the value of reading \<open>n\<close>.
\<close>

fun signature_keys_loop ::
  "('k, 's) trx_library \<Rightarrow> digest \<Rightarrow> (nat \<Rightarrow> int) \<Rightarrow> int \<Rightarrow> bool \<Rightarrow> nat \<Rightarrow> 'k set \<Rightarrow> 's list \<Rightarrow> ('k set \<times> nat) res" where
  "signature_keys_loop lib digest clock deadline allow_duplicate_keys n recovered [] = Inr (recovered, n)"
| "signature_keys_loop lib digest clock deadline allow_duplicate_keys n recovered (sig # sigs) =
     eos_assert (clock n < deadline) tx_cpu_usage_exceeded
     (res_bind (tl_recover_key lib sig digest) (\<lambda>key.
      eos_assert (allow_duplicate_keys \<or> key \<notin> recovered) tx_duplicate_sig
      (signature_keys_loop lib digest clock deadline allow_duplicate_keys (Suc n) (insert key recovered) sigs)))"

definition get_signature_keys ::
  "('k, 's) trx_library \<Rightarrow> digest \<Rightarrow> (nat \<Rightarrow> int) \<Rightarrow> int \<Rightarrow> bool \<Rightarrow> 's signed_transaction \<Rightarrow> ('k set \<times> int) res" where
  "get_signature_keys lib chain_id clock deadline allow_duplicate_keys t =
     (let start = clock 0;
          digest = transaction_sig_digest lib chain_id (st_context_free_data t) (st_trx t)
      in res_bind (signature_keys_loop lib digest clock deadline allow_duplicate_keys 1 {} (st_signatures t))
           (\<lambda>(recovered, n). Inr (recovered, clock n - start)))"

definition total_actions :: "transaction \<Rightarrow> u32" where
  "total_actions t = word_of_nat (length (trx_context_free_actions t) + length (trx_actions t))"

definition first_authorizer :: "transaction \<Rightarrow> name" where
  "first_authorizer t =
     (case concat (map act_authorization (trx_actions t)) of
        [] \<Rightarrow> 0
      | u # _ \<Rightarrow> fst u)"

definition generation_context_reflector_init ::
  "deferred_transaction_generation_context \<Rightarrow> deferred_transaction_generation_context res" where
  "generation_context_reflector_init c =
     eos_assert (dtgc_sender c \<noteq> 0) ill_formed_deferred_transaction_generation_context (Inr c)"

text \<open>The only extension of a transaction has the id 0 and must not repeat.\<close>

definition extract_transaction_extension ::
  "('k, 's) trx_library \<Rightarrow> u16 \<Rightarrow> bytes \<Rightarrow> (deferred_transaction_generation_context \<times> bool) option res" where
  "extract_transaction_extension lib eid data =
     (if eid = 0 then
        res_bind (tl_unpack_generation_context lib data) (\<lambda>raw.
        res_bind (generation_context_reflector_init raw) (\<lambda>c. Inr (Some (c, True))))
      else Inr None)"

fun extract_transaction_loop ::
  "('k, 's) trx_library \<Rightarrow> nat \<Rightarrow> u16 \<Rightarrow> (u16 \<times> deferred_transaction_generation_context) list \<Rightarrow> extensions_type \<Rightarrow>
   (u16 \<times> deferred_transaction_generation_context) list res" where
  "extract_transaction_loop lib i lower_bound results [] = Inr results"
| "extract_transaction_loop lib i lower_bound results ((eid, data) # exts) =
     eos_assert (eid \<ge> lower_bound) invalid_transaction_extension
     (res_bind (extract_transaction_extension lib eid data) (\<lambda>match.
      case match of
        None \<Rightarrow> Inl invalid_transaction_extension
      | Some (ext, enforce_unique) \<Rightarrow>
          eos_assert (enforce_unique \<longrightarrow> i = 0 \<or> eid > lower_bound) invalid_transaction_extension
          (extract_transaction_loop lib (Suc i) eid (results @ [(eid, ext)]) exts)))"

definition transaction_extract_extensions ::
  "('k, 's) trx_library \<Rightarrow> transaction \<Rightarrow> (u16 \<times> deferred_transaction_generation_context) list res" where
  "transaction_extract_extensions lib t = extract_transaction_loop lib 0 0 [] (trx_extensions t)"

section \<open>Packed transactions\<close>

definition fixed_net_overhead_of_packed_trx :: nat where
  "fixed_net_overhead_of_packed_trx = 16"

definition get_unprunable_size :: "'s packed_transaction \<Rightarrow> u32 res" where
  "get_unprunable_size p =
     (let size = word_of_nat (fixed_net_overhead_of_packed_trx) + word_of_nat (length (pt_packed_trx p)) :: u64
      in eos_assert (size \<le> 0xffffffff) tx_too_big (Inr (ucast size)))"

definition get_prunable_size :: "('k, 's) trx_library \<Rightarrow> 's packed_transaction \<Rightarrow> u32 res" where
  "get_prunable_size lib p =
     (let size = word_of_nat (length (tl_pack_signatures lib (pt_signatures p))) +
                 word_of_nat (length (pt_packed_context_free_data p)) :: u64
      in eos_assert (size \<le> 0xffffffff) tx_too_big (Inr (ucast size)))"

definition packed_digest :: "('k, 's) trx_library \<Rightarrow> 's packed_transaction \<Rightarrow> digest" where
  "packed_digest lib p =
     (let prunable = tl_sha256 lib (tl_pack_signatures lib (pt_signatures p) @ tl_pack_bytes lib (pt_packed_context_free_data p))
      in tl_sha256 lib (tl_pack_byte lib (pt_compression p) @ tl_pack_bytes lib (pt_packed_trx p) @ tl_pack_digest lib prunable))"

definition unpack_context_free_data :: "('k, 's) trx_library \<Rightarrow> bytes \<Rightarrow> bytes list res" where
  "unpack_context_free_data lib data =
     (if length data = 0 then Inr [] else tl_unpack_context_free_data lib data)"

definition unpack_transaction :: "('k, 's) trx_library \<Rightarrow> bytes \<Rightarrow> transaction res" where
  "unpack_transaction lib data = tl_unpack_transaction lib data"

text \<open>
  The output of the decompressor passes a limiter that throws when more than one megabyte has been
  written; any other failure becomes an unhandled exception.
\<close>

definition zlib_decompress :: "('k, 's) trx_library \<Rightarrow> bytes \<Rightarrow> bytes res" where
  "zlib_decompress lib data =
     (let (out, complete) = tl_zlib_decompressor lib data in
      eos_assert (length out \<le> 1 * 1024 * 1024) tx_decompression_error
      (eos_assert complete unhandled_exception (Inr out)))"

definition zlib_decompress_context_free_data :: "('k, 's) trx_library \<Rightarrow> bytes \<Rightarrow> bytes list res" where
  "zlib_decompress_context_free_data lib data =
     (if length data = 0 then Inr []
      else res_bind (zlib_decompress lib data) (unpack_context_free_data lib))"

definition zlib_decompress_transaction :: "('k, 's) trx_library \<Rightarrow> bytes \<Rightarrow> transaction res" where
  "zlib_decompress_transaction lib data = res_bind (zlib_decompress lib data) (unpack_transaction lib)"

definition pack_transaction :: "('k, 's) trx_library \<Rightarrow> transaction \<Rightarrow> bytes" where
  "pack_transaction lib t = tl_pack_transaction lib t"

definition pack_context_free_data :: "('k, 's) trx_library \<Rightarrow> bytes list \<Rightarrow> bytes" where
  "pack_context_free_data lib cfd = (if length cfd = 0 then [] else tl_pack_context_free_data lib cfd)"

definition zlib_compress_context_free_data :: "('k, 's) trx_library \<Rightarrow> bytes list \<Rightarrow> bytes" where
  "zlib_compress_context_free_data lib cfd =
     (if length cfd = 0 then [] else tl_zlib_compressor lib (pack_context_free_data lib cfd))"

definition zlib_compress_transaction :: "('k, 's) trx_library \<Rightarrow> transaction \<Rightarrow> bytes" where
  "zlib_compress_transaction lib t = tl_zlib_compressor lib (pack_transaction lib t)"

definition get_raw_transaction :: "('k, 's) trx_library \<Rightarrow> 's packed_transaction \<Rightarrow> bytes res" where
  "get_raw_transaction lib p =
     (if pt_compression p = compression_none then Inr (pt_packed_trx p)
      else if pt_compression p = compression_zlib then zlib_decompress lib (pt_packed_trx p)
      else Inl unknown_transaction_compression)"

definition local_unpack_transaction ::
  "('k, 's) trx_library \<Rightarrow> bytes list \<Rightarrow> 's packed_transaction \<Rightarrow> 's packed_transaction res" where
  "local_unpack_transaction lib cfd p =
     res_bind (if pt_compression p = compression_none then unpack_transaction lib (pt_packed_trx p)
               else if pt_compression p = compression_zlib then zlib_decompress_transaction lib (pt_packed_trx p)
               else Inl unknown_transaction_compression) (\<lambda>t.
     Inr (p\<lparr>pt_unpacked_trx := \<lparr>st_trx = t, st_signatures = pt_signatures p, st_context_free_data = cfd\<rparr>,
            pt_trx_id := transaction_id lib t\<rparr>))"

definition local_unpack_context_free_data ::
  "('k, 's) trx_library \<Rightarrow> 's packed_transaction \<Rightarrow> 's packed_transaction res" where
  "local_unpack_context_free_data lib p =
     eos_assert (st_context_free_data (pt_unpacked_trx p) = []) tx_decompression_error
     (res_bind (if pt_compression p = compression_none
                then unpack_context_free_data lib (pt_packed_context_free_data p)
                else if pt_compression p = compression_zlib
                then zlib_decompress_context_free_data lib (pt_packed_context_free_data p)
                else Inl unknown_transaction_compression) (\<lambda>cfd.
      Inr (p\<lparr>pt_unpacked_trx := (pt_unpacked_trx p)\<lparr>st_context_free_data := cfd\<rparr>\<rparr>)))"

definition local_pack_transaction ::
  "('k, 's) trx_library \<Rightarrow> 's packed_transaction \<Rightarrow> 's packed_transaction res" where
  "local_pack_transaction lib p =
     (if pt_compression p = compression_none
      then Inr (p\<lparr>pt_packed_trx := pack_transaction lib (st_trx (pt_unpacked_trx p))\<rparr>)
      else if pt_compression p = compression_zlib
      then Inr (p\<lparr>pt_packed_trx := zlib_compress_transaction lib (st_trx (pt_unpacked_trx p))\<rparr>)
      else Inl unknown_transaction_compression)"

definition local_pack_context_free_data ::
  "('k, 's) trx_library \<Rightarrow> 's packed_transaction \<Rightarrow> 's packed_transaction res" where
  "local_pack_context_free_data lib p =
     (if pt_compression p = compression_none
      then Inr (p\<lparr>pt_packed_context_free_data := pack_context_free_data lib (st_context_free_data (pt_unpacked_trx p))\<rparr>)
      else if pt_compression p = compression_zlib
      then Inr (p\<lparr>pt_packed_context_free_data := zlib_compress_context_free_data lib (st_context_free_data (pt_unpacked_trx p))\<rparr>)
      else Inl unknown_transaction_compression)"

text \<open>A transaction without content, which the constructors start from.\<close>

definition transaction_default :: transaction where
  "transaction_default =
     \<lparr>trx_header = \<lparr>th_expiration = 0, th_ref_block_num = 0, th_ref_block_prefix = 0, th_max_net_usage_words = 0,
                    th_max_cpu_usage_ms = 0, th_delay_sec = 0\<rparr>,
      trx_context_free_actions = [], trx_actions = [], trx_extensions = []\<rparr>"

definition signed_transaction_default :: "'s signed_transaction" where
  "signed_transaction_default = \<lparr>st_trx = transaction_default, st_signatures = [], st_context_free_data = []\<rparr>"

definition packed_transaction_of_signed ::
  "('k, 's) trx_library \<Rightarrow> u8 \<Rightarrow> 's signed_transaction \<Rightarrow> 's packed_transaction res" where
  "packed_transaction_of_signed lib compression t =
     res_bind (local_pack_transaction lib
       \<lparr>pt_signatures = st_signatures t, pt_compression = compression, pt_packed_context_free_data = [],
        pt_packed_trx = [], pt_unpacked_trx = t, pt_trx_id = transaction_id lib (st_trx t)\<rparr>)
     (local_pack_context_free_data lib)"

definition packed_transaction_of_packed ::
  "('k, 's) trx_library \<Rightarrow> bytes \<Rightarrow> 's list \<Rightarrow> bytes \<Rightarrow> u8 \<Rightarrow> 's packed_transaction res" where
  "packed_transaction_of_packed lib packed_txn sigs packed_cfd compression =
     res_bind (local_unpack_transaction lib []
       \<lparr>pt_signatures = sigs, pt_compression = compression, pt_packed_context_free_data = packed_cfd,
        pt_packed_trx = packed_txn, pt_unpacked_trx = signed_transaction_default, pt_trx_id = digest_default\<rparr>) (\<lambda>p.
     if pt_packed_context_free_data p \<noteq> [] then local_unpack_context_free_data lib p else Inr p)"

definition packed_transaction_of_packed_cfd ::
  "('k, 's) trx_library \<Rightarrow> bytes \<Rightarrow> 's list \<Rightarrow> bytes list \<Rightarrow> u8 \<Rightarrow> 's packed_transaction res" where
  "packed_transaction_of_packed_cfd lib packed_txn sigs cfd compression =
     res_bind (local_unpack_transaction lib cfd
       \<lparr>pt_signatures = sigs, pt_compression = compression, pt_packed_context_free_data = [],
        pt_packed_trx = packed_txn, pt_unpacked_trx = signed_transaction_default, pt_trx_id = digest_default\<rparr>) (\<lambda>p.
     if st_context_free_data (pt_unpacked_trx p) \<noteq> [] then local_pack_context_free_data lib p else Inr p)"

definition packed_transaction_of_trx ::
  "('k, 's) trx_library \<Rightarrow> transaction \<Rightarrow> 's list \<Rightarrow> bytes \<Rightarrow> u8 \<Rightarrow> 's packed_transaction res" where
  "packed_transaction_of_trx lib t sigs packed_cfd compression =
     res_bind (local_pack_transaction lib
       \<lparr>pt_signatures = sigs, pt_compression = compression, pt_packed_context_free_data = packed_cfd, pt_packed_trx = [],
        pt_unpacked_trx = \<lparr>st_trx = t, st_signatures = sigs, st_context_free_data = []\<rparr>,
        pt_trx_id = transaction_id lib t\<rparr>) (\<lambda>p.
     if pt_packed_context_free_data p \<noteq> [] then local_unpack_context_free_data lib p else Inr p)"

text \<open>
  The four packed members of a transaction that came from the network are read, and this
  completes the object.
\<close>

definition packed_transaction_reflector_init ::
  "('k, 's) trx_library \<Rightarrow> 's packed_transaction \<Rightarrow> 's packed_transaction res" where
  "packed_transaction_reflector_init lib p =
     eos_assert (th_expiration (trx_header (st_trx (pt_unpacked_trx p))) = 0) tx_decompression_error
     (res_bind (local_unpack_transaction lib [] p) (local_unpack_context_free_data lib))"

definition packed_transaction_eq :: "'s packed_transaction \<Rightarrow> 's packed_transaction \<Rightarrow> bool" where
  "packed_transaction_eq lhs rhs \<longleftrightarrow>
     pt_signatures lhs = pt_signatures rhs \<and> pt_compression lhs = pt_compression rhs \<and>
     pt_packed_context_free_data lhs = pt_packed_context_free_data rhs \<and> pt_packed_trx lhs = pt_packed_trx rhs"

section \<open>Deferred transactions\<close>

text \<open>A deferred transaction of the database, with unique transaction id and unique sender and sender id.\<close>

record generated_transaction_object =
  gto_trx_id :: digest
  gto_sender :: name
  gto_sender_id :: u128
  gto_payer :: name
  gto_delay_until :: int
  gto_expiration :: int
  gto_published :: int
  gto_packed_trx :: bytes

definition transaction_id_to_sender_id :: "digest \<Rightarrow> u128" where
  "transaction_id_to_sender_id tid = push_bit 64 (ucast (hash3 tid)) OR ucast (hash2 tid)"

section \<open>Reference blocks\<close>

text \<open>
  The computed number is always the number of the head: the relative number in the header plays no
  part in it.
\<close>

lemma get_ref_blocknum_is_head: "get_ref_blocknum h head_blocknum = head_blocknum"
  unfolding get_ref_blocknum_def by (rule div_mult_mod_eq)

text \<open>A header refers to a block exactly when it agrees with it in the low 16 bits of the number and in the prefix.\<close>

lemma verify_set_reference_block:
  "verify_reference_block lib b (set_reference_block lib a h) \<longleftrightarrow>
     ucast (tl_endian_reverse_u32 lib (ucast (hash0 a))) = (ucast (tl_endian_reverse_u32 lib (ucast (hash0 b))) :: u16) \<and>
     (ucast (hash1 a) :: u32) = ucast (hash1 b)"
  by (simp add: verify_reference_block_def set_reference_block_def)

text \<open>
  The signing keys are recovered in full, and without repetition unless that is allowed.
\<close>

lemma signature_keys_loop_keys:
  "signature_keys_loop lib d clock deadline dup n ks sigs = Inr (ks', m) \<Longrightarrow>
     m = n + length sigs \<and>
     (\<exists>keys. list_all2 (\<lambda>sig key. tl_recover_key lib sig d = Inr key) sigs keys \<and> ks' = ks \<union> set keys \<and>
        (\<not> dup \<longrightarrow> distinct keys \<and> set keys \<inter> ks = {}))"
proof (induction sigs arbitrary: n ks)
  case (Cons sig sigs)
  then obtain key where key: "tl_recover_key lib sig d = Inr key" "dup \<or> key \<notin> ks"
      and run: "signature_keys_loop lib d clock deadline dup (Suc n) (insert key ks) sigs = Inr (ks', m)"
    by auto
  from Cons.IH[OF run] obtain keys where keys: "m = Suc n + length sigs"
      "list_all2 (\<lambda>sig key. tl_recover_key lib sig d = Inr key) sigs keys" "ks' = insert key ks \<union> set keys"
      "\<not> dup \<longrightarrow> distinct keys \<and> set keys \<inter> insert key ks = {}"
    by blast
  then show ?case using key by (intro conjI exI[of _ "key # keys"]) auto
qed simp

section \<open>Packed transactions between nodes\<close>

text \<open>What a packed transaction is when its four packed members have been read from the network.\<close>

definition received_packed_transaction :: "'s packed_transaction \<Rightarrow> 's packed_transaction" where
  "received_packed_transaction p = p\<lparr>pt_unpacked_trx := signed_transaction_default, pt_trx_id := digest_default\<rparr>"

text \<open>The library reads back what it wrote of this transaction, and the decompressor undoes the compressor.\<close>

definition packing_inverse :: "('k, 's) trx_library \<Rightarrow> 's signed_transaction \<Rightarrow> bool" where
  "packing_inverse lib t \<longleftrightarrow>
     tl_unpack_transaction lib (tl_pack_transaction lib (st_trx t)) = Inr (st_trx t) \<and>
     tl_unpack_context_free_data lib (tl_pack_context_free_data lib (st_context_free_data t)) = Inr (st_context_free_data t) \<and>
     tl_pack_context_free_data lib (st_context_free_data t) \<noteq> [] \<and>
     (\<forall>bs. tl_zlib_decompressor lib (tl_zlib_compressor lib bs) = (bs, True) \<and> tl_zlib_compressor lib bs \<noteq> [])"

lemma zlib_decompress_compressed:
  "packing_inverse lib t \<Longrightarrow> length bs \<le> 1048576 \<Longrightarrow> zlib_decompress lib (tl_zlib_compressor lib bs) = Inr bs"
  by (simp add: packing_inverse_def zlib_decompress_def)

text \<open>
  C35. A packed transaction survives the network: when a node packs a signed transaction, with or without
  compression, and the packed data are within the limit of the decompressor, then a node that reads the four
  packed members completes them to the very same object, with the same transaction, data and id.
\<close>

theorem packed_transaction_received:
  assumes inv: "packing_inverse lib t"
    and pack: "packed_transaction_of_signed lib c t = Inr p"
    and size: "length (pack_transaction lib (st_trx t)) \<le> 1048576"
      "length (pack_context_free_data lib (st_context_free_data t)) \<le> 1048576"
  shows "packed_transaction_reflector_init lib (received_packed_transaction p) = Inr p"
proof -
  have c: "c = compression_none \<or> c = compression_zlib"
    using pack by (auto simp: packed_transaction_of_signed_def local_pack_transaction_def split: if_splits)
  have ne: "compression_zlib \<noteq> compression_none" by (simp add: compression_none_def compression_zlib_def)
  note defs = packed_transaction_reflector_init_def received_packed_transaction_def local_unpack_transaction_def
    local_unpack_context_free_data_def unpack_transaction_def pack_transaction_def unpack_context_free_data_def
    pack_context_free_data_def zlib_compress_context_free_data_def zlib_decompress_context_free_data_def
    zlib_compress_transaction_def zlib_decompress_transaction_def signed_transaction_default_def transaction_default_def
  from c show ?thesis
  proof
    assume "c = compression_none"
    then have "p = \<lparr>pt_signatures = st_signatures t, pt_compression = compression_none,
        pt_packed_context_free_data = pack_context_free_data lib (st_context_free_data t),
        pt_packed_trx = pack_transaction lib (st_trx t), pt_unpacked_trx = t, pt_trx_id = transaction_id lib (st_trx t)\<rparr>"
      using pack by (simp add: packed_transaction_of_signed_def local_pack_transaction_def local_pack_context_free_data_def)
    then show ?thesis using inv by (simp add: defs packing_inverse_def del: res_bind_Inr eos_assert_Inr)
  next
    assume z: "c = compression_zlib"
    have "zlib_decompress lib (tl_zlib_compressor lib (tl_pack_transaction lib (st_trx t))) = Inr (tl_pack_transaction lib (st_trx t))"
      using zlib_decompress_compressed[OF inv] size(1) by (simp add: pack_transaction_def)
    moreover have "st_context_free_data t \<noteq> [] \<Longrightarrow>
        zlib_decompress lib (tl_zlib_compressor lib (tl_pack_context_free_data lib (st_context_free_data t))) =
        Inr (tl_pack_context_free_data lib (st_context_free_data t))"
      using zlib_decompress_compressed[OF inv] size(2) by (simp add: pack_context_free_data_def)
    moreover have "p = \<lparr>pt_signatures = st_signatures t, pt_compression = compression_zlib,
        pt_packed_context_free_data = zlib_compress_context_free_data lib (st_context_free_data t),
        pt_packed_trx = zlib_compress_transaction lib (st_trx t), pt_unpacked_trx = t, pt_trx_id = transaction_id lib (st_trx t)\<rparr>"
      using pack z ne by (simp add: packed_transaction_of_signed_def local_pack_transaction_def local_pack_context_free_data_def)
    ultimately show ?thesis using inv ne by (simp add: defs packing_inverse_def del: res_bind_Inr eos_assert_Inr)
  qed
qed

section \<open>Example\<close>

definition example_trx :: "nat signed_transaction" where
  "example_trx = signed_transaction_default\<lparr>st_signatures := [3], st_context_free_data := [[1, 2]]\<rparr>"

definition example_trx_library :: "(nat, nat) trx_library" where
  "example_trx_library =
     \<lparr>tl_sha256 = (\<lambda>_. digest_default), tl_endian_reverse_u32 = id, tl_pack_action_base = (\<lambda>_. []),
      tl_pack_bytes = id, tl_pack_digest = (\<lambda>_. []), tl_pack_byte = (\<lambda>b. [b]), tl_pack_transaction = (\<lambda>_. [7]),
      tl_unpack_transaction = (\<lambda>_. Inr transaction_default), tl_pack_context_free_data = (\<lambda>_. [9]),
      tl_unpack_context_free_data = (\<lambda>_. Inr [[1, 2]]), tl_pack_signatures = (\<lambda>_. []),
      tl_unpack_generation_context = (\<lambda>_. Inl unhandled_exception), tl_recover_key = (\<lambda>s d. Inr s),
      tl_zlib_compressor = (\<lambda>bs. 0 # bs), tl_zlib_decompressor = (\<lambda>bs. (tl bs, True))\<rparr>"

theorem packed_transaction_received_witness:
  "\<exists>p. packed_transaction_of_signed example_trx_library compression_zlib example_trx = Inr p \<and>
     packed_transaction_reflector_init example_trx_library (received_packed_transaction p) = Inr p"
proof -
  have inv: "packing_inverse example_trx_library example_trx"
    by (simp add: packing_inverse_def example_trx_library_def example_trx_def signed_transaction_default_def)
  obtain p where p: "packed_transaction_of_signed example_trx_library compression_zlib example_trx = Inr p"
    by (simp add: packed_transaction_of_signed_def local_pack_transaction_def local_pack_context_free_data_def
        compression_none_def compression_zlib_def)
  have "length (pack_transaction example_trx_library (st_trx example_trx)) \<le> 1048576"
    "length (pack_context_free_data example_trx_library (st_context_free_data example_trx)) \<le> 1048576"
    by (simp_all add: pack_transaction_def pack_context_free_data_def example_trx_library_def)
  from packed_transaction_received[OF inv p this] p show ?thesis by blast
qed

end
