(* ===== verification/Authorization.thy ===== *)
theory Authorization
  imports Permission_Tree Transactions
begin

text \<open>
  The checks of the authorization manager (\<^verbatim>\<open>authorization_manager.cpp\<close>): which permission an action of a
  contract needs, what the native actions on permissions need, and whether the keys, permissions and
  delay that come with a transaction authorize all of its actions. The callback \<^verbatim>\<open>checktime\<close> is the default
  one, which does nothing. The data of the native actions are those of \<^verbatim>\<open>contract_types.hpp\<close>.
\<close>

abbreviation unlinkable_min_permission_action :: exn where
  "unlinkable_min_permission_action \<equiv> exception_class ''unlinkable_min_permission_action''"

abbreviation irrelevant_auth_exception :: exn where
  "irrelevant_auth_exception \<equiv> exception_class ''irrelevant_auth_exception''"

abbreviation tx_not_found :: exn where
  "tx_not_found \<equiv> exception_class ''tx_not_found''"

abbreviation unsatisfied_authorization :: exn where
  "unsatisfied_authorization \<equiv> exception_class ''unsatisfied_authorization''"

abbreviation tx_irrelevant_sig :: exn where
  "tx_irrelevant_sig \<equiv> exception_class ''tx_irrelevant_sig''"

section \<open>The native actions\<close>

record 'k newaccount =
  na_creator :: name
  na_name :: name
  na_owner :: "'k authority"
  na_active :: "'k authority"

record setcode =
  sc_account :: name
  sc_vmtype :: u8
  sc_vmversion :: u8
  sc_code :: bytes

record setabi =
  sa_account :: name
  sa_abi :: bytes

record 'k updateauth =
  ua_account :: name
  ua_permission :: name
  ua_parent :: name
  ua_auth :: "'k authority"

record deleteauth =
  da_account :: name
  da_permission :: name

record linkauth =
  la_account :: name
  la_code :: name
  la_type :: name
  la_requirement :: name

record unlinkauth =
  ula_account :: name
  ula_code :: name
  ula_type :: name

record canceldelay =
  cd_canceling_auth :: permission_level
  cd_trx_id :: digest

definition newaccount_name :: name where
  "newaccount_name = string_to_uint64_t ''newaccount''"

definition setcode_name :: name where
  "setcode_name = string_to_uint64_t ''setcode''"

definition setabi_name :: name where
  "setabi_name = string_to_uint64_t ''setabi''"

definition updateauth_name :: name where
  "updateauth_name = string_to_uint64_t ''updateauth''"

definition deleteauth_name :: name where
  "deleteauth_name = string_to_uint64_t ''deleteauth''"

definition linkauth_name :: name where
  "linkauth_name = string_to_uint64_t ''linkauth''"

definition unlinkauth_name :: name where
  "unlinkauth_name = string_to_uint64_t ''unlinkauth''"

definition canceldelay_name :: name where
  "canceldelay_name = string_to_uint64_t ''canceldelay''"

lemma native_name_values [code]:
  "newaccount_name = 11148770977341390848"
  "setcode_name = 14029427681804681216"
  "setabi_name = 14029385431137648640"
  "updateauth_name = 15371467950649982976"
  "deleteauth_name = 5378050746259030016"
  "linkauth_name = 10063015651234021376"
  "unlinkauth_name = 15340080295291076608"
  "canceldelay_name = 4730614990712192000"
  by (simp_all add: name_eval newaccount_name_def setcode_name_def setabi_name_def updateauth_name_def deleteauth_name_def linkauth_name_def unlinkauth_name_def canceldelay_name_def)

text \<open>Unpacking of the data of an action, by the \<^verbatim>\<open>fc\<close> library.\<close>

record 'k native_codec =
  unpack_newaccount :: "bytes \<Rightarrow> 'k newaccount res"
  unpack_setcode :: "bytes \<Rightarrow> setcode res"
  unpack_setabi :: "bytes \<Rightarrow> setabi res"
  unpack_updateauth :: "bytes \<Rightarrow> 'k updateauth res"
  unpack_deleteauth :: "bytes \<Rightarrow> deleteauth res"
  unpack_linkauth :: "bytes \<Rightarrow> linkauth res"
  unpack_unlinkauth :: "bytes \<Rightarrow> unlinkauth res"
  unpack_canceldelay :: "bytes \<Rightarrow> canceldelay res"

section \<open>Links\<close>

definition lookup_linked_permission :: "'k authorization_db \<Rightarrow> name \<Rightarrow> name \<Rightarrow> name \<Rightarrow> name option" where
  "lookup_linked_permission db authorizer_account scope act =
     (case tbl_find (adb_links db) (authorizer_account, scope, act) of
        Some link \<Rightarrow> Some (pl_required_permission link)
      | None \<Rightarrow>
          (case tbl_find (adb_links db) (authorizer_account, scope, 0) of
             Some link \<Rightarrow> Some (pl_required_permission link)
           | None \<Rightarrow> None))"

definition unlinkable_actions :: "name list" where
  "unlinkable_actions = [updateauth_name, deleteauth_name, linkauth_name, unlinkauth_name, canceldelay_name]"

definition lookup_minimum_permission :: "'k authorization_db \<Rightarrow> name \<Rightarrow> name \<Rightarrow> name \<Rightarrow> name option res" where
  "lookup_minimum_permission db authorizer_account scope act =
     eos_assert (scope = system_account_name \<longrightarrow> act \<notin> set unlinkable_actions) unlinkable_min_permission_action
     (case lookup_linked_permission db authorizer_account scope act of
        None \<Rightarrow> Inr (Some active_name)
      | Some linked_permission \<Rightarrow>
          if linked_permission = eosio_any_name then Inr None else Inr (Some linked_permission))"

section \<open>Checks of the native actions\<close>

text \<open>The declared permission must be the needed one or one of its ancestors.\<close>

definition assert_satisfies :: "'k authorization_db \<Rightarrow> 'k permission_object \<Rightarrow> 'k permission_object \<Rightarrow> unit res" where
  "assert_satisfies db p min_permission =
     res_bind (permission_satisfies (adb_permissions db) p min_permission) (\<lambda>ok.
     eos_assert ok irrelevant_auth_exception (Inr ()))"

definition check_updateauth_authorization ::
  "'k authorization_db \<Rightarrow> 'k updateauth \<Rightarrow> permission_level list \<Rightarrow> unit res" where
  "check_updateauth_authorization db update auths =
     eos_assert (length auths = 1) irrelevant_auth_exception
     (let auth = auths ! 0 in
      eos_assert (fst auth = ua_account update) irrelevant_auth_exception
      (res_bind (find_permission db (ua_account update, ua_permission update)) (\<lambda>found.
       res_bind (case found of
                   Some p \<Rightarrow> Inr p
                 | None \<Rightarrow> get_permission db (ua_account update, ua_parent update)) (\<lambda>min_permission.
       res_bind (get_permission db auth) (\<lambda>p. assert_satisfies db p min_permission)))))"

definition check_deleteauth_authorization ::
  "'k authorization_db \<Rightarrow> deleteauth \<Rightarrow> permission_level list \<Rightarrow> unit res" where
  "check_deleteauth_authorization db del auths =
     eos_assert (length auths = 1) irrelevant_auth_exception
     (let auth = auths ! 0 in
      eos_assert (fst auth = da_account del) irrelevant_auth_exception
      (res_bind (get_permission db (da_account del, da_permission del)) (\<lambda>min_permission.
       res_bind (get_permission db auth) (\<lambda>p. assert_satisfies db p min_permission))))"

definition check_linkauth_authorization ::
  "'k authorization_control \<Rightarrow> 'k authorization_db \<Rightarrow> linkauth \<Rightarrow> permission_level list \<Rightarrow> unit res" where
  "check_linkauth_authorization ctl db link auths =
     eos_assert (length auths = 1) irrelevant_auth_exception
     (let auth = auths ! 0 in
      eos_assert (fst auth = la_account link) irrelevant_auth_exception
      (eos_assert (la_code link = system_account_name \<or> \<not> ac_is_builtin_activated ctl fix_linkauth_restriction \<longrightarrow>
                   la_type link \<notin> set unlinkable_actions) action_validate_exception
       (res_bind (lookup_minimum_permission db (la_account link) (la_code link) (la_type link)) (\<lambda>linked_permission_name.
        case linked_permission_name of
          None \<Rightarrow> Inr ()
        | Some linked \<Rightarrow>
            res_bind (get_permission db auth) (\<lambda>p.
            res_bind (get_permission db (la_account link, linked)) (\<lambda>min_permission.
            assert_satisfies db p min_permission))))))"

definition check_unlinkauth_authorization ::
  "'k authorization_db \<Rightarrow> unlinkauth \<Rightarrow> permission_level list \<Rightarrow> unit res" where
  "check_unlinkauth_authorization db unlink auths =
     eos_assert (length auths = 1) irrelevant_auth_exception
     (let auth = auths ! 0 in
      eos_assert (fst auth = ula_account unlink) irrelevant_auth_exception
      (case lookup_linked_permission db (ula_account unlink) (ula_code unlink) (ula_type unlink) of
         None \<Rightarrow> Inl transaction_exception
       | Some unlinked \<Rightarrow>
           if unlinked = eosio_any_name then Inr ()
           else res_bind (get_permission db auth) (\<lambda>p.
                res_bind (get_permission db (ula_account unlink, unlinked)) (\<lambda>min_permission.
                assert_satisfies db p min_permission))))"

text \<open>
  The lower bound in the index of transaction ids, together with the test of the id, is the row with this id.
\<close>

definition check_canceldelay_authorization ::
  "('k, 's) trx_library \<Rightarrow> 'k authorization_db \<Rightarrow> generated_transaction_object list \<Rightarrow> canceldelay \<Rightarrow>
   permission_level list \<Rightarrow> int res" where
  "check_canceldelay_authorization lib db gtos cancel auths =
     eos_assert (length auths = 1) irrelevant_auth_exception
     (res_bind (get_permission db (auths ! 0)) (\<lambda>p.
      res_bind (get_permission db (cd_canceling_auth cancel)) (\<lambda>min_permission.
      res_bind (assert_satisfies db p min_permission) (\<lambda>_.
      case find (\<lambda>g. gto_trx_id g = cd_trx_id cancel) gtos of
        None \<Rightarrow> Inl tx_not_found
      | Some g \<Rightarrow>
          eos_assert (gto_sender g = 0) tx_not_found
          (res_bind (unpack_transaction lib (gto_packed_trx g)) (\<lambda>trx.
           eos_assert (list_ex (\<lambda>act. cd_canceling_auth cancel \<in> set (act_authorization act)) (trx_actions trx))
             action_validate_exception
           (Inr (gto_delay_until g - gto_published g))))))))"

section \<open>Authorization of a transaction\<close>

text \<open>
  The special treatment of one action: whether it is one of the native actions with a check of their own, and the
  delay under which its authorizations are evaluated.
\<close>

definition check_native_action ::
  "('k, 's) trx_library \<Rightarrow> 'k native_codec \<Rightarrow> 'k authorization_control \<Rightarrow> 'k authorization_db \<Rightarrow>
   generated_transaction_object list \<Rightarrow> int \<Rightarrow> action \<Rightarrow> (bool \<times> int) res" where
  "check_native_action lib codec ctl db gtos delay act =
     (if act_account act = system_account_name then
        if act_name act = updateauth_name then
          res_bind (data_as system_account_name updateauth_name (unpack_updateauth codec) act) (\<lambda>u.
          res_bind (check_updateauth_authorization db u (act_authorization act)) (\<lambda>_. Inr (True, delay)))
        else if act_name act = deleteauth_name then
          res_bind (data_as system_account_name deleteauth_name (unpack_deleteauth codec) act) (\<lambda>d.
          res_bind (check_deleteauth_authorization db d (act_authorization act)) (\<lambda>_. Inr (True, delay)))
        else if act_name act = linkauth_name then
          res_bind (data_as system_account_name linkauth_name (unpack_linkauth codec) act) (\<lambda>l.
          res_bind (check_linkauth_authorization ctl db l (act_authorization act)) (\<lambda>_. Inr (True, delay)))
        else if act_name act = unlinkauth_name then
          res_bind (data_as system_account_name unlinkauth_name (unpack_unlinkauth codec) act) (\<lambda>u.
          res_bind (check_unlinkauth_authorization db u (act_authorization act)) (\<lambda>_. Inr (True, delay)))
        else if act_name act = canceldelay_name then
          res_bind (data_as system_account_name canceldelay_name (unpack_canceldelay codec) act) (\<lambda>c.
          res_bind (check_canceldelay_authorization lib db gtos c (act_authorization act)) (\<lambda>d.
          Inr (True, max delay d)))
        else Inr (False, delay)
      else Inr (False, delay))"

definition check_minimum_permission :: "'k authorization_db \<Rightarrow> action \<Rightarrow> permission_level \<Rightarrow> unit res" where
  "check_minimum_permission db act declared_auth =
     res_bind (lookup_minimum_permission db (fst declared_auth) (act_account act) (act_name act)) (\<lambda>min_permission_name.
     case min_permission_name of
       None \<Rightarrow> Inr ()
     | Some nm \<Rightarrow>
         res_bind (get_permission db (fst declared_auth, nm)) (\<lambda>min_permission.
         res_bind (get_permission db declared_auth) (\<lambda>p. assert_satisfies db p min_permission)))"

text \<open>The permissions that remain to be satisfied, each with the smallest delay of the actions that declare it.\<close>

type_synonym permissions_to_satisfy = "(permission_level, int) table"

definition add_to_satisfy :: "permission_level \<Rightarrow> int \<Rightarrow> permissions_to_satisfy \<Rightarrow> permissions_to_satisfy" where
  "add_to_satisfy auth delay t =
     (case tbl_find t auth of
        None \<Rightarrow> tbl_insert auth delay t
      | Some d \<Rightarrow> if d > delay then tbl_insert auth delay t else t)"

definition collect_permissions ::
  "('k, 's) trx_library \<Rightarrow> 'k native_codec \<Rightarrow> 'k authorization_control \<Rightarrow> 'k authorization_db \<Rightarrow>
   generated_transaction_object list \<Rightarrow> permission_level set \<Rightarrow> int \<Rightarrow> action \<Rightarrow>
   permissions_to_satisfy \<Rightarrow> permissions_to_satisfy res" where
  "collect_permissions lib codec ctl db gtos satisfied_authorizations effective_delay act t =
     res_bind (check_native_action lib codec ctl db gtos effective_delay act) (\<lambda>(special_case, delay).
     for_each (\<lambda>declared_auth t.
       res_bind (if special_case then Inr () else check_minimum_permission db act declared_auth) (\<lambda>_.
       Inr (if declared_auth \<notin> satisfied_authorizations then add_to_satisfy declared_auth delay t else t)))
       (act_authorization act) t)"

definition microseconds_maximum :: int where
  "microseconds_maximum = 2 ^ 63 - 1"

definition effective_provided_delay :: "'k authorization_control \<Rightarrow> int \<Rightarrow> int" where
  "effective_provided_delay ctl delay =
     (if delay \<ge> int (unat (ac_max_transaction_delay ctl)) * 1000000 then microseconds_maximum else delay)"

definition permission_authority :: "'k authorization_db \<Rightarrow> permission_level \<Rightarrow> 'k authority res" where
  "permission_authority db p = res_bind (get_permission db p) (\<lambda>po. Inr (po_auth po))"

definition satisfy_each ::
  "'k authority_checker \<Rightarrow> bool \<Rightarrow> permissions_to_satisfy \<Rightarrow> bool list \<Rightarrow> bool list res" where
  "satisfy_each checker check_but_dont_fail t used =
     for_each (\<lambda>(p, delay) used.
       res_bind (satisfied_level_delay checker p delay None used) (\<lambda>(r, cache, used).
       eos_assert (r \<or> check_but_dont_fail) unsatisfied_authorization (Inr used))) t used"

definition check_authorization ::
  "('k, 's) trx_library \<Rightarrow> 'k native_codec \<Rightarrow> 'k authorization_control \<Rightarrow> 'k authorization_db \<Rightarrow>
   generated_transaction_object list \<Rightarrow> action list \<Rightarrow> 'k list \<Rightarrow> permission_level list \<Rightarrow> int \<Rightarrow> bool \<Rightarrow> bool \<Rightarrow>
   permission_level set \<Rightarrow> unit res" where
  "check_authorization lib codec ctl db gtos actions keys perms delay allow_unused_keys check_but_dont_fail
       satisfied_authorizations =
     (let effective_delay = effective_provided_delay ctl delay;
          (checker, used) = make_auth_checker (permission_authority db) (ac_max_authority_depth ctl) keys perms effective_delay
      in res_bind (for_each (collect_permissions lib codec ctl db gtos satisfied_authorizations effective_delay) actions [])
           (\<lambda>permissions_to_satisfy.
         res_bind (satisfy_each checker check_but_dont_fail permissions_to_satisfy used) (\<lambda>used.
         if \<not> allow_unused_keys \<or> check_but_dont_fail
         then eos_assert (all_keys_used used) tx_irrelevant_sig (Inr ())
         else Inr ())))"

definition check_authorization_permission ::
  "'k authorization_control \<Rightarrow> 'k authorization_db \<Rightarrow> name \<Rightarrow> name \<Rightarrow> 'k list \<Rightarrow> permission_level list \<Rightarrow> int \<Rightarrow>
   bool \<Rightarrow> unit res" where
  "check_authorization_permission ctl db account permission keys perms delay allow_unused_keys =
     (let (checker, used) = make_auth_checker (permission_authority db) (ac_max_authority_depth ctl) keys perms
                              (effective_provided_delay ctl delay)
      in res_bind (satisfied_level checker (account, permission) None used) (\<lambda>(r, cache, used).
         eos_assert r unsatisfied_authorization
         (if \<not> allow_unused_keys then eos_assert (all_keys_used used) tx_irrelevant_sig (Inr ()) else Inr ())))"

definition get_required_keys ::
  "'k authorization_control \<Rightarrow> 'k authorization_db \<Rightarrow> transaction \<Rightarrow> 'k list \<Rightarrow> int \<Rightarrow> 'k list res" where
  "get_required_keys ctl db trx candidate_keys delay =
     (let (checker, used) = make_auth_checker (permission_authority db) (ac_max_authority_depth ctl) candidate_keys [] delay
      in res_bind (for_each (\<lambda>declared_auth used.
           res_bind (satisfied_level checker declared_auth None used) (\<lambda>(r, cache, used).
           eos_assert r unsatisfied_authorization (Inr used)))
           (concat (map act_authorization (trx_actions trx))) used) (\<lambda>used.
         Inr (used_keys checker used)))"

section \<open>What a successful check guarantees\<close>

text \<open>A longer delay grants at least as much.\<close>

lemma granted_delay_mono:
  assumes "d \<le> d'"
  shows "factor_ok (c\<lparr>provided_delay := d\<rparr>) f \<Longrightarrow> factor_ok (c\<lparr>provided_delay := d'\<rparr>) f"
    and "permission_ok (c\<lparr>provided_delay := d\<rparr>) p \<Longrightarrow> permission_ok (c\<lparr>provided_delay := d'\<rparr>) p"
    and "authority_ok (c\<lparr>provided_delay := d\<rparr>) a \<Longrightarrow> authority_ok (c\<lparr>provided_delay := d'\<rparr>) a"
proof (induction rule: factor_ok_permission_ok_authority_ok.inducts)
  case (ok_threshold S auth)
  then show ?case by (intro factor_ok_permission_ok_authority_ok.ok_threshold[of S auth]) auto
qed (use assms in \<open>auto intro: factor_ok_permission_ok_authority_ok.intros\<close>)

definition covered :: "permissions_to_satisfy \<Rightarrow> permission_level \<Rightarrow> int \<Rightarrow> bool" where
  "covered t auth delay \<longleftrightarrow> (\<exists>d \<le> delay. tbl_find t auth = Some d)"

lemma add_to_satisfy_wf: "tbl_wf t \<Longrightarrow> tbl_wf (add_to_satisfy auth delay t)"
  by (simp add: add_to_satisfy_def split: option.splits)

lemma add_to_satisfy_covers: "tbl_wf t \<Longrightarrow> covered (add_to_satisfy auth delay t) auth delay"
  by (auto simp: covered_def add_to_satisfy_def split: option.splits)

lemma add_to_satisfy_keeps:
  assumes "tbl_wf t" "covered t a d"
  shows "covered (add_to_satisfy auth delay t) a d"
  using assms by (auto simp: covered_def add_to_satisfy_def split: option.splits)

definition minimum_ok :: "'k authorization_db \<Rightarrow> action \<Rightarrow> permission_level \<Rightarrow> bool" where
  "minimum_ok db act auth \<longleftrightarrow>
     (\<exists>m. lookup_minimum_permission db (fst auth) (act_account act) (act_name act) = Inr m \<and>
        (m = None \<or>
         (\<exists>nm p q. m = Some nm \<and> get_permission db auth = Inr p \<and> get_permission db (fst auth, nm) = Inr q \<and>
            perm_ancestor (adb_permissions db) (po_id p) (po_id q))))"

lemma assert_satisfies_Inr:
  assumes "permissions_wf db" "get_permission db l1 = Inr p" "get_permission db l2 = Inr q"
  shows "assert_satisfies db p q = Inr u \<longleftrightarrow> fst l1 = fst l2 \<and> perm_ancestor (adb_permissions db) (po_id p) (po_id q)"
proof -
  have p: "tbl_find (adb_permissions db) (po_id p) = Some p" "po_id p \<noteq> 0" "po_owner p = fst l1"
    and q: "tbl_find (adb_permissions db) (po_id q) = Some q" "po_id q \<noteq> 0" "po_owner q = fst l2"
    using get_permission_row[OF assms(1,2)] get_permission_row[OF assms(1,3)] by auto
  show ?thesis using permission_satisfies_wf[OF assms(1) p(1,2) q(1,2)] p(3) q(3) by (simp add: assert_satisfies_def)
qed

lemma check_minimum_permission_ok:
  assumes wf: "permissions_wf db" and run: "check_minimum_permission db act auth = Inr u"
  shows "minimum_ok db act auth"
proof -
  obtain m where m: "lookup_minimum_permission db (fst auth) (act_account act) (act_name act) = Inr m"
      and rest: "(case m of None \<Rightarrow> Inr () | Some nm \<Rightarrow>
         res_bind (get_permission db (fst auth, nm)) (\<lambda>min_permission.
         res_bind (get_permission db auth) (\<lambda>p. assert_satisfies db p min_permission))) = Inr u"
    using run unfolding check_minimum_permission_def res_bind_Inr by blast
  show ?thesis
  proof (cases m)
    case None
    then show ?thesis using m by (auto simp: minimum_ok_def)
  next
    case (Some nm)
    then obtain p q where pq: "get_permission db (fst auth, nm) = Inr q" "get_permission db auth = Inr p"
        "assert_satisfies db p q = Inr u" using rest by auto
    then show ?thesis using m Some assert_satisfies_Inr[OF wf pq(2,1)] by (auto simp: minimum_ok_def)
  qed
qed

text \<open>One action: its native check has passed, and its authorizations are covered.\<close>

definition action_collected ::
  "('k, 's) trx_library \<Rightarrow> 'k native_codec \<Rightarrow> 'k authorization_control \<Rightarrow> 'k authorization_db \<Rightarrow>
   generated_transaction_object list \<Rightarrow> permission_level set \<Rightarrow> int \<Rightarrow> action \<Rightarrow> permissions_to_satisfy \<Rightarrow> bool" where
  "action_collected lib codec ctl db gtos satisfied_auths eff act t \<longleftrightarrow>
     (\<exists>special delay. check_native_action lib codec ctl db gtos eff act = Inr (special, delay) \<and>
        (\<forall>auth \<in> set (act_authorization act).
           (special \<or> minimum_ok db act auth) \<and> (auth \<in> satisfied_auths \<or> covered t auth delay)))"

lemma collect_loop:
  assumes wf: "permissions_wf db"
  shows "for_each (\<lambda>declared_auth t.
       res_bind (if special then Inr () else check_minimum_permission db act declared_auth) (\<lambda>_.
       Inr (if declared_auth \<notin> sat then add_to_satisfy declared_auth delay t else t))) auths t = Inr t' \<Longrightarrow> tbl_wf t \<Longrightarrow>
    tbl_wf t' \<and> (\<forall>a d. covered t a d \<longrightarrow> covered t' a d) \<and>
    (\<forall>auth \<in> set auths. (special \<or> minimum_ok db act auth) \<and> (auth \<in> sat \<or> covered t' auth delay))"
proof (induction auths arbitrary: t)
  case (Cons auth auths)
  define t1 where "t1 = (if auth \<notin> sat then add_to_satisfy auth delay t else t)"
  have ok: "special \<or> minimum_ok db act auth"
    using Cons.prems(1) check_minimum_permission_ok[OF wf] by (auto split: if_splits)
  have "tbl_wf t1" using Cons.prems(2) add_to_satisfy_wf by (simp add: t1_def)
  moreover have "for_each (\<lambda>declared_auth t.
       res_bind (if special then Inr () else check_minimum_permission db act declared_auth) (\<lambda>_.
       Inr (if declared_auth \<notin> sat then add_to_satisfy declared_auth delay t else t))) auths t1 = Inr t'"
    using Cons.prems(1) by (auto simp: t1_def)
  ultimately have ih: "tbl_wf t'" "\<forall>a d. covered t1 a d \<longrightarrow> covered t' a d"
      "\<forall>auth \<in> set auths. (special \<or> minimum_ok db act auth) \<and> (auth \<in> sat \<or> covered t' auth delay)"
    using Cons.IH[of t1] by blast+
  have "covered t1 a d" if "covered t a d" for a d using that Cons.prems(2) add_to_satisfy_keeps by (simp add: t1_def)
  then have keep: "\<forall>a d. covered t a d \<longrightarrow> covered t' a d" using ih(2) by blast
  have "auth \<in> sat \<or> covered t1 auth delay" using Cons.prems(2) add_to_satisfy_covers by (simp add: t1_def)
  then have "auth \<in> sat \<or> covered t' auth delay" using ih(2) by blast
  then show ?case unfolding list.set(2) using ih(1,3) ok keep by blast
qed simp

lemma collect_all:
  assumes wf: "permissions_wf db"
  shows "for_each (collect_permissions lib codec ctl db gtos sat eff) acts t = Inr t' \<Longrightarrow> tbl_wf t \<Longrightarrow>
    tbl_wf t' \<and> (\<forall>a d. covered t a d \<longrightarrow> covered t' a d) \<and>
    (\<forall>act \<in> set acts. action_collected lib codec ctl db gtos sat eff act t')"
proof (induction acts arbitrary: t)
  case (Cons act acts)
  obtain t1 where t1: "collect_permissions lib codec ctl db gtos sat eff act t = Inr t1"
      and run: "for_each (collect_permissions lib codec ctl db gtos sat eff) acts t1 = Inr t'"
    using Cons.prems(1) by auto
  obtain special delay where native: "check_native_action lib codec ctl db gtos eff act = Inr (special, delay)"
      and loop: "for_each (\<lambda>declared_auth t.
       res_bind (if special then Inr () else check_minimum_permission db act declared_auth) (\<lambda>_.
       Inr (if declared_auth \<notin> sat then add_to_satisfy declared_auth delay t else t))) (act_authorization act) t = Inr t1"
    using t1 by (auto simp: collect_permissions_def)
  note l = collect_loop[OF wf loop Cons.prems(2)]
  note ih = Cons.IH[OF run l[THEN conjunct1]]
  have "action_collected lib codec ctl db gtos sat eff act t'"
    unfolding action_collected_def using native l ih by blast
  then show ?case using ih l by auto
qed simp

lemma satisfy_each_ok:
  assumes "satisfy_each checker False t used = Inr used'" and "(p, delay) \<in> set t"
  shows "permission_ok (checker\<lparr>provided_delay := delay\<rparr>) p"
  using assms
proof (induction t arbitrary: used)
  case (Cons x t)
  obtain q d where x: "x = (q, d)" by (cases x)
  obtain cache used1 where step: "satisfied_level_delay checker q d None used = Inr (True, cache, used1)"
      and rest: "satisfy_each checker False t used1 = Inr used'"
    using Cons.prems(1) by (auto simp: satisfy_each_def x)
  show ?case
  proof (cases "(p, delay) = x")
    case True
    then show ?thesis using satisfied_level_ok[OF step[unfolded satisfied_level_delay_def]] x by simp
  next
    case False
    then show ?thesis using Cons.IH[OF rest] Cons.prems(2) by simp
  qed
qed simp

lemma check_authorization_actions:
  assumes wf: "permissions_wf db"
    and run: "check_authorization lib codec ctl db gtos actions keys perms delay allow_unused_keys False sat = Inr u"
    and act: "act \<in> set actions"
  shows "\<exists>special d. check_native_action lib codec ctl db gtos (effective_provided_delay ctl delay) act = Inr (special, d) \<and>
    (\<forall>auth \<in> set (act_authorization act).
       (special \<or> minimum_ok db act auth) \<and>
       (auth \<in> sat \<or>
        permission_ok \<lparr>permission_to_authority = permission_authority db, recursion_depth_limit = ac_max_authority_depth ctl,
          provided_keys = keys, provided_permissions = perms, provided_delay = d\<rparr> auth))"
proof -
  let ?eff = "effective_provided_delay ctl delay"
  define checker where "checker = fst (make_auth_checker (permission_authority db) (ac_max_authority_depth ctl) keys perms ?eff)"
  have upd: "checker\<lparr>provided_delay := d\<rparr> = \<lparr>permission_to_authority = permission_authority db,
      recursion_depth_limit = ac_max_authority_depth ctl, provided_keys = keys, provided_permissions = perms, provided_delay = d\<rparr>" for d
    by (simp add: checker_def make_auth_checker_def)
  obtain t used where t: "for_each (collect_permissions lib codec ctl db gtos sat ?eff) actions [] = Inr t"
      and s: "satisfy_each checker False t (replicate (length keys) False) = Inr used"
    using run by (auto simp: check_authorization_def Let_def checker_def make_auth_checker_def split: if_splits)
  note all = collect_all[OF wf t tbl_wf_Nil]
  obtain special d where sd: "check_native_action lib codec ctl db gtos ?eff act = Inr (special, d)"
      and auths: "\<forall>auth \<in> set (act_authorization act). (special \<or> minimum_ok db act auth) \<and> (auth \<in> sat \<or> covered t auth d)"
    using all act unfolding action_collected_def by blast
  have "permission_ok (checker\<lparr>provided_delay := d\<rparr>) auth" if cov: "covered t auth d" for auth
  proof -
    obtain d' where "d' \<le> d" "tbl_find t auth = Some d'" using cov by (auto simp: covered_def)
    then show ?thesis
      using granted_delay_mono(2)[OF \<open>d' \<le> d\<close>] satisfy_each_ok[OF s tbl_find_Some_mem] by blast
  qed
  then show ?thesis using sd auths unfolding upd by blast
qed

text \<open>
  C31. When the check of a transaction's authorizations succeeds, then every authorization that an action declares is
  granted, by itself or because it is already satisfied, under the keys, permissions and delay that were provided; and unless the action is one of the
  native ones with their own check, the declared permission is the one that the account requires for this action or an
  ancestor of it.
\<close>

theorem check_authorization_sound:
  assumes "permissions_reachable db"
    and "check_authorization lib codec ctl db gtos actions keys perms delay allow_unused_keys False sat = Inr ()"
    and "act \<in> set actions"
  shows "\<exists>special d. check_native_action lib codec ctl db gtos (effective_provided_delay ctl delay) act = Inr (special, d) \<and>
    (\<forall>auth \<in> set (act_authorization act).
       (special \<or> minimum_ok db act auth) \<and>
       (auth \<in> sat \<or>
        permission_ok \<lparr>permission_to_authority = permission_authority db, recursion_depth_limit = ac_max_authority_depth ctl,
          provided_keys = keys, provided_permissions = perms, provided_delay = d\<rparr> auth))"
  by (rule check_authorization_actions[OF permissions_reachable_wf[OF assms(1)] assms(2,3)])

text \<open>
  C32. A permission can only be changed with its own authority or that of one of its ancestors: a transaction that passes
  the check and updates an existing permission declares for that action exactly one authorization, of the
  account that owns the permission, by a permission at or above the changed one, and this authorization is granted.
\<close>

theorem updateauth_needs_ancestor:
  assumes "permissions_reachable db"
    and "check_authorization lib codec ctl db gtos actions keys perms delay allow_unused_keys False sat = Inr ()"
    and "act \<in> set actions" and "act_account act = system_account_name" and "act_name act = updateauth_name"
    and "unpack_updateauth codec (act_data act) = Inr u" and "get_permission db (ua_account u, ua_permission u) = Inr q"
  shows "\<exists>nm p. act_authorization act = [(ua_account u, nm)] \<and> get_permission db (ua_account u, nm) = Inr p \<and>
    perm_ancestor (adb_permissions db) (po_id p) (po_id q) \<and>
    ((ua_account u, nm) \<in> sat \<or>
     permission_ok \<lparr>permission_to_authority = permission_authority db, recursion_depth_limit = ac_max_authority_depth ctl,
       provided_keys = keys, provided_permissions = perms, provided_delay = effective_provided_delay ctl delay\<rparr> (ua_account u, nm))"
proof -
  note wf = permissions_reachable_wf[OF assms(1)]
  let ?eff = "effective_provided_delay ctl delay"
  obtain special d where native: "check_native_action lib codec ctl db gtos ?eff act = Inr (special, d)"
      and granted: "\<forall>auth \<in> set (act_authorization act). (special \<or> minimum_ok db act auth) \<and> (auth \<in> sat \<or>
        permission_ok \<lparr>permission_to_authority = permission_authority db, recursion_depth_limit = ac_max_authority_depth ctl,
          provided_keys = keys, provided_permissions = perms, provided_delay = d\<rparr> auth)"
    using check_authorization_actions[OF wf assms(2,3)] by blast
  have d: "d = ?eff" and chk: "check_updateauth_authorization db u (act_authorization act) = Inr ()"
    using native assms(4-6) by (auto simp: check_native_action_def data_as_def)
  have found: "find_permission db (ua_account u, ua_permission u) = Inr (Some q)"
    using assms(7) by (simp add: get_permission_Inr find_permission_def rethrow_exceptions_def name_empty_def)
  obtain nm where auths: "act_authorization act = [(ua_account u, nm)]"
    using chk by (cases "act_authorization act") (auto simp: check_updateauth_authorization_def Let_def)
  then obtain p where p: "get_permission db (ua_account u, nm) = Inr p" "assert_satisfies db p q = Inr ()"
    using chk found by (auto simp: check_updateauth_authorization_def Let_def)
  show ?thesis
    using auths p assert_satisfies_Inr[OF wf p(1) assms(7)] granted d by auto
qed

section \<open>Example\<close>

text \<open>The owner of account 7 updates its active permission; a second action needs the active permission.\<close>

definition example_update :: "nat updateauth" where
  "example_update = \<lparr>ua_account = 7, ua_permission = active_name, ua_parent = owner_name, ua_auth = authority_of_key 8 0\<rparr>"

definition example_native_codec :: "nat native_codec" where
  "example_native_codec =
     \<lparr>unpack_newaccount = (\<lambda>_. Inl unhandled_exception), unpack_setcode = (\<lambda>_. Inl unhandled_exception),
      unpack_setabi = (\<lambda>_. Inl unhandled_exception), unpack_updateauth = (\<lambda>_. Inr example_update),
      unpack_deleteauth = (\<lambda>_. Inl unhandled_exception), unpack_linkauth = (\<lambda>_. Inl unhandled_exception),
      unpack_unlinkauth = (\<lambda>_. Inl unhandled_exception), unpack_canceldelay = (\<lambda>_. Inl unhandled_exception)\<rparr>"

definition example_update_action :: action where
  "example_update_action = \<lparr>act_account = system_account_name, act_name = updateauth_name,
     act_authorization = [(7, owner_name)], act_data = []\<rparr>"

definition example_contract_action :: action where
  "example_contract_action = \<lparr>act_account = 9, act_name = 3, act_authorization = [(7, active_name)], act_data = []\<rparr>"

lemma example_check:
  "check_authorization example_trx_library example_native_codec example_control example_permissions []
     [example_update_action, example_contract_action] [3, 4] [] 0 False False {} = Inr ()"
  by code_simp

theorem check_authorization_sound_witness:
  "minimum_ok example_permissions example_contract_action (7, active_name)"
proof -
  have act: "example_contract_action \<in> set [example_update_action, example_contract_action]" by simp
  have "check_native_action example_trx_library example_native_codec example_control example_permissions []
      (effective_provided_delay example_control 0) example_contract_action = Inr (False, 0)" by code_simp
  moreover have "act_authorization example_contract_action = [(7, active_name)]" by (simp add: example_contract_action_def)
  ultimately show ?thesis using check_authorization_sound[OF example_permissions_reachable example_check act] by auto
qed

theorem updateauth_needs_ancestor_witness:
  "perm_ancestor (adb_permissions example_permissions) (po_id example_owner) (po_id example_active)"
proof -
  have perms: "get_permission example_permissions (7, owner_name) = Inr example_owner"
      "get_permission example_permissions (7, active_name) = Inr example_active"
    by (simp_all add: get_permission_Inr find_by_owner_def example_permissions_def authorization_initialize_database_def
        example_owner_def example_active_def names_distinct)
  then have q: "get_permission example_permissions (ua_account example_update, ua_permission example_update) = Inr example_active"
    by (simp add: example_update_def)
  have act: "example_update_action \<in> set [example_update_action, example_contract_action]"
      "act_account example_update_action = system_account_name" "act_name example_update_action = updateauth_name"
      "unpack_updateauth example_native_codec (act_data example_update_action) = Inr example_update"
    by (simp_all add: example_update_action_def example_native_codec_def)
  from updateauth_needs_ancestor[OF example_permissions_reachable example_check act q] perms show ?thesis
    by (auto simp: example_update_action_def example_update_def)
qed

end
