(* ===== verification/Contract_Tables.thy ===== *)
theory Contract_Tables
  imports Transactions Resource_Billing
begin

text \<open>
  The tables in which contracts keep their data: the primary index of \<^verbatim>\<open>apply_context.cpp\<close>
  (\<^verbatim>\<open>db_store_i64\<close> to \<^verbatim>\<open>db_end_i64\<close>) with the cache of iterators of \<^verbatim>\<open>apply_context.hpp\<close>, the rows of
  \<^verbatim>\<open>contract_table_objects.hpp\<close>, and the billing of the RAM that they occupy.
\<close>

abbreviation missing_auth_exception :: exn where
  "missing_auth_exception \<equiv> exception_class ''missing_auth_exception''"

abbreviation subjective_block_production_exception :: exn where
  "subjective_block_production_exception \<equiv> exception_class ''subjective_block_production_exception''"

abbreviation invalid_table_payer :: exn where
  "invalid_table_payer \<equiv> exception_class ''invalid_table_payer''"

abbreviation table_access_violation :: exn where
  "table_access_violation \<equiv> exception_class ''table_access_violation''"

abbreviation invalid_table_iterator :: exn where
  "invalid_table_iterator \<equiv> exception_class ''invalid_table_iterator''"

abbreviation table_not_in_cache :: exn where
  "table_not_in_cache \<equiv> exception_class ''table_not_in_cache''"

abbreviation table_operation_not_permitted :: exn where
  "table_operation_not_permitted \<equiv> exception_class ''table_operation_not_permitted''"

section \<open>Billable sizes\<close>

definition overhead_per_row_per_index_ram_bytes :: nat where
  "overhead_per_row_per_index_ram_bytes = 32"

definition billable_size_table_id_object :: nat where
  "billable_size_table_id_object = billable_size_v (44 + overhead_per_row_per_index_ram_bytes * 2)"

definition billable_size_key_value_object :: nat where
  "billable_size_key_value_object = billable_size_v (32 + 8 + 4 + overhead_per_row_per_index_ram_bytes * 2)"

lemma billable_sizes [simp]: "billable_size_table_id_object = 112" "billable_size_key_value_object = 112"
  by (simp_all add: billable_size_table_id_object_def billable_size_key_value_object_def billable_size_v_def
      billable_alignment_def overhead_per_row_per_index_ram_bytes_def)

section \<open>Secondary keys\<close>

text \<open>
  The five instances of the secondary index template. Floating-point keys are the bits of the number and
  are compared by the software floating-point library, whose functions are parameters.
\<close>

datatype index_kind = idx64 | idx128 | idx256 | idx_double | idx_long_double

definition index_kinds :: "index_kind list" where
  "index_kinds = [idx64, idx128, idx256, idx_double, idx_long_double]"

definition billable_size_index_object :: "index_kind \<Rightarrow> nat" where
  "billable_size_index_object kind = billable_size_v
     (24 + (case kind of idx64 \<Rightarrow> 8 | idx128 \<Rightarrow> 16 | idx256 \<Rightarrow> 32 | idx_double \<Rightarrow> 8 | idx_long_double \<Rightarrow> 16) +
      overhead_per_row_per_index_ram_bytes * 3)"

datatype secondary_key = key64 u64 | key128 u128 | key256 u128 u128 | key_double u64 | key_long_double u128

record float_library =
  f64_lt :: "u64 \<Rightarrow> u64 \<Rightarrow> bool"
  f128_lt :: "u128 \<Rightarrow> u128 \<Rightarrow> bool"
  f64_is_nan :: "u64 \<Rightarrow> bool"
  f128_is_nan :: "u128 \<Rightarrow> bool"

fun secondary_key_less :: "float_library \<Rightarrow> secondary_key \<Rightarrow> secondary_key \<Rightarrow> bool" where
  "secondary_key_less fl (key64 a) (key64 b) \<longleftrightarrow> a < b"
| "secondary_key_less fl (key128 a) (key128 b) \<longleftrightarrow> a < b"
| "secondary_key_less fl (key256 a0 a1) (key256 b0 b1) \<longleftrightarrow> a0 < b0 \<or> a0 = b0 \<and> a1 < b1"
| "secondary_key_less fl (key_double a) (key_double b) \<longleftrightarrow> f64_lt fl a b"
| "secondary_key_less fl (key_long_double a) (key_long_double b) \<longleftrightarrow> f128_lt fl a b"
| "secondary_key_less fl _ _ \<longleftrightarrow> False"

section \<open>Iterators\<close>

text \<open>
  The pointers of the cache stand for the rows they point to: a table is identified by its id and a row
  by its table and primary key, under which at most one row of an index is stored. End iterators count down from -2; -1 is no iterator.
\<close>

type_synonym row_key = "nat \<times> u64"

record iterator_cache =
  ic_table_cache :: "(nat, int) table"
  ic_end_iterator_to_table :: "nat list"
  ic_iterator_to_object :: "row_key option list"
  ic_object_to_iterator :: "(row_key, int) table"

definition iterator_cache_empty :: "iterator_cache" where
  "iterator_cache_empty = \<lparr>ic_table_cache = [], ic_end_iterator_to_table = [], ic_iterator_to_object = [],
     ic_object_to_iterator = []\<rparr>"

text \<open>The negation of the least \<^verbatim>\<open>int\<close> overflows. It is excluded by a precondition that no caller checks.\<close>

definition int_min :: int where
  "int_min = - 2147483648"

definition end_iterator_to_index :: "int \<Rightarrow> nat res" where
  "end_iterator_to_index ei = (if int_min < ei then Inr (nat (- ei - 2)) else Inl undefined_behavior)"

definition index_to_end_iterator :: "nat \<Rightarrow> int" where
  "index_to_end_iterator indx = - (int indx + 2)"

definition cache_table :: "nat \<Rightarrow> iterator_cache \<Rightarrow> int \<times> iterator_cache" where
  "cache_table t_id c =
     (case tbl_find (ic_table_cache c) t_id of
        Some ei \<Rightarrow> (ei, c)
      | None \<Rightarrow>
          let ei = index_to_end_iterator (length (ic_end_iterator_to_table c)) in
          (ei, c\<lparr>ic_end_iterator_to_table := ic_end_iterator_to_table c @ [t_id],
                 ic_table_cache := tbl_insert t_id ei (ic_table_cache c)\<rparr>))"

definition cache_get_table :: "nat \<Rightarrow> iterator_cache \<Rightarrow> nat res" where
  "cache_get_table i c = eos_assert (tbl_find (ic_table_cache c) i \<noteq> None) table_not_in_cache (Inr i)"

definition get_end_iterator_by_table_id :: "nat \<Rightarrow> iterator_cache \<Rightarrow> int res" where
  "get_end_iterator_by_table_id i c =
     (case tbl_find (ic_table_cache c) i of None \<Rightarrow> Inl table_not_in_cache | Some ei \<Rightarrow> Inr ei)"

definition find_table_by_end_iterator :: "int \<Rightarrow> iterator_cache \<Rightarrow> nat option res" where
  "find_table_by_end_iterator ei c =
     eos_assert (ei < -1) invalid_table_iterator
     (res_bind (end_iterator_to_index ei) (\<lambda>indx.
      Inr (if indx \<ge> length (ic_end_iterator_to_table c) then None else Some (ic_end_iterator_to_table c ! indx))))"

definition cache_get :: "int \<Rightarrow> iterator_cache \<Rightarrow> row_key res" where
  "cache_get iterator c =
     eos_assert (iterator \<noteq> -1) invalid_table_iterator
     (eos_assert (iterator \<ge> 0) table_operation_not_permitted
      (eos_assert (nat iterator < length (ic_iterator_to_object c)) invalid_table_iterator
       (case ic_iterator_to_object c ! nat iterator of
          None \<Rightarrow> Inl table_operation_not_permitted
        | Some obj \<Rightarrow> Inr obj)))"

definition cache_remove :: "int \<Rightarrow> iterator_cache \<Rightarrow> iterator_cache res" where
  "cache_remove iterator c =
     eos_assert (iterator \<noteq> -1) invalid_table_iterator
     (eos_assert (iterator \<ge> 0) table_operation_not_permitted
      (eos_assert (nat iterator < length (ic_iterator_to_object c)) invalid_table_iterator
       (case ic_iterator_to_object c ! nat iterator of
          None \<Rightarrow> Inr c
        | Some obj \<Rightarrow> Inr (c\<lparr>ic_iterator_to_object := (ic_iterator_to_object c)[nat iterator := None],
                             ic_object_to_iterator := tbl_remove obj (ic_object_to_iterator c)\<rparr>))))"

definition cache_add :: "row_key \<Rightarrow> iterator_cache \<Rightarrow> int \<times> iterator_cache" where
  "cache_add obj c =
     (case tbl_find (ic_object_to_iterator c) obj of
        Some i \<Rightarrow> (i, c)
      | None \<Rightarrow>
          let i = int (length (ic_iterator_to_object c)) in
          (i, c\<lparr>ic_iterator_to_object := ic_iterator_to_object c @ [Some obj],
                ic_object_to_iterator := tbl_insert obj i (ic_object_to_iterator c)\<rparr>))"

section \<open>Walking along an index\<close>

text \<open>Reading through a pointer to a table or row that is no longer in the database is undefined.\<close>

definition deref :: "('k, 'v) table \<Rightarrow> 'k \<Rightarrow> 'v res" where
  "deref tab k = (case tbl_find tab k of None \<Rightarrow> Inl undefined_behavior | Some v \<Rightarrow> Inr v)"

text \<open>
  An index is the list of the keys of its rows in its order. The increment and the decrement of an
  iterator of the index are the neighbours in this list, and there is an iterator to the rows of the index only.
\<close>

definition index_iterator_to :: "row_key list \<Rightarrow> row_key \<Rightarrow> row_key res" where
  "index_iterator_to order obj = (if obj \<in> set order then Inr obj else Inl undefined_behavior)"

fun following :: "'a list \<Rightarrow> 'a \<Rightarrow> 'a option" where
  "following (x # y # ys) k = (if x = k then Some y else following (y # ys) k)"
| "following _ k = None"

definition preceding :: "'a list \<Rightarrow> 'a \<Rightarrow> 'a option" where
  "preceding xs k = following (rev xs) k"

text \<open>The decrement of the upper bound of a table id: the last row of the table or of one before it.\<close>

definition last_up_to_table :: "row_key list \<Rightarrow> nat \<Rightarrow> row_key option" where
  "last_up_to_table order t_id = find (\<lambda>k. fst k \<le> t_id) (rev order)"

definition iterator_next :: "row_key list \<Rightarrow> int \<Rightarrow> iterator_cache \<Rightarrow> (int \<times> u64 option \<times> iterator_cache) res" where
  "iterator_next order iterator c =
     (if iterator < -1 then Inr (-1, None, c)
      else res_bind (res_bind (cache_get iterator c) (index_iterator_to order)) (\<lambda>k.
           case following order k of
             None \<Rightarrow> res_bind (get_end_iterator_by_table_id (fst k) c) (\<lambda>ei. Inr (ei, None, c))
           | Some k' \<Rightarrow>
               if fst k' \<noteq> fst k then res_bind (get_end_iterator_by_table_id (fst k) c) (\<lambda>ei. Inr (ei, None, c))
               else let (i, c) = cache_add k' c in Inr (i, Some (snd k'), c)))"

text \<open>
  Backwards from an end iterator the id is read from the table that the cache points to. The cache keeps the
  pointer when the table is removed.
\<close>

definition iterator_previous ::
  "(nat, 't) table \<Rightarrow> row_key list \<Rightarrow> int \<Rightarrow> iterator_cache \<Rightarrow> (int \<times> u64 option \<times> iterator_cache) res" where
  "iterator_previous tables order iterator c =
     (if iterator < -1 then
        res_bind (find_table_by_end_iterator iterator c) (\<lambda>tab.
        case tab of
          None \<Rightarrow> Inl invalid_table_iterator
        | Some t_id \<Rightarrow> res_bind (deref tables t_id) (\<lambda>_.
            case last_up_to_table order t_id of
              None \<Rightarrow> Inr (-1, None, c)
            | Some k \<Rightarrow>
                if fst k \<noteq> t_id then Inr (-1, None, c)
                else let (i, c) = cache_add k c in Inr (i, Some (snd k), c)))
      else res_bind (res_bind (cache_get iterator c) (index_iterator_to order)) (\<lambda>k.
           case preceding order k of
             None \<Rightarrow> Inr (-1, None, c)
           | Some k' \<Rightarrow>
               if fst k' \<noteq> fst k then Inr (-1, None, c)
               else let (i, c) = cache_add k' c in Inr (i, Some (snd k'), c)))"

text \<open>A search in a table: the row found if it is one of the table, and the end of the table otherwise.\<close>

definition iterator_found :: "nat \<Rightarrow> row_key option \<Rightarrow> iterator_cache \<Rightarrow> int \<times> row_key option \<times> iterator_cache" where
  "iterator_found t_id itr c =
     (let (table_end_itr, c) = cache_table t_id c in
      case itr of
        None \<Rightarrow> (table_end_itr, None, c)
      | Some k \<Rightarrow> if fst k \<noteq> t_id then (table_end_itr, None, c)
                  else let (i, c) = cache_add k c in (i, Some k, c))"

section \<open>Tables and rows\<close>

record table_id_object =
  ti_code :: name
  ti_scope :: name
  ti_table :: name
  ti_payer :: name
  ti_count :: u32

record key_value_object =
  kv_payer :: name
  kv_value :: bytes

record index_object =
  io_payer :: name
  io_secondary_key :: secondary_key

text \<open>The rows of every index under their table and primary key, in the order of these.\<close>

record contract_db =
  cd_tables :: "(nat, table_id_object) table"
  cd_next_table :: nat
  cd_rows :: "(row_key, key_value_object) table"
  cd_secondary :: "index_kind \<Rightarrow> (row_key, index_object) table"

record contract_state =
  cs_resources :: resource_db
  cs_db :: contract_db
  cs_keyval_cache :: iterator_cache
  cs_itr_cache :: "index_kind \<Rightarrow> iterator_cache"
  cs_account_ram_deltas :: "(name, i64) table"
  cs_validate_ram_usage :: "name set"

text \<open>What is fixed while an action runs: its receiver and data, and what the controller answers.\<close>

record apply_env =
  ae_receiver :: name
  ae_act :: action
  ae_privileged :: bool
  ae_ram_restrictions :: bool
  ae_ram_billing_in_notify_allowed :: bool

definition require_authorization :: "apply_env \<Rightarrow> name \<Rightarrow> unit res" where
  "require_authorization env account =
     eos_assert (list_ex (\<lambda>auth. fst auth = account) (act_authorization (ae_act env))) missing_auth_exception (Inr ())"

subsection \<open>Billing\<close>

definition trx_add_ram_usage :: "name \<Rightarrow> i64 \<Rightarrow> contract_state \<Rightarrow> contract_state res" where
  "trx_add_ram_usage account ram_delta st =
     res_bind (add_pending_ram_usage account ram_delta (cs_resources st)) (\<lambda>rl.
     Inr (st\<lparr>cs_resources := rl,
             cs_validate_ram_usage := (if 0 <s ram_delta then insert account (cs_validate_ram_usage st)
                                       else cs_validate_ram_usage st)\<rparr>))"

definition add_ram_usage :: "name \<Rightarrow> i64 \<Rightarrow> contract_state \<Rightarrow> contract_state res" where
  "add_ram_usage account ram_delta st =
     res_bind (trx_add_ram_usage account ram_delta st) (\<lambda>st.
     Inr (st\<lparr>cs_account_ram_deltas :=
       (case tbl_find (cs_account_ram_deltas st) account of
          None \<Rightarrow> tbl_insert account ram_delta (cs_account_ram_deltas st)
        | Some delta \<Rightarrow> tbl_insert account (delta + ram_delta) (cs_account_ram_deltas st))\<rparr>))"

definition update_db_usage :: "apply_env \<Rightarrow> name \<Rightarrow> i64 \<Rightarrow> contract_state \<Rightarrow> contract_state res" where
  "update_db_usage env payer delta st =
     res_bind
       (if 0 <s delta \<and> \<not> (ae_privileged env \<or> payer = ae_receiver env \<or> ae_ram_restrictions env) then
          eos_assert (ae_ram_billing_in_notify_allowed env \<or> ae_receiver env = act_account (ae_act env))
            subjective_block_production_exception (require_authorization env payer)
        else Inr ()) (\<lambda>_.
     add_ram_usage payer delta st)"

subsection \<open>Tables\<close>

definition find_table :: "contract_db \<Rightarrow> name \<Rightarrow> name \<Rightarrow> name \<Rightarrow> nat option" where
  "find_table db code scope tab =
     map_option fst (find (\<lambda>(i, t). ti_code t = code \<and> ti_scope t = scope \<and> ti_table t = tab) (cd_tables db))"

definition find_or_create_table ::
  "apply_env \<Rightarrow> name \<Rightarrow> name \<Rightarrow> name \<Rightarrow> name \<Rightarrow> contract_state \<Rightarrow> (nat \<times> contract_state) res" where
  "find_or_create_table env code scope tab payer st =
     (case find_table (cs_db st) code scope tab of
        Some i \<Rightarrow> Inr (i, st)
      | None \<Rightarrow>
          res_bind (update_db_usage env payer (word_of_nat billable_size_table_id_object) st) (\<lambda>st.
          let db = cs_db st;
              i = cd_next_table db;
              t = \<lparr>ti_code = code, ti_scope = scope, ti_table = tab, ti_payer = payer, ti_count = 0\<rparr>
          in Inr (i, st\<lparr>cs_db := db\<lparr>cd_tables := tbl_insert i t (cd_tables db), cd_next_table := Suc i\<rparr>\<rparr>)))"

definition remove_table :: "apply_env \<Rightarrow> nat \<Rightarrow> table_id_object \<Rightarrow> contract_state \<Rightarrow> contract_state res" where
  "remove_table env i tid st =
     res_bind (update_db_usage env (ti_payer tid) (- word_of_nat billable_size_table_id_object) st) (\<lambda>st.
     let db = cs_db st in
     Inr (st\<lparr>cs_db := db\<lparr>cd_tables := tbl_remove i (cd_tables db)\<rparr>\<rparr>))"

text \<open>One more and one less in the count of a table; a table without rows is removed.\<close>

definition increment_count :: "nat \<Rightarrow> contract_db \<Rightarrow> contract_db res" where
  "increment_count i db =
     res_bind (deref (cd_tables db) i) (\<lambda>t.
     Inr (db\<lparr>cd_tables := tbl_insert i (t\<lparr>ti_count := ti_count t + 1\<rparr>) (cd_tables db)\<rparr>))"

definition decrement_count :: "nat \<Rightarrow> contract_db \<Rightarrow> (table_id_object \<times> contract_db) res" where
  "decrement_count i db =
     res_bind (deref (cd_tables db) i) (\<lambda>t.
     let t = t\<lparr>ti_count := ti_count t - 1\<rparr> in
     Inr (t, db\<lparr>cd_tables := tbl_insert i t (cd_tables db)\<rparr>))"

section \<open>The primary index\<close>

definition db_store_i64 ::
  "apply_env \<Rightarrow> name \<Rightarrow> name \<Rightarrow> name \<Rightarrow> name \<Rightarrow> u64 \<Rightarrow> bytes \<Rightarrow> contract_state \<Rightarrow> (int \<times> contract_state) res" where
  "db_store_i64 env code scope tab payer i buffer st =
     res_bind (find_or_create_table env code scope tab payer st) (\<lambda>(tableid, st).
     eos_assert (payer \<noteq> 0) invalid_table_payer
     (res_bind (tbl_create (tableid, i) \<lparr>kv_payer = payer, kv_value = buffer\<rparr> (cd_rows (cs_db st))) (\<lambda>rows.
      res_bind (increment_count tableid ((cs_db st)\<lparr>cd_rows := rows\<rparr>)) (\<lambda>db.
      let billable_size = word_of_nat (length buffer + billable_size_key_value_object) in
      res_bind (update_db_usage env payer billable_size (st\<lparr>cs_db := db\<rparr>)) (\<lambda>st.
      let (ei, c) = cache_table tableid (cs_keyval_cache st);
          (itr, c) = cache_add (tableid, i) c
      in Inr (itr, st\<lparr>cs_keyval_cache := c\<rparr>))))))"

definition db_update_i64 :: "apply_env \<Rightarrow> int \<Rightarrow> name \<Rightarrow> bytes \<Rightarrow> contract_state \<Rightarrow> contract_state res" where
  "db_update_i64 env iterator payer buffer st =
     res_bind (cache_get iterator (cs_keyval_cache st)) (\<lambda>k.
     res_bind (deref (cd_rows (cs_db st)) k) (\<lambda>obj.
     res_bind (cache_get_table (fst k) (cs_keyval_cache st)) (\<lambda>t_id.
     res_bind (deref (cd_tables (cs_db st)) t_id) (\<lambda>table_obj.
     eos_assert (ti_code table_obj = ae_receiver env) table_access_violation
     (let overhead = billable_size_key_value_object;
          old_size = word_of_nat (length (kv_value obj) + overhead) :: i64;
          new_size = word_of_nat (length buffer + overhead) :: i64;
          payer = (if payer = 0 then kv_payer obj else payer)
      in res_bind
           (if kv_payer obj \<noteq> payer then
              res_bind (update_db_usage env (kv_payer obj) (- old_size) st) (update_db_usage env payer new_size)
            else if old_size \<noteq> new_size then update_db_usage env (kv_payer obj) (new_size - old_size) st
            else Inr st) (\<lambda>st.
         let db = cs_db st in
         Inr (st\<lparr>cs_db := db\<lparr>cd_rows := tbl_insert k \<lparr>kv_payer = payer, kv_value = buffer\<rparr> (cd_rows db)\<rparr>\<rparr>)))))))"

definition db_remove_i64 :: "apply_env \<Rightarrow> int \<Rightarrow> contract_state \<Rightarrow> contract_state res" where
  "db_remove_i64 env iterator st =
     res_bind (cache_get iterator (cs_keyval_cache st)) (\<lambda>k.
     res_bind (deref (cd_rows (cs_db st)) k) (\<lambda>obj.
     res_bind (cache_get_table (fst k) (cs_keyval_cache st)) (\<lambda>t_id.
     res_bind (deref (cd_tables (cs_db st)) t_id) (\<lambda>table_obj.
     eos_assert (ti_code table_obj = ae_receiver env) table_access_violation
     (res_bind (update_db_usage env (kv_payer obj) (- word_of_nat (length (kv_value obj) + billable_size_key_value_object)) st) (\<lambda>st.
      res_bind (decrement_count t_id (cs_db st)) (\<lambda>(table_obj, db).
      let st = st\<lparr>cs_db := db\<lparr>cd_rows := tbl_remove k (cd_rows db)\<rparr>\<rparr> in
      res_bind (if ti_count table_obj = 0 then remove_table env t_id table_obj st else Inr st) (\<lambda>st.
      res_bind (cache_remove iterator (cs_keyval_cache st)) (\<lambda>c.
      Inr (st\<lparr>cs_keyval_cache := c\<rparr>))))))))))"

text \<open>
  The size of the value if the buffer has no room, and otherwise the part of the value that fits the
  buffer, with its size.
\<close>

definition db_get_i64 :: "int \<Rightarrow> nat \<Rightarrow> contract_state \<Rightarrow> (int \<times> bytes) res" where
  "db_get_i64 iterator buffer_size st =
     res_bind (cache_get iterator (cs_keyval_cache st)) (\<lambda>k.
     res_bind (deref (cd_rows (cs_db st)) k) (\<lambda>obj.
     let s = length (kv_value obj) in
     if buffer_size = 0 then Inr (int s, [])
     else let copy_size = min buffer_size s in Inr (int copy_size, take copy_size (kv_value obj))))"

definition by_scope_primary :: "contract_db \<Rightarrow> row_key list" where
  "by_scope_primary db = map fst (cd_rows db)"

definition db_next_i64 :: "int \<Rightarrow> contract_state \<Rightarrow> (int \<times> u64 option \<times> contract_state) res" where
  "db_next_i64 iterator st =
     res_bind (iterator_next (by_scope_primary (cs_db st)) iterator (cs_keyval_cache st)) (\<lambda>(i, primary, c).
     Inr (i, primary, st\<lparr>cs_keyval_cache := c\<rparr>))"

definition db_previous_i64 :: "int \<Rightarrow> contract_state \<Rightarrow> (int \<times> u64 option \<times> contract_state) res" where
  "db_previous_i64 iterator st =
     res_bind (iterator_previous (cd_tables (cs_db st)) (by_scope_primary (cs_db st)) iterator (cs_keyval_cache st)) (\<lambda>(i, primary, c).
     Inr (i, primary, st\<lparr>cs_keyval_cache := c\<rparr>))"

definition db_search :: "(nat \<Rightarrow> row_key option) \<Rightarrow> name \<Rightarrow> name \<Rightarrow> name \<Rightarrow> contract_state \<Rightarrow> int \<times> contract_state" where
  "db_search search code scope tab st =
     (case find_table (cs_db st) code scope tab of
        None \<Rightarrow> (-1, st)
      | Some t_id \<Rightarrow>
          let (i, k, c) = iterator_found t_id (search t_id) (cs_keyval_cache st) in
          (i, st\<lparr>cs_keyval_cache := c\<rparr>))"

definition db_find_i64 :: "name \<Rightarrow> name \<Rightarrow> name \<Rightarrow> u64 \<Rightarrow> contract_state \<Rightarrow> int \<times> contract_state" where
  "db_find_i64 code scope tab i st =
     db_search (\<lambda>t_id. find (\<lambda>k. k = (t_id, i)) (by_scope_primary (cs_db st))) code scope tab st"

definition db_lowerbound_i64 :: "name \<Rightarrow> name \<Rightarrow> name \<Rightarrow> u64 \<Rightarrow> contract_state \<Rightarrow> int \<times> contract_state" where
  "db_lowerbound_i64 code scope tab i st =
     db_search (\<lambda>t_id. find (\<lambda>k. (t_id, i) \<le> k) (by_scope_primary (cs_db st))) code scope tab st"

definition db_upperbound_i64 :: "name \<Rightarrow> name \<Rightarrow> name \<Rightarrow> u64 \<Rightarrow> contract_state \<Rightarrow> int \<times> contract_state" where
  "db_upperbound_i64 code scope tab i st =
     db_search (\<lambda>t_id. find (\<lambda>k. (t_id, i) < k) (by_scope_primary (cs_db st))) code scope tab st"

definition db_end_i64 :: "name \<Rightarrow> name \<Rightarrow> name \<Rightarrow> contract_state \<Rightarrow> int \<times> contract_state" where
  "db_end_i64 code scope tab st = db_search (\<lambda>t_id. None) code scope tab st"

section \<open>Secondary indices\<close>

definition index_store ::
  "index_kind \<Rightarrow> apply_env \<Rightarrow> name \<Rightarrow> name \<Rightarrow> name \<Rightarrow> u64 \<Rightarrow> secondary_key \<Rightarrow> contract_state \<Rightarrow> (int \<times> contract_state) res" where
  "index_store kind env scope tab payer i value st =
     eos_assert (payer \<noteq> 0) invalid_table_payer
     (res_bind (find_or_create_table env (ae_receiver env) scope tab payer st) (\<lambda>(tableid, st).
      res_bind (tbl_create (tableid, i) \<lparr>io_payer = payer, io_secondary_key = value\<rparr> (cd_secondary (cs_db st) kind)) (\<lambda>rows.
      res_bind (increment_count tableid ((cs_db st)\<lparr>cd_secondary := (cd_secondary (cs_db st))(kind := rows)\<rparr>)) (\<lambda>db.
      res_bind (update_db_usage env payer (word_of_nat (billable_size_index_object kind)) (st\<lparr>cs_db := db\<rparr>)) (\<lambda>st.
      let (ei, c) = cache_table tableid (cs_itr_cache st kind);
          (itr, c) = cache_add (tableid, i) c
      in Inr (itr, st\<lparr>cs_itr_cache := (cs_itr_cache st)(kind := c)\<rparr>))))))"

definition index_remove :: "index_kind \<Rightarrow> apply_env \<Rightarrow> int \<Rightarrow> contract_state \<Rightarrow> contract_state res" where
  "index_remove kind env iterator st =
     res_bind (cache_get iterator (cs_itr_cache st kind)) (\<lambda>k.
     res_bind (deref (cd_secondary (cs_db st) kind) k) (\<lambda>obj.
     res_bind (cache_get_table (fst k) (cs_itr_cache st kind)) (\<lambda>t_id.
     res_bind (deref (cd_tables (cs_db st)) t_id) (\<lambda>table_obj.
     eos_assert (ti_code table_obj = ae_receiver env) table_access_violation
     (res_bind (update_db_usage env (io_payer obj) (- word_of_nat (billable_size_index_object kind)) st) (\<lambda>st.
      res_bind (decrement_count t_id (cs_db st)) (\<lambda>(table_obj, db).
      let st = st\<lparr>cs_db := db\<lparr>cd_secondary := (cd_secondary db)(kind := tbl_remove k (cd_secondary db kind))\<rparr>\<rparr> in
      res_bind (if ti_count table_obj = 0 then remove_table env t_id table_obj st else Inr st) (\<lambda>st.
      res_bind (cache_remove iterator (cs_itr_cache st kind)) (\<lambda>c.
      Inr (st\<lparr>cs_itr_cache := (cs_itr_cache st)(kind := c)\<rparr>))))))))))"

definition index_update :: "index_kind \<Rightarrow> apply_env \<Rightarrow> int \<Rightarrow> name \<Rightarrow> secondary_key \<Rightarrow> contract_state \<Rightarrow> contract_state res" where
  "index_update kind env iterator payer secondary st =
     res_bind (cache_get iterator (cs_itr_cache st kind)) (\<lambda>k.
     res_bind (deref (cd_secondary (cs_db st) kind) k) (\<lambda>obj.
     res_bind (cache_get_table (fst k) (cs_itr_cache st kind)) (\<lambda>t_id.
     res_bind (deref (cd_tables (cs_db st)) t_id) (\<lambda>table_obj.
     eos_assert (ti_code table_obj = ae_receiver env) table_access_violation
     (let payer = (if payer = 0 then io_payer obj else payer);
          billing_size = word_of_nat (billable_size_index_object kind) :: i64
      in res_bind
           (if io_payer obj \<noteq> payer then
              res_bind (update_db_usage env (io_payer obj) (- billing_size) st) (update_db_usage env payer billing_size)
            else Inr st) (\<lambda>st.
         let db = cs_db st in
         Inr (st\<lparr>cs_db := db\<lparr>cd_secondary := (cd_secondary db)(kind :=
           tbl_insert k \<lparr>io_payer = payer, io_secondary_key = secondary\<rparr> (cd_secondary db kind))\<rparr>\<rparr>)))))))"

text \<open>The two orders of the index: by table and primary key, and by table, secondary key and primary key.\<close>

definition by_primary :: "contract_db \<Rightarrow> index_kind \<Rightarrow> row_key list" where
  "by_primary db kind = map fst (cd_secondary db kind)"

definition secondary_before :: "float_library \<Rightarrow> row_key \<times> index_object \<Rightarrow> row_key \<times> index_object \<Rightarrow> bool" where
  "secondary_before fl = (\<lambda>((t1, p1), o1) ((t2, p2), o2).
     t1 < t2 \<or> t1 = t2 \<and> (secondary_key_less fl (io_secondary_key o1) (io_secondary_key o2) \<or>
       \<not> secondary_key_less fl (io_secondary_key o2) (io_secondary_key o1) \<and> p1 < p2))"

fun insert_before :: "('a \<Rightarrow> 'a \<Rightarrow> bool) \<Rightarrow> 'a \<Rightarrow> 'a list \<Rightarrow> 'a list" where
  "insert_before before x [] = [x]"
| "insert_before before x (y # ys) = (if before y x then y # insert_before before x ys else x # y # ys)"

definition by_secondary :: "float_library \<Rightarrow> contract_db \<Rightarrow> index_kind \<Rightarrow> (row_key \<times> index_object) list" where
  "by_secondary fl db kind = foldr (insert_before (secondary_before fl)) (cd_secondary db kind) []"

definition index_search ::
  "index_kind \<Rightarrow> (nat \<Rightarrow> row_key option) \<Rightarrow> name \<Rightarrow> name \<Rightarrow> name \<Rightarrow> contract_state \<Rightarrow> int \<times> row_key option \<times> contract_state" where
  "index_search kind search code scope tab st =
     (case find_table (cs_db st) code scope tab of
        None \<Rightarrow> (-1, None, st)
      | Some t_id \<Rightarrow>
          let (i, k, c) = iterator_found t_id (search t_id) (cs_itr_cache st kind) in
          (i, k, st\<lparr>cs_itr_cache := (cs_itr_cache st)(kind := c)\<rparr>))"

text \<open>Where the code also hands out the keys of the row found, the model returns its key in the index.\<close>

definition find_secondary where
  "find_secondary fl kind code scope tab secondary st =
     index_search kind (\<lambda>t_id. map_option fst (find (\<lambda>(k, obj). fst k = t_id \<and>
         \<not> secondary_key_less fl (io_secondary_key obj) secondary \<and> \<not> secondary_key_less fl secondary (io_secondary_key obj))
       (by_secondary fl (cs_db st) kind))) code scope tab st"

definition lowerbound_secondary where
  "lowerbound_secondary fl kind code scope tab secondary st =
     index_search kind (\<lambda>t_id. map_option fst (find (\<lambda>(k, obj). t_id < fst k \<or> t_id = fst k \<and>
         \<not> secondary_key_less fl (io_secondary_key obj) secondary)
       (by_secondary fl (cs_db st) kind))) code scope tab st"

definition upperbound_secondary where
  "upperbound_secondary fl kind code scope tab secondary st =
     index_search kind (\<lambda>t_id. map_option fst (find (\<lambda>(k, obj). t_id < fst k \<or> t_id = fst k \<and>
         secondary_key_less fl secondary (io_secondary_key obj))
       (by_secondary fl (cs_db st) kind))) code scope tab st"

definition end_secondary where
  "end_secondary kind code scope tab st = index_search kind (\<lambda>t_id. None) code scope tab st"

definition index_walk where
  "index_walk kind walk st =
     res_bind (walk (cs_itr_cache st kind)) (\<lambda>(i, primary, c).
     Inr (i, primary, st\<lparr>cs_itr_cache := (cs_itr_cache st)(kind := c)\<rparr>))"

definition next_secondary :: "float_library \<Rightarrow> index_kind \<Rightarrow> int \<Rightarrow> contract_state \<Rightarrow> (int \<times> u64 option \<times> contract_state) res" where
  "next_secondary fl kind iterator st =
     index_walk kind (iterator_next (map fst (by_secondary fl (cs_db st) kind)) iterator) st"

definition previous_secondary :: "float_library \<Rightarrow> index_kind \<Rightarrow> int \<Rightarrow> contract_state \<Rightarrow> (int \<times> u64 option \<times> contract_state) res" where
  "previous_secondary fl kind iterator st =
     index_walk kind (iterator_previous (cd_tables (cs_db st)) (map fst (by_secondary fl (cs_db st) kind)) iterator) st"

definition find_primary where
  "find_primary kind code scope tab primary st =
     index_search kind (\<lambda>t_id. find (\<lambda>k. k = (t_id, primary)) (by_primary (cs_db st) kind)) code scope tab st"

definition lowerbound_primary where
  "lowerbound_primary kind code scope tab primary st =
     index_search kind (\<lambda>t_id. find (\<lambda>k. (t_id, primary) \<le> k) (by_primary (cs_db st) kind)) code scope tab st"

definition upperbound_primary where
  "upperbound_primary kind code scope tab primary st =
     index_search kind (\<lambda>t_id. find (\<lambda>k. (t_id, primary) < k) (by_primary (cs_db st) kind)) code scope tab st"

definition next_primary :: "index_kind \<Rightarrow> int \<Rightarrow> contract_state \<Rightarrow> (int \<times> u64 option \<times> contract_state) res" where
  "next_primary kind iterator st = index_walk kind (iterator_next (by_primary (cs_db st) kind) iterator) st"

definition previous_primary :: "index_kind \<Rightarrow> int \<Rightarrow> contract_state \<Rightarrow> (int \<times> u64 option \<times> contract_state) res" where
  "previous_primary kind iterator st =
     index_walk kind (iterator_previous (cd_tables (cs_db st)) (by_primary (cs_db st) kind) iterator) st"

definition index_get :: "index_kind \<Rightarrow> int \<Rightarrow> contract_state \<Rightarrow> (u64 \<times> secondary_key) res" where
  "index_get kind iterator st =
     res_bind (cache_get iterator (cs_itr_cache st kind)) (\<lambda>k.
     res_bind (deref (cd_secondary (cs_db st) kind) k) (\<lambda>obj.
     Inr (snd k, io_secondary_key obj)))"

end
