(* ===== verification/Iterator_Cache.thy ===== *)
theory Iterator_Cache
  imports Contract_Tables
begin

text \<open>
  The cache of iterators: every iterator that it hands out stays valid until its own row is removed, an
  iterator and a row determine each other, and so do an end iterator and a table. An end iterator outlives its
  table, and a walk backwards from it is then undefined.
\<close>

definition cache_wf :: "row_key set \<Rightarrow> iterator_cache \<Rightarrow> bool" where
  "cache_wf K c \<longleftrightarrow>
     tbl_wf (ic_table_cache c) \<and> tbl_wf (ic_object_to_iterator c) \<and>
     (\<forall>j < length (ic_end_iterator_to_table c).
        tbl_find (ic_table_cache c) (ic_end_iterator_to_table c ! j) = Some (index_to_end_iterator j)) \<and>
     (\<forall>t ei. tbl_find (ic_table_cache c) t = Some ei \<longrightarrow>
        (\<exists>j < length (ic_end_iterator_to_table c). ei = index_to_end_iterator j \<and> ic_end_iterator_to_table c ! j = t)) \<and>
     (\<forall>i k. i < length (ic_iterator_to_object c) \<longrightarrow> ic_iterator_to_object c ! i = Some k \<longrightarrow>
        k \<in> K \<and> tbl_find (ic_table_cache c) (fst k) \<noteq> None \<and> tbl_find (ic_object_to_iterator c) k = Some (int i)) \<and>
     (\<forall>k i. tbl_find (ic_object_to_iterator c) k = Some i \<longrightarrow>
        0 \<le> i \<and> nat i < length (ic_iterator_to_object c) \<and> ic_iterator_to_object c ! nat i = Some k)"

lemma cache_wf_empty [simp]: "cache_wf K iterator_cache_empty"
  by (simp add: cache_wf_def iterator_cache_empty_def)

lemma cache_wf_mono: "cache_wf K c \<Longrightarrow> K \<subseteq> K' \<Longrightarrow> cache_wf K' c"
  unfolding cache_wf_def by blast

lemma cache_wf_object:
  "cache_wf K c \<Longrightarrow> i < length (ic_iterator_to_object c) \<Longrightarrow> ic_iterator_to_object c ! i = Some k \<Longrightarrow>
   k \<in> K \<and> tbl_find (ic_table_cache c) (fst k) \<noteq> None \<and> tbl_find (ic_object_to_iterator c) k = Some (int i)"
  unfolding cache_wf_def by blast

lemma cache_wf_iterator:
  "cache_wf K c \<Longrightarrow> tbl_find (ic_object_to_iterator c) k = Some i \<Longrightarrow>
   0 \<le> i \<and> nat i < length (ic_iterator_to_object c) \<and> ic_iterator_to_object c ! nat i = Some k"
  unfolding cache_wf_def by blast

lemma cache_wf_tables: "cache_wf K c \<Longrightarrow> tbl_wf (ic_table_cache c) \<and> tbl_wf (ic_object_to_iterator c)"
  unfolding cache_wf_def by blast

lemma end_iterator_index [simp]: "j < 2147483646 \<Longrightarrow> end_iterator_to_index (index_to_end_iterator j) = Inr j"
  by (simp add: end_iterator_to_index_def index_to_end_iterator_def int_min_def)

text \<open>The caches are not so large that an iterator does not fit an \<^verbatim>\<open>int\<close>.\<close>

definition cache_fits :: "iterator_cache \<Rightarrow> bool" where
  "cache_fits c \<longleftrightarrow> length (ic_end_iterator_to_table c) < 2147483647 \<and> length (ic_iterator_to_object c) \<le> 2147483648"

lemma cache_fits_empty [simp]: "cache_fits iterator_cache_empty"
  by (simp add: cache_fits_def iterator_cache_empty_def)

lemma end_iterator_less [simp]: "index_to_end_iterator j < -1"
  by (simp add: index_to_end_iterator_def)

section \<open>What the cache answers\<close>

lemma cache_get_Inr:
  "cache_get i c = Inr k \<longleftrightarrow> 0 \<le> i \<and> nat i < length (ic_iterator_to_object c) \<and> ic_iterator_to_object c ! nat i = Some k"
  by (auto simp: cache_get_def split: option.splits)

lemma cache_get_cached:
  assumes "cache_wf K c" and "cache_get i c = Inr k"
  shows "k \<in> K" "\<exists>ei. tbl_find (ic_table_cache c) (fst k) = Some ei"
    "tbl_find (ic_object_to_iterator c) k = Some i"
proof -
  have i: "0 \<le> i" "nat i < length (ic_iterator_to_object c)" "ic_iterator_to_object c ! nat i = Some k"
    using assms(2) by (simp_all add: cache_get_Inr)
  show "k \<in> K" "\<exists>ei. tbl_find (ic_table_cache c) (fst k) = Some ei" "tbl_find (ic_object_to_iterator c) k = Some i"
    using cache_wf_object[OF assms(1) i(2,3)] i(1) by auto
qed

lemma cache_get_table_cached: "cache_wf K c \<Longrightarrow> cache_get i c = Inr k \<Longrightarrow> cache_get_table (fst k) c = Inr (fst k)"
  using cache_get_cached(2)[of K c i k] by (auto simp: cache_get_table_def)

lemma get_end_iterator_cached:
  assumes "cache_wf K c" and "cache_get i c = Inr k"
  shows "\<exists>ei < -1. get_end_iterator_by_table_id (fst k) c = Inr ei \<and>
    (cache_fits c \<longrightarrow> find_table_by_end_iterator ei c = Inr (Some (fst k)))"
proof -
  obtain ei where ei: "tbl_find (ic_table_cache c) (fst k) = Some ei" using cache_get_cached(2)[OF assms] by blast
  then obtain j where j: "j < length (ic_end_iterator_to_table c)" "ei = index_to_end_iterator j"
      "ic_end_iterator_to_table c ! j = fst k"
    using assms(1) unfolding cache_wf_def by blast
  then have f: "cache_fits c \<longrightarrow> find_table_by_end_iterator ei c = Inr (Some (fst k))"
    by (simp add: find_table_by_end_iterator_def cache_fits_def)
  have g: "get_end_iterator_by_table_id (fst k) c = Inr ei" using ei by (simp add: get_end_iterator_by_table_id_def)
  have l: "ei < -1" using j(2) by simp
  show ?thesis using f g l by blast
qed

lemma find_table_by_end_iterator_cached:
  assumes "cache_wf K c" and "find_table_by_end_iterator ei c = Inr (Some t)"
  shows "tbl_find (ic_table_cache c) t \<noteq> None"
proof -
  obtain j where j: "j < length (ic_end_iterator_to_table c)" "ic_end_iterator_to_table c ! j = t"
    using assms(2) by (auto simp: find_table_by_end_iterator_def not_le split: if_splits)
  have "tbl_find (ic_table_cache c) (ic_end_iterator_to_table c ! j) = Some (index_to_end_iterator j)"
    using assms(1) j(1) unfolding cache_wf_def by blast
  then show ?thesis using j(2) by simp
qed

section \<open>What the operations keep\<close>

lemma cache_wf_cache_table:
  assumes "cache_wf K c" and "cache_table t c = (ei, c')"
  shows "cache_wf K c'" "tbl_find (ic_table_cache c') t = Some ei"
    "ic_iterator_to_object c' = ic_iterator_to_object c"
    "tbl_find (ic_table_cache c) u \<noteq> None \<Longrightarrow> tbl_find (ic_table_cache c') u = tbl_find (ic_table_cache c) u"
proof -
  have c: "tbl_wf (ic_table_cache c)" using assms(1) by (simp add: cache_wf_def)
  show "tbl_find (ic_table_cache c') t = Some ei" "ic_iterator_to_object c' = ic_iterator_to_object c"
    "tbl_find (ic_table_cache c) u \<noteq> None \<Longrightarrow> tbl_find (ic_table_cache c') u = tbl_find (ic_table_cache c) u"
    using assms(2) c by (auto simp: cache_table_def Let_def split: option.splits)
  show "cache_wf K c'"
  proof (cases "tbl_find (ic_table_cache c) t")
    case (Some e)
    then show ?thesis using assms by (simp add: cache_table_def)
  next
    case None
    define n where "n = length (ic_end_iterator_to_table c)"
    have c': "c' = c\<lparr>ic_end_iterator_to_table := ic_end_iterator_to_table c @ [t],
        ic_table_cache := tbl_insert t (index_to_end_iterator n) (ic_table_cache c)\<rparr>"
      using assms(2) None by (auto simp: cache_table_def Let_def n_def)
    have new: "j < n \<Longrightarrow> ic_end_iterator_to_table c ! j \<noteq> t" for j
      using assms(1) None unfolding cache_wf_def n_def by force
    show ?thesis unfolding cache_wf_def
    proof (intro conjI allI impI)
      show "tbl_wf (ic_table_cache c')" "tbl_wf (ic_object_to_iterator c')"
        using assms(1) by (simp_all add: c' cache_wf_def)
    next
      fix j assume j: "j < length (ic_end_iterator_to_table c')"
      show "tbl_find (ic_table_cache c') (ic_end_iterator_to_table c' ! j) = Some (index_to_end_iterator j)"
      proof (cases "j < n")
        case True
        then show ?thesis using assms(1) new[OF True] c unfolding cache_wf_def
          by (simp add: c' nth_append n_def)
      next
        case False
        then have "j = n" using j by (simp add: c' n_def)
        then show ?thesis using c by (simp add: c' n_def nth_append)
      qed
    next
      fix u e assume u: "tbl_find (ic_table_cache c') u = Some e"
      show "\<exists>j < length (ic_end_iterator_to_table c'). e = index_to_end_iterator j \<and> ic_end_iterator_to_table c' ! j = u"
      proof (cases "u = t")
        case True
        then have "e = index_to_end_iterator n" using u c by (simp add: c')
        then show ?thesis using True by (intro exI[of _ n]) (simp add: c' n_def nth_append)
      next
        case False
        then have "tbl_find (ic_table_cache c) u = Some e" using u c by (simp add: c')
        then obtain j where "j < n" "e = index_to_end_iterator j" "ic_end_iterator_to_table c ! j = u"
          using assms(1) unfolding cache_wf_def n_def by blast
        then show ?thesis by (intro exI[of _ j]) (simp add: c' n_def nth_append)
      qed
    next
      fix i k assume i: "i < length (ic_iterator_to_object c')" "ic_iterator_to_object c' ! i = Some k"
      then have "k \<in> K \<and> tbl_find (ic_table_cache c) (fst k) \<noteq> None \<and> tbl_find (ic_object_to_iterator c) k = Some (int i)"
        using cache_wf_object[OF assms(1)] by (simp add: c')
      then show "k \<in> K" "tbl_find (ic_table_cache c') (fst k) \<noteq> None" "tbl_find (ic_object_to_iterator c') k = Some (int i)"
        using c by (simp_all add: c')
    next
      fix k i assume "tbl_find (ic_object_to_iterator c') k = Some i"
      then have "0 \<le> i \<and> nat i < length (ic_iterator_to_object c) \<and> ic_iterator_to_object c ! nat i = Some k"
        using cache_wf_iterator[OF assms(1)] by (simp add: c')
      then show "0 \<le> i" "nat i < length (ic_iterator_to_object c')" "ic_iterator_to_object c' ! nat i = Some k"
        by (simp_all add: c')
    qed
  qed
qed

lemma cache_wf_cache_add:
  assumes "cache_wf K c" and "k \<in> K" and "tbl_find (ic_table_cache c) (fst k) \<noteq> None" and "cache_add k c = (i, c')"
  shows "cache_wf K c'" "cache_get i c' = Inr k" "0 \<le> i" "ic_table_cache c' = ic_table_cache c"
    "cache_get i' c = Inr k' \<Longrightarrow> cache_get i' c' = Inr k'"
proof -
  have o: "tbl_wf (ic_object_to_iterator c)" using assms(1) by (simp add: cache_wf_def)
  consider (old) "tbl_find (ic_object_to_iterator c) k = Some i" "c' = c"
    | (new) "tbl_find (ic_object_to_iterator c) k = None" "i = int (length (ic_iterator_to_object c))"
        "c' = c\<lparr>ic_iterator_to_object := ic_iterator_to_object c @ [Some k],
              ic_object_to_iterator := tbl_insert k i (ic_object_to_iterator c)\<rparr>"
    using assms(4) by (auto simp: cache_add_def Let_def split: option.splits)
  note cases = this
  show get: "cache_get i c' = Inr k"
  proof (cases rule: cases)
    case old
    then show ?thesis using assms(1) unfolding cache_wf_def cache_get_Inr by blast
  next
    case new
    then show ?thesis by (simp add: cache_get_Inr nth_append)
  qed
  then show "0 \<le> i" by (simp add: cache_get_Inr)
  show "ic_table_cache c' = ic_table_cache c" by (cases rule: cases) simp_all
  show "cache_get i' c = Inr k' \<Longrightarrow> cache_get i' c' = Inr k'"
    by (cases rule: cases) (simp_all add: cache_get_Inr nth_append)
  show "cache_wf K c'"
  proof (cases rule: cases)
    case old
    then show ?thesis using assms(1) by simp
  next
    case new
    define n where "n = length (ic_iterator_to_object c)"
    note c' = new(3)[unfolded new(2), folded n_def]
    show ?thesis unfolding cache_wf_def
    proof (intro conjI allI impI)
      show "tbl_wf (ic_table_cache c')" "tbl_wf (ic_object_to_iterator c')"
        using assms(1) by (simp_all add: c' cache_wf_def)
    next
      fix j assume "j < length (ic_end_iterator_to_table c')"
      then show "tbl_find (ic_table_cache c') (ic_end_iterator_to_table c' ! j) = Some (index_to_end_iterator j)"
        using assms(1) unfolding cache_wf_def by (simp add: c')
    next
      fix u e assume "tbl_find (ic_table_cache c') u = Some e"
      then show "\<exists>j < length (ic_end_iterator_to_table c'). e = index_to_end_iterator j \<and> ic_end_iterator_to_table c' ! j = u"
        using assms(1) unfolding cache_wf_def by (simp add: c')
    next
      fix m l assume m: "m < length (ic_iterator_to_object c')" "ic_iterator_to_object c' ! m = Some l"
      have "(m < n \<and> ic_iterator_to_object c ! m = Some l) \<or> (m = n \<and> l = k)"
        using m by (auto simp: c' n_def nth_append less_Suc_eq split: if_splits)
      then show "l \<in> K" "tbl_find (ic_table_cache c') (fst l) \<noteq> None" "tbl_find (ic_object_to_iterator c') l = Some (int m)"
        using cache_wf_object[OF assms(1), of m l] assms(2,3) new(1) o by (auto simp: c' n_def)
    next
      fix l m assume l: "tbl_find (ic_object_to_iterator c') l = Some m"
      have "(l = k \<and> m = int n) \<or> tbl_find (ic_object_to_iterator c) l = Some m"
        using l o by (auto simp: c' split: if_splits)
      then have "0 \<le> m \<and> nat m < length (ic_iterator_to_object c') \<and> ic_iterator_to_object c' ! nat m = Some l"
        using cache_wf_iterator[OF assms(1), of l m] by (auto simp: c' n_def nth_append)
      then show "0 \<le> m" "nat m < length (ic_iterator_to_object c')" "ic_iterator_to_object c' ! nat m = Some l"
        by simp_all
    qed
  qed
qed

lemma cache_wf_cache_remove:
  assumes "cache_wf K c" and "cache_get i c = Inr k"
  shows "\<exists>c'. cache_remove i c = Inr c' \<and> cache_wf (K - {k}) c'"
proof -
  have i: "0 \<le> i" "nat i < length (ic_iterator_to_object c)" "ic_iterator_to_object c ! nat i = Some k"
    using assms(2) by (simp_all add: cache_get_Inr)
  define c' where "c' = c\<lparr>ic_iterator_to_object := (ic_iterator_to_object c)[nat i := None],
      ic_object_to_iterator := tbl_remove k (ic_object_to_iterator c)\<rparr>"
  have r: "cache_remove i c = Inr c'" using i by (simp add: cache_remove_def c'_def)
  have uniq: "m = nat i" if "m < length (ic_iterator_to_object c)" "ic_iterator_to_object c ! m = Some k" for m
  proof -
    have "tbl_find (ic_object_to_iterator c) k = Some (int m)" using assms(1) that unfolding cache_wf_def by blast
    then have "int m = i" using cache_get_cached(3)[OF assms] by simp
    then show ?thesis by simp
  qed
  have "cache_wf (K - {k}) c'" unfolding cache_wf_def
  proof (intro conjI allI impI)
    show "tbl_wf (ic_table_cache c')" "tbl_wf (ic_object_to_iterator c')"
      using assms(1) by (simp_all add: c'_def cache_wf_def)
  next
    fix j assume "j < length (ic_end_iterator_to_table c')"
    then show "tbl_find (ic_table_cache c') (ic_end_iterator_to_table c' ! j) = Some (index_to_end_iterator j)"
      using assms(1) unfolding cache_wf_def by (simp add: c'_def)
  next
    fix u e assume "tbl_find (ic_table_cache c') u = Some e"
    then show "\<exists>j < length (ic_end_iterator_to_table c'). e = index_to_end_iterator j \<and> ic_end_iterator_to_table c' ! j = u"
      using assms(1) unfolding cache_wf_def by (simp add: c'_def)
  next
    fix m l assume m: "m < length (ic_iterator_to_object c')" "ic_iterator_to_object c' ! m = Some l"
    then have "m \<noteq> nat i" using i(2) by (auto simp: c'_def)
    with m have old: "m < length (ic_iterator_to_object c)" "ic_iterator_to_object c ! m = Some l" "m \<noteq> nat i"
      by (simp_all add: c'_def)
    then have "l \<noteq> k" using uniq by blast
    moreover have "l \<in> K \<and> tbl_find (ic_table_cache c) (fst l) \<noteq> None \<and> tbl_find (ic_object_to_iterator c) l = Some (int m)"
      using assms(1) old(1,2) unfolding cache_wf_def by blast
    ultimately show "l \<in> K - {k}" "tbl_find (ic_table_cache c') (fst l) \<noteq> None"
        "tbl_find (ic_object_to_iterator c') l = Some (int m)"
      by (simp_all add: c'_def)
  next
    fix l m assume l: "tbl_find (ic_object_to_iterator c') l = Some m"
    then have "l \<noteq> k" and old: "tbl_find (ic_object_to_iterator c) l = Some m" by (auto simp: c'_def split: if_splits)
    then have m: "0 \<le> m" "nat m < length (ic_iterator_to_object c)" "ic_iterator_to_object c ! nat m = Some l"
      using assms(1) unfolding cache_wf_def by blast+
    then have "nat m \<noteq> nat i" using i(3) \<open>l \<noteq> k\<close> by auto
    with m show "0 \<le> m" "nat m < length (ic_iterator_to_object c')" "ic_iterator_to_object c' ! nat m = Some l"
      by (simp_all add: c'_def)
  qed
  then show ?thesis using r by blast
qed

section \<open>Walking\<close>

lemma find_SomeD: "find P xs = Some x \<Longrightarrow> x \<in> set xs \<and> P x"
  by (induction xs) (auto split: if_splits)

lemma following_mem: "following xs k = Some k' \<Longrightarrow> k' \<in> set xs"
  by (induction xs k rule: following.induct) (auto split: if_splits)

lemma preceding_mem: "preceding xs k = Some k' \<Longrightarrow> k' \<in> set xs"
  using following_mem[of "rev xs"] by (simp add: preceding_def)

lemma last_up_to_table_mem: "last_up_to_table xs t = Some k \<Longrightarrow> k \<in> set xs"
  using find_SomeD[of _ "rev xs" k] by (auto simp: last_up_to_table_def)

text \<open>An end of the walk of an iterator: an error of the caller, or a cache that is still well-formed.\<close>

lemma iterator_next_safe:
  assumes "cache_wf K c" and "set order = K"
  shows "iterator_next order i c \<in> Inl ` {invalid_table_iterator, table_operation_not_permitted} \<or>
    (\<exists>j p c'. iterator_next order i c = Inr (j, p, c') \<and> cache_wf K c')"
proof (cases "i < -1")
  case True
  then show ?thesis using assms by (simp add: iterator_next_def)
next
  case False
  show ?thesis
  proof (cases "cache_get i c")
    case (Inl e)
    then show ?thesis using False
      by (auto simp: iterator_next_def cache_get_def eos_assert_def split: if_splits option.splits)
  next
    case (Inr k)
    have to: "index_iterator_to order k = Inr k"
      using cache_get_cached(1)[OF assms(1) Inr] assms(2) by (simp add: index_iterator_to_def)
    obtain ei where ei: "get_end_iterator_by_table_id (fst k) c = Inr ei" using get_end_iterator_cached[OF assms(1) Inr] by blast
    show ?thesis
    proof (cases "\<exists>k'. following order k = Some k' \<and> fst k' = fst k")
      case True
      then obtain k' where k': "following order k = Some k'" "fst k' = fst k" by blast
      obtain j c' where a: "cache_add k' c = (j, c')" by fastforce
      have "k' \<in> K" using following_mem[OF k'(1)] assms(2) by blast
      moreover have "tbl_find (ic_table_cache c) (fst k') \<noteq> None" using cache_get_cached(2)[OF assms(1) Inr] k'(2) by simp
      ultimately have "cache_wf K c'" using cache_wf_cache_add(1)[OF assms(1) _ _ a] by blast
      then show ?thesis using False Inr to k' a by (simp add: iterator_next_def)
    next
      case nf: False
      then show ?thesis using False Inr to ei assms(1) by (auto simp: iterator_next_def split: option.splits)
    qed
  qed
qed

text \<open>
  The iterators from which the code cannot walk backwards: the end iterator of a table that was removed, and the
  least \<^verbatim>\<open>int\<close>.
\<close>

definition stale_end_iterator :: "(nat, 't) table \<Rightarrow> iterator_cache \<Rightarrow> int \<Rightarrow> bool" where
  "stale_end_iterator tables c i \<longleftrightarrow> i \<le> int_min \<or>
     (\<exists>j < length (ic_end_iterator_to_table c). i = index_to_end_iterator j \<and>
        tbl_find tables (ic_end_iterator_to_table c ! j) = None)"

lemma index_to_end_iterator_eq: "i < -1 \<Longrightarrow> i = index_to_end_iterator j \<longleftrightarrow> nat (- i - 2) = j"
  by (auto simp: index_to_end_iterator_def)

lemma find_table_by_end_iterator_stale:
  "i < -1 \<Longrightarrow> stale_end_iterator tables c i \<longleftrightarrow>
    (case find_table_by_end_iterator i c of Inl e \<Rightarrow> True | Inr None \<Rightarrow> False | Inr (Some t) \<Rightarrow> tbl_find tables t = None)"
  by (auto simp: stale_end_iterator_def find_table_by_end_iterator_def end_iterator_to_index_def index_to_end_iterator_eq)

lemma stale_end_iterator_end: "stale_end_iterator tables c i \<Longrightarrow> i < -1"
  by (auto simp: stale_end_iterator_def index_to_end_iterator_def int_min_def)

lemma iterator_previous_stale:
  assumes "stale_end_iterator tables c i"
  shows "iterator_previous tables order i c = Inl undefined_behavior"
proof -
  note i = stale_end_iterator_end[OF assms]
  show ?thesis using i assms unfolding find_table_by_end_iterator_stale[OF i]
    by (auto simp: iterator_previous_def find_table_by_end_iterator_def end_iterator_to_index_def deref_def split: if_splits)
qed

lemma iterator_previous_safe:
  assumes "cache_wf K c" and "set order = K" and "\<not> stale_end_iterator tables c i"
  shows "iterator_previous tables order i c \<in> Inl ` {invalid_table_iterator, table_operation_not_permitted} \<or>
    (\<exists>j p c'. iterator_previous tables order i c = Inr (j, p, c') \<and> cache_wf K c')"
proof -
  have add: "\<exists>j c'. cache_add k c = (j, c') \<and> cache_wf K c'"
    if "k \<in> set order" "tbl_find (ic_table_cache c) (fst k) \<noteq> None" for k
  proof -
    obtain j c' where a: "cache_add k c = (j, c')" by fastforce
    then have "cache_wf K c'" using cache_wf_cache_add(1)[OF assms(1) _ that(2) a] that(1) assms(2) by blast
    then show ?thesis using a by blast
  qed
  show ?thesis
  proof (cases "i < -1")
    case True
    obtain tab where t: "find_table_by_end_iterator i c = Inr tab"
      and live: "\<And>t. tab = Some t \<Longrightarrow> \<exists>u. tbl_find tables t = Some u"
      using assms(3) unfolding find_table_by_end_iterator_stale[OF True] by (auto split: sum.splits option.splits)
    show ?thesis
    proof (cases "\<exists>t k. tab = Some t \<and> last_up_to_table order t = Some k \<and> fst k = t")
      case True
      then obtain k where k: "tab = Some (fst k)" "last_up_to_table order (fst k) = Some k" by blast
      obtain j c' where "cache_add k c = (j, c')" "cache_wf K c'"
        using add[OF last_up_to_table_mem[OF k(2)]] find_table_by_end_iterator_cached[OF assms(1)] t k(1) by blast
      then show ?thesis using \<open>i < -1\<close> t k live[OF k(1)] by (auto simp: iterator_previous_def deref_def)
    next
      case False
      then show ?thesis using \<open>i < -1\<close> t assms(1) live by (auto simp: iterator_previous_def deref_def split: option.splits)
    qed
  next
    case False
    show ?thesis
    proof (cases "cache_get i c")
      case (Inl e)
      then show ?thesis using False
        by (auto simp: iterator_previous_def cache_get_def eos_assert_def split: if_splits option.splits)
    next
      case (Inr k)
      have to: "index_iterator_to order k = Inr k"
        using cache_get_cached(1)[OF assms(1) Inr] assms(2) by (simp add: index_iterator_to_def)
      show ?thesis
      proof (cases "\<exists>k'. preceding order k = Some k' \<and> fst k' = fst k")
        case True
        then obtain k' where k': "preceding order k = Some k'" "fst k' = fst k" by blast
        obtain j c' where "cache_add k' c = (j, c')" "cache_wf K c'"
          using add[OF preceding_mem[OF k'(1)]] cache_get_cached(2)[OF assms(1) Inr] k'(2) by auto
        then show ?thesis using False Inr to k' by (simp add: iterator_previous_def)
      next
        case nf: False
        then show ?thesis using False Inr to assms(1) by (auto simp: iterator_previous_def split: option.splits)
      qed
    qed
  qed
qed

lemma iterator_found_wf:
  assumes "cache_wf K c" and "\<And>k. itr = Some k \<Longrightarrow> k \<in> K" and "iterator_found t itr c = (i, f, c')"
  shows "cache_wf K c'"
proof -
  obtain ei c1 where c1: "cache_table t c = (ei, c1)" by fastforce
  note w1 = cache_wf_cache_table[OF assms(1) c1]
  show ?thesis
  proof (cases "\<exists>k. itr = Some k \<and> fst k = t")
    case True
    then obtain k where k: "itr = Some k" "fst k = t" by blast
    obtain j c2 where c2: "cache_add k c1 = (j, c2)" by fastforce
    then have "c' = c2" using assms(3) c1 k by (simp add: iterator_found_def)
    then show ?thesis using cache_wf_cache_add(1)[OF w1(1) assms(2)[OF k(1)] _ c2] w1(2) k(2) by simp
  next
    case False
    then have "c' = c1" using assms(3) c1 by (cases itr) (simp_all add: iterator_found_def)
    then show ?thesis using w1(1) by simp
  qed
qed

end
