(* ===== verification/Contract_Storage.thy ===== *)
theory Contract_Storage
  imports Iterator_Cache
begin

text \<open>
  What the contract tables keep whatever the contracts do: the counts of the tables, the validity of the
  iterators, and that every byte that the tables occupy is billed to the account that pays for it.
\<close>

section \<open>Sizes\<close>

definition sum_kinds :: "(index_kind \<Rightarrow> nat) \<Rightarrow> nat" where
  "sum_kinds f = sum_list (map f index_kinds)"

lemma sum_kinds_upd:
  "sum_kinds (\<lambda>kd. F kd ((g(kind := x)) kd)) + F kind (g kind) = sum_kinds (\<lambda>kd. F kd (g kd)) + F kind x"
  by (cases kind) (simp_all add: sum_kinds_def index_kinds_def)

definition table_rows :: "contract_db \<Rightarrow> nat \<Rightarrow> nat" where
  "table_rows db i =
     tbl_sum (\<lambda>r. of_bool (fst (fst r) = i)) (cd_rows db) +
     sum_kinds (\<lambda>kind. tbl_sum (\<lambda>r. of_bool (fst (fst r) = i)) (cd_secondary db kind))"

text \<open>The bytes of the tables and rows that an account pays for.\<close>

definition contract_ram :: "contract_db \<Rightarrow> name \<Rightarrow> nat" where
  "contract_ram db a =
     tbl_sum (\<lambda>r. if ti_payer (snd r) = a then billable_size_table_id_object else 0) (cd_tables db) +
     tbl_sum (\<lambda>r. if kv_payer (snd r) = a then length (kv_value (snd r)) + billable_size_key_value_object else 0) (cd_rows db) +
     sum_kinds (\<lambda>kind. tbl_sum (\<lambda>r. if io_payer (snd r) = a then billable_size_index_object kind else 0) (cd_secondary db kind))"

lemma table_rows_same:
  "cd_rows db' = cd_rows db \<Longrightarrow> cd_secondary db' = cd_secondary db \<Longrightarrow> table_rows db' i = table_rows db i"
  by (simp add: table_rows_def)

lemma table_rows_insert:
  "tbl_find (cd_rows db) k = None \<Longrightarrow> cd_rows db' = tbl_insert k v (cd_rows db) \<Longrightarrow> cd_secondary db' = cd_secondary db \<Longrightarrow>
   table_rows db' i = table_rows db i + of_bool (fst k = i)"
  by (auto simp: table_rows_def tbl_sum_insert_new)

lemma table_rows_remove:
  "tbl_wf (cd_rows db) \<Longrightarrow> tbl_find (cd_rows db) k = Some v \<Longrightarrow> cd_rows db' = tbl_remove k (cd_rows db) \<Longrightarrow>
   cd_secondary db' = cd_secondary db \<Longrightarrow> table_rows db' i + of_bool (fst k = i) = table_rows db i"
  using tbl_sum_remove[of "cd_rows db" k v "\<lambda>r. of_bool (fst (fst r) = i)"]
  by (simp add: table_rows_def)

lemma table_rows_replace:
  "tbl_wf (cd_rows db) \<Longrightarrow> tbl_find (cd_rows db) k = Some u \<Longrightarrow> cd_rows db' = tbl_insert k v (cd_rows db) \<Longrightarrow>
   cd_secondary db' = cd_secondary db \<Longrightarrow> table_rows db' i = table_rows db i"
  using tbl_sum_insert_old[of "cd_rows db" k u "\<lambda>r. of_bool (fst (fst r) = i)" v] by (simp add: table_rows_def)

lemma table_rows_secondary:
  assumes "cd_rows db' = cd_rows db" and "cd_secondary db' = (cd_secondary db)(kind := r)"
  shows "table_rows db' i + tbl_sum (\<lambda>r. of_bool (fst (fst r) = i)) (cd_secondary db kind) =
    table_rows db i + tbl_sum (\<lambda>r. of_bool (fst (fst r) = i)) r"
  using sum_kinds_upd[of "\<lambda>_. tbl_sum (\<lambda>r. of_bool (fst (fst r) = i))" "cd_secondary db" kind r] assms
  by (simp add: table_rows_def)

lemma table_rows_secondary_insert:
  "tbl_find (cd_secondary db kind) k = None \<Longrightarrow> cd_rows db' = cd_rows db \<Longrightarrow>
   cd_secondary db' = (cd_secondary db)(kind := tbl_insert k v (cd_secondary db kind)) \<Longrightarrow>
   table_rows db' i = table_rows db i + of_bool (fst k = i)"
  using table_rows_secondary[of db' db kind "tbl_insert k v (cd_secondary db kind)" i]
  by (auto simp: tbl_sum_insert_new)

lemma table_rows_secondary_remove:
  "tbl_wf (cd_secondary db kind) \<Longrightarrow> tbl_find (cd_secondary db kind) k = Some v \<Longrightarrow> cd_rows db' = cd_rows db \<Longrightarrow>
   cd_secondary db' = (cd_secondary db)(kind := tbl_remove k (cd_secondary db kind)) \<Longrightarrow>
   table_rows db' i + of_bool (fst k = i) = table_rows db i"
  using table_rows_secondary[of db' db kind "tbl_remove k (cd_secondary db kind)" i]
    tbl_sum_remove[of "cd_secondary db kind" k v "\<lambda>r. of_bool (fst (fst r) = i)"]
  by simp

lemma table_rows_secondary_replace:
  "tbl_wf (cd_secondary db kind) \<Longrightarrow> tbl_find (cd_secondary db kind) k = Some u \<Longrightarrow> cd_rows db' = cd_rows db \<Longrightarrow>
   cd_secondary db' = (cd_secondary db)(kind := tbl_insert k v (cd_secondary db kind)) \<Longrightarrow>
   table_rows db' i = table_rows db i"
  using table_rows_secondary[of db' db kind "tbl_insert k v (cd_secondary db kind)" i]
    tbl_sum_insert_old[of "cd_secondary db kind" k u "\<lambda>r. of_bool (fst (fst r) = i)" v]
  by auto

lemma table_rows_pos: "tbl_find (cd_rows db) k = Some v \<Longrightarrow> 0 < table_rows db (fst k)"
  using tbl_sum_member[of "cd_rows db" k v "\<lambda>r. of_bool (fst (fst r) = fst k)"] by (simp add: table_rows_def)

lemma sum_kinds_ge: "f kind \<le> sum_kinds f"
  by (cases kind) (simp_all add: sum_kinds_def index_kinds_def)

lemma table_rows_secondary_pos: "tbl_find (cd_secondary db kind) k = Some v \<Longrightarrow> 0 < table_rows db (fst k)"
  using tbl_sum_member[of "cd_secondary db kind" k v "\<lambda>r. of_bool (fst (fst r) = fst k)"]
    sum_kinds_ge[of "\<lambda>kind. tbl_sum (\<lambda>r. of_bool (fst (fst r) = fst k)) (cd_secondary db kind)" kind]
  by (simp add: table_rows_def)

section \<open>The invariant of the tables\<close>

text \<open>The tables in \<open>X\<close> may be without rows: one that was just created, or that lost its last row.\<close>

definition contract_wf_but :: "nat set \<Rightarrow> contract_db \<Rightarrow> bool" where
  "contract_wf_but X db \<longleftrightarrow>
     tbl_wf (cd_tables db) \<and> tbl_wf (cd_rows db) \<and> (\<forall>kind. tbl_wf (cd_secondary db kind)) \<and>
     (\<forall>i t. tbl_find (cd_tables db) i = Some t \<longrightarrow>
        i < cd_next_table db \<and> unat (ti_count t) = table_rows db i \<and> (i \<in> X \<or> 0 < table_rows db i)) \<and>
     (\<forall>i. 0 < table_rows db i \<longrightarrow> tbl_find (cd_tables db) i \<noteq> None) \<and>
     (\<forall>i t j u. tbl_find (cd_tables db) i = Some t \<longrightarrow> tbl_find (cd_tables db) j = Some u \<longrightarrow>
        ti_code t = ti_code u \<longrightarrow> ti_scope t = ti_scope u \<longrightarrow> ti_table t = ti_table u \<longrightarrow> i = j) \<and>
     (\<forall>k obj. tbl_find (cd_rows db) k = Some obj \<longrightarrow> length (kv_value obj) < 2 ^ 32)"

abbreviation contract_wf :: "contract_db \<Rightarrow> bool" where
  "contract_wf \<equiv> contract_wf_but {}"

lemma contract_wf_butD:
  assumes "contract_wf_but X db"
  shows "tbl_wf (cd_tables db)" "tbl_wf (cd_rows db)" "tbl_wf (cd_secondary db kind)"
    "tbl_find (cd_tables db) i = Some t \<Longrightarrow> i < cd_next_table db"
    "tbl_find (cd_tables db) i = Some t \<Longrightarrow> unat (ti_count t) = table_rows db i"
    "tbl_find (cd_tables db) i = Some t \<Longrightarrow> i \<in> X \<or> 0 < table_rows db i"
    "0 < table_rows db i \<Longrightarrow> tbl_find (cd_tables db) i \<noteq> None"
    "tbl_find (cd_tables db) i = Some t \<Longrightarrow> tbl_find (cd_tables db) j = Some u \<Longrightarrow>
       ti_code t = ti_code u \<Longrightarrow> ti_scope t = ti_scope u \<Longrightarrow> ti_table t = ti_table u \<Longrightarrow> i = j"
    "tbl_find (cd_rows db) k = Some obj \<Longrightarrow> length (kv_value obj) < 2 ^ 32"
proof -
  note w = assms[unfolded contract_wf_but_def]
  note w1 = w[THEN conjunct2, THEN conjunct2, THEN conjunct2]
  note w2 = w1[THEN conjunct2, THEN conjunct2]
  show "tbl_wf (cd_tables db)" "tbl_wf (cd_rows db)" "tbl_wf (cd_secondary db kind)"
    using w[THEN conjunct1] w[THEN conjunct2, THEN conjunct1] w[THEN conjunct2, THEN conjunct2, THEN conjunct1] by simp_all
  show "tbl_find (cd_tables db) i = Some t \<Longrightarrow> i < cd_next_table db"
    "tbl_find (cd_tables db) i = Some t \<Longrightarrow> unat (ti_count t) = table_rows db i"
    "tbl_find (cd_tables db) i = Some t \<Longrightarrow> i \<in> X \<or> 0 < table_rows db i"
    using w1[THEN conjunct1, rule_format, of i t] by simp_all
  show "0 < table_rows db i \<Longrightarrow> tbl_find (cd_tables db) i \<noteq> None" using w1[THEN conjunct2, THEN conjunct1] by blast
  show "tbl_find (cd_tables db) i = Some t \<Longrightarrow> tbl_find (cd_tables db) j = Some u \<Longrightarrow>
       ti_code t = ti_code u \<Longrightarrow> ti_scope t = ti_scope u \<Longrightarrow> ti_table t = ti_table u \<Longrightarrow> i = j"
    using w2[THEN conjunct1] by blast
  show "tbl_find (cd_rows db) k = Some obj \<Longrightarrow> length (kv_value obj) < 2 ^ 32" using w2[THEN conjunct2] by blast
qed

lemma contract_wf_but_weaken:
  assumes "contract_wf_but X db" and "\<And>i. i \<in> X \<Longrightarrow> i \<in> Y \<or> 0 < table_rows db i"
  shows "contract_wf_but Y db"
proof -
  note d = contract_wf_butD[OF assms(1)]
  show ?thesis unfolding contract_wf_but_def
  proof (intro conjI allI impI)
    show "tbl_wf (cd_tables db)" "tbl_wf (cd_rows db)" "tbl_wf (cd_secondary db kind)" for kind by (simp_all add: d(1,2,3))
  next
    fix i t assume t: "tbl_find (cd_tables db) i = Some t"
    show "i < cd_next_table db" "unat (ti_count t) = table_rows db i" using d(4)[OF t] d(5)[OF t] .
    show "i \<in> Y \<or> 0 < table_rows db i" using d(6)[OF t] assms(2)[of i] by auto
  next
    fix i assume "0 < table_rows db i" then show "tbl_find (cd_tables db) i \<noteq> None" by (rule d(7))
  next
    fix i t j u assume "tbl_find (cd_tables db) i = Some t" "tbl_find (cd_tables db) j = Some u"
      "ti_code t = ti_code u" "ti_scope t = ti_scope u" "ti_table t = ti_table u"
    then show "i = j" by (rule d(8))
  next
    fix k obj assume "tbl_find (cd_rows db) k = Some obj" then show "length (kv_value obj) < 2 ^ 32" by (rule d(9))
  qed
qed

text \<open>A new table.\<close>

lemma contract_wf_create:
  assumes "contract_wf db" and "find_table db code scope tab = None"
  shows "contract_wf_but {cd_next_table db} (db\<lparr>cd_tables := tbl_insert (cd_next_table db)
      \<lparr>ti_code = code, ti_scope = scope, ti_table = tab, ti_payer = payer, ti_count = 0\<rparr> (cd_tables db),
    cd_next_table := Suc (cd_next_table db)\<rparr>)" (is "contract_wf_but {?n} ?db")
proof -
  note d = contract_wf_butD[OF assms(1)]
  have new: "tbl_find (cd_tables db) ?n = None" using d(4)[of ?n] by (cases "tbl_find (cd_tables db) ?n") auto
  have none: "\<not> (ti_code t = code \<and> ti_scope t = scope \<and> ti_table t = tab)" if "tbl_find (cd_tables db) i = Some t" for i t
    using assms(2) tbl_find_Some_mem[OF that] unfolding find_table_def by (auto simp: find_None_iff)
  have zero: "table_rows db ?n = 0" using d(7)[of ?n] new by auto
  have rows: "table_rows ?db i = table_rows db i" for i by (rule table_rows_same) simp_all
  have f: "tbl_find (cd_tables ?db) i = (if i = ?n then
      Some \<lparr>ti_code = code, ti_scope = scope, ti_table = tab, ti_payer = payer, ti_count = 0\<rparr>
      else tbl_find (cd_tables db) i)" for i using d(1) by simp
  show ?thesis unfolding contract_wf_but_def rows
  proof (intro conjI allI impI)
    show "tbl_wf (cd_tables ?db)" "tbl_wf (cd_rows ?db)" "tbl_wf (cd_secondary ?db kind)" for kind using d(1,2,3) by simp_all
  next
    fix i t assume t: "tbl_find (cd_tables ?db) i = Some t"
    show "i < cd_next_table ?db" "unat (ti_count t) = table_rows db i" "i \<in> {?n} \<or> 0 < table_rows db i"
      using t zero d(4)[of i t] d(5)[of i t] d(6)[of i t] unfolding f by (auto split: if_splits)
  next
    fix i assume "0 < table_rows db i" then show "tbl_find (cd_tables ?db) i \<noteq> None" using d(7)[of i] unfolding f by simp
  next
    fix i t j u assume "tbl_find (cd_tables ?db) i = Some t" "tbl_find (cd_tables ?db) j = Some u"
      "ti_code t = ti_code u" "ti_scope t = ti_scope u" "ti_table t = ti_table u"
    then show "i = j" using d(8)[of i t j u] none[of i t] none[of j u] unfolding f by (auto split: if_splits)
  next
    fix k obj assume "tbl_find (cd_rows ?db) k = Some obj" then show "length (kv_value obj) < 2 ^ 32" using d(9) by simp
  qed
qed

text \<open>One row more in a table, and one row less.\<close>

lemma contract_wf_recount:
  assumes "contract_wf_but X db" and "tbl_find (cd_tables db) i = Some t"
    and "cd_tables db' = tbl_insert i (t\<lparr>ti_count := n\<rparr>) (cd_tables db)" and "cd_next_table db' = cd_next_table db"
    and "tbl_wf (cd_rows db')" and "\<And>kind. tbl_wf (cd_secondary db' kind)"
    and "\<And>k obj. tbl_find (cd_rows db') k = Some obj \<Longrightarrow> length (kv_value obj) < 2 ^ 32"
    and "\<And>j. j \<noteq> i \<Longrightarrow> table_rows db' j = table_rows db j" and "unat n = table_rows db' i"
    and "X \<subseteq> insert i Y" and "i \<in> Y \<or> 0 < table_rows db' i"
  shows "contract_wf_but Y db'"
proof -
  note d = contract_wf_butD[OF assms(1)]
  have f: "tbl_find (cd_tables db') j = (if j = i then Some (t\<lparr>ti_count := n\<rparr>) else tbl_find (cd_tables db) j)" for j
    using d(1) by (simp add: assms(3))
  show ?thesis unfolding contract_wf_but_def
  proof (intro conjI allI impI)
    show "tbl_wf (cd_tables db')" "tbl_wf (cd_rows db')" "tbl_wf (cd_secondary db' kind)" for kind
      using d(1) assms(3,5,6) by simp_all
  next
    fix j u assume u: "tbl_find (cd_tables db') j = Some u"
    show "j < cd_next_table db'" "unat (ti_count u) = table_rows db' j" "j \<in> Y \<or> 0 < table_rows db' j"
      using u assms(8)[of j] assms(4,9,10,11) d(4)[OF assms(2)] d(4)[of j u] d(5)[of j u] d(6)[of j u] unfolding f
      by (auto split: if_splits)
  next
    fix j assume "0 < table_rows db' j"
    then show "tbl_find (cd_tables db') j \<noteq> None" using assms(8)[of j] d(7)[of j] by (auto simp: f)
  next
    fix j u l v assume h: "tbl_find (cd_tables db') j = Some u" "tbl_find (cd_tables db') l = Some v"
      "ti_code u = ti_code v" "ti_scope u = ti_scope v" "ti_table u = ti_table v"
    have o: "\<exists>u0. tbl_find (cd_tables db) j = Some u0 \<and> ti_code u0 = ti_code u \<and> ti_scope u0 = ti_scope u \<and> ti_table u0 = ti_table u"
      if "tbl_find (cd_tables db') j = Some u" for j u using that assms(2) unfolding f by (auto split: if_splits)
    obtain u0 v0 where "tbl_find (cd_tables db) j = Some u0" "tbl_find (cd_tables db) l = Some v0"
      "ti_code u0 = ti_code v0" "ti_scope u0 = ti_scope v0" "ti_table u0 = ti_table v0"
      using o[OF h(1)] o[OF h(2)] h(3-5) by auto
    then show "j = l" by (rule d(8))
  next
    fix k obj assume "tbl_find (cd_rows db') k = Some obj" then show "length (kv_value obj) < 2 ^ 32" by (rule assms(7))
  qed
qed

text \<open>A table without rows is removed.\<close>

lemma contract_wf_drop:
  assumes "contract_wf_but {i} db" and "table_rows db i = 0"
  shows "contract_wf (db\<lparr>cd_tables := tbl_remove i (cd_tables db)\<rparr>)" (is "contract_wf ?db")
proof -
  note d = contract_wf_butD[OF assms(1)]
  have rows: "table_rows ?db j = table_rows db j" for j by (rule table_rows_same) simp_all
  show ?thesis unfolding contract_wf_but_def rows
  proof (intro conjI allI impI)
    show "tbl_wf (cd_tables ?db)" "tbl_wf (cd_rows ?db)" "tbl_wf (cd_secondary ?db kind)" for kind using d(1,2,3) by simp_all
  next
    fix j u assume u: "tbl_find (cd_tables ?db) j = Some u"
    show "j < cd_next_table ?db" "unat (ti_count u) = table_rows db j" "j \<in> {} \<or> 0 < table_rows db j"
      using u d(4)[of j u] d(5)[of j u] d(6)[of j u] by (auto split: if_splits)
  next
    fix j assume "0 < table_rows db j" then show "tbl_find (cd_tables ?db) j \<noteq> None" using assms(2) d(7)[of j] by auto
  next
    fix j u l v assume "tbl_find (cd_tables ?db) j = Some u" "tbl_find (cd_tables ?db) l = Some v"
      "ti_code u = ti_code v" "ti_scope u = ti_scope v" "ti_table u = ti_table v"
    then show "j = l" using d(8)[of j u l v] by (auto split: if_splits)
  next
    fix k obj assume "tbl_find (cd_rows ?db) k = Some obj" then show "length (kv_value obj) < 2 ^ 32" using d(9) by simp
  qed
qed

section \<open>The bytes billed\<close>

text \<open>What the resource limits have recorded for an account, and the part of it that the tables do not explain.\<close>

definition billed_ram :: "resource_db \<Rightarrow> name \<Rightarrow> int" where
  "billed_ram rl a = (case tbl_find (rl_usage rl) a of None \<Rightarrow> 0 | Some u \<Rightarrow> int (unat (ram_usage u)))"

definition other_ram :: "contract_state \<Rightarrow> name \<Rightarrow> int" where
  "other_ram st a = billed_ram (cs_resources st) a - int (contract_ram (cs_db st) a)"

definition contract_state_wf_but :: "nat set \<Rightarrow> contract_state \<Rightarrow> bool" where
  "contract_state_wf_but X st \<longleftrightarrow>
     contract_wf_but X (cs_db st) \<and> tbl_wf (rl_usage (cs_resources st)) \<and>
     cache_wf (fst ` set (cd_rows (cs_db st))) (cs_keyval_cache st) \<and>
     (\<forall>kind. cache_wf (fst ` set (cd_secondary (cs_db st) kind)) (cs_itr_cache st kind))"

abbreviation contract_state_wf :: "contract_state \<Rightarrow> bool" where
  "contract_state_wf \<equiv> contract_state_wf_but {}"

text \<open>Outcomes that are no undefined behaviour and no broken cache, and values that satisfy a condition.\<close>

definition safely :: "('a \<Rightarrow> bool) \<Rightarrow> 'a res \<Rightarrow> bool" where
  "safely P r = (case r of Inl e \<Rightarrow> e \<noteq> undefined_behavior \<and> e \<noteq> table_not_in_cache | Inr x \<Rightarrow> P x)"

lemma safely_Inr [simp]: "safely P (Inr x) = P x"
  by (simp add: safely_def)

lemma safely_Inl [simp]: "safely P (Inl e) \<longleftrightarrow> e \<noteq> undefined_behavior \<and> e \<noteq> table_not_in_cache"
  by (simp add: safely_def)

lemma safely_bind: "safely Q r \<Longrightarrow> (\<And>x. Q x \<Longrightarrow> safely P (k x)) \<Longrightarrow> safely P (res_bind r k)"
  by (cases r) simp_all

lemma safely_assert:
  "e \<noteq> undefined_behavior \<Longrightarrow> e \<noteq> table_not_in_cache \<Longrightarrow> (c \<Longrightarrow> safely P r) \<Longrightarrow> safely P (eos_assert c e r)"
  by (simp add: eos_assert_def)

lemma safely_mono: "safely Q r \<Longrightarrow> (\<And>x. Q x \<Longrightarrow> P x) \<Longrightarrow> safely P r"
  by (cases r) simp_all

lemma sint_word_of_int_i64: "- (2 ^ 63) \<le> k \<Longrightarrow> k < 2 ^ 63 \<Longrightarrow> sint (word_of_int k :: i64) = k"
  by (simp add: sint_sbintrunc' signed_take_bit_int_eq_self)

lemma sint_sizes:
  "m < 2 ^ 62 \<Longrightarrow> sint (word_of_nat m :: i64) = int m"
  "m < 2 ^ 62 \<Longrightarrow> sint (- word_of_nat m :: i64) = - int m"
  "m < 2 ^ 62 \<Longrightarrow> n < 2 ^ 62 \<Longrightarrow> sint (word_of_nat m - word_of_nat n :: i64) = int m - int n"
  using sint_word_of_int_i64[of "int m"] sint_word_of_int_i64[of "- int m"] sint_word_of_int_i64[of "int m - int n"]
  by simp_all

lemma unat_word_of_int_u64: "0 \<le> k \<Longrightarrow> k < 2 ^ 64 \<Longrightarrow> int (unat (word_of_int k :: u64)) = k"
  by (simp add: uint_word_of_int take_bit_int_eq_self)

lemma int64_min_sizes:
  "m < 2 ^ 62 \<Longrightarrow> word_of_nat m \<noteq> int64_min"
  "m < 2 ^ 62 \<Longrightarrow> - word_of_nat m \<noteq> int64_min"
  "m < 2 ^ 62 \<Longrightarrow> n < 2 ^ 62 \<Longrightarrow> word_of_nat m - word_of_nat n \<noteq> int64_min"
  unfolding int64_min_iff using sint_sizes[of m] sint_sizes(3)[of m n] by auto

lemma safely_add_pending_ram_usage:
  assumes "tbl_wf (rl_usage rl)" and "delta \<noteq> int64_min"
  shows "safely (\<lambda>rl'. tbl_wf (rl_usage rl') \<and> (\<forall>a. billed_ram rl' a = billed_ram rl a + (if a = p then sint delta else 0)))
    (add_pending_ram_usage p delta rl)"
proof (cases "delta = 0 \<or> tbl_find (rl_usage rl) p = None")
  case True
  then show ?thesis using assms by (auto simp: add_pending_ram_usage_def tbl_get_def)
next
  case False
  then obtain u where u: "tbl_find (rl_usage rl) p = Some u" and "delta \<noteq> 0" by auto
  have guard: "(delta \<le>s 0 \<or> delta \<le> -1 - ram_usage u) \<Longrightarrow> (0 \<le>s delta \<or> - delta \<le> ram_usage u) \<Longrightarrow>
      int (unat (ram_usage u + delta)) = int (unat (ram_usage u)) + sint delta"
    using ram_delta_guard[of delta "ram_usage u"] unat_word_of_int_u64[of "int (unat (ram_usage u)) + sint delta"]
    unfolding add_eq_word_of_int by blast
  show ?thesis unfolding add_pending_ram_usage_def using \<open>delta \<noteq> 0\<close> u assms guard
    by (auto simp: tbl_get_def billed_ram_def intro!: safely_assert)
qed

text \<open>What billing leaves as it is.\<close>

definition rebilled :: "contract_state \<Rightarrow> contract_state \<Rightarrow> bool" where
  "rebilled st st' \<longleftrightarrow> cs_db st' = cs_db st \<and> cs_keyval_cache st' = cs_keyval_cache st \<and>
     cs_itr_cache st' = cs_itr_cache st \<and> tbl_wf (rl_usage (cs_resources st'))"

lemma safely_update_db_usage:
  assumes "tbl_wf (rl_usage (cs_resources st))" and "delta \<noteq> int64_min"
  shows "safely (\<lambda>st'. rebilled st st' \<and>
      (\<forall>a. billed_ram (cs_resources st') a = billed_ram (cs_resources st) a + (if a = p then sint delta else 0)))
    (update_db_usage env p delta st)"
  unfolding update_db_usage_def
proof (rule safely_bind[where Q = "\<lambda>_. True"])
  show "safely (\<lambda>_. True) (if 0 <s delta \<and> \<not> (ae_privileged env \<or> p = ae_receiver env \<or> ae_ram_restrictions env)
      then eos_assert (ae_ram_billing_in_notify_allowed env \<or> ae_receiver env = act_account (ae_act env))
        subjective_block_production_exception (require_authorization env p)
      else Inr ())"
    by (auto simp: require_authorization_def intro!: safely_assert)
  show "safely (\<lambda>st'. rebilled st st' \<and>
      (\<forall>a. billed_ram (cs_resources st') a = billed_ram (cs_resources st) a + (if a = p then sint delta else 0)))
    (add_ram_usage p delta st)"
    unfolding add_ram_usage_def trx_add_ram_usage_def
    using safely_add_pending_ram_usage[OF assms, of p]
    by (cases "add_pending_ram_usage p delta (cs_resources st)") (auto simp: rebilled_def)
qed

end
