(* ===== verification/Contract_Operations.thy ===== *)
theory Contract_Operations
  imports Contract_Storage
begin

text \<open>
  Every operation on the contract tables keeps the invariant of the tables and of the iterators, and bills
  exactly the bytes by which the tables change.
\<close>

section \<open>Changes of the tables\<close>

lemma contract_ram_recount:
  assumes "tbl_wf (cd_tables db)" and "tbl_find (cd_tables db) i = Some t"
    and "cd_tables db' = tbl_insert i (t\<lparr>ti_count := n\<rparr>) (cd_tables db)"
    and "cd_rows db' = cd_rows db" and "cd_secondary db' = cd_secondary db"
  shows "contract_ram db' a = contract_ram db a"
  using tbl_sum_insert_old[OF assms(1,2), of "\<lambda>r. if ti_payer (snd r) = a then billable_size_table_id_object else 0" "t\<lparr>ti_count := n\<rparr>"]
  by (simp add: contract_ram_def assms(3-5))

lemma contract_ram_rows:
  assumes "cd_tables db' = cd_tables db" and "cd_secondary db' = cd_secondary db"
  defines "g \<equiv> \<lambda>a r. if kv_payer (snd r) = a then length (kv_value (snd r)) + billable_size_key_value_object else 0"
  shows "contract_ram db' a + tbl_sum (g a) (cd_rows db) = contract_ram db a + tbl_sum (g a) (cd_rows db')"
  by (simp add: contract_ram_def assms(1,2) g_def)

lemma contract_ram_secondary:
  assumes "cd_tables db' = cd_tables db" and "cd_rows db' = cd_rows db"
    and "cd_secondary db' = (cd_secondary db)(kind := r)"
  defines "g \<equiv> \<lambda>a r. if io_payer (snd r) = a then billable_size_index_object kind else 0"
  shows "contract_ram db' a + tbl_sum (g a) (cd_secondary db kind) = contract_ram db a + tbl_sum (g a) r"
  using sum_kinds_upd[of "\<lambda>kind. tbl_sum (\<lambda>r. if io_payer (snd r) = a then billable_size_index_object kind else 0)"
      "cd_secondary db" kind r]
  by (simp add: contract_ram_def assms(1-3) g_def)

lemma billable_size_index_object_less: "billable_size_index_object kind < 2 ^ 62"
  by (cases kind) (simp_all add: billable_size_index_object_def billable_size_v_def billable_alignment_def
      overhead_per_row_per_index_ram_bytes_def)

lemma contract_state_wf_butD:
  assumes "contract_state_wf_but X st"
  shows "contract_wf_but X (cs_db st)" "tbl_wf (rl_usage (cs_resources st))"
    "cache_wf (fst ` set (cd_rows (cs_db st))) (cs_keyval_cache st)"
    "cache_wf (fst ` set (cd_secondary (cs_db st) kind)) (cs_itr_cache st kind)"
  using assms by (simp_all add: contract_state_wf_but_def)

lemma find_table_Some:
  "find_table db code scope tab = Some i \<Longrightarrow>
   \<exists>t. (i, t) \<in> set (cd_tables db) \<and> ti_code t = code \<and> ti_scope t = scope \<and> ti_table t = tab"
  unfolding find_table_def by (auto dest: find_SomeD)

lemma safely_find_or_create_table:
  assumes "contract_state_wf st"
  shows "safely (\<lambda>(i, st'). contract_state_wf_but {i} st' \<and> (\<exists>t. tbl_find (cd_tables (cs_db st')) i = Some t) \<and>
      cd_rows (cs_db st') = cd_rows (cs_db st) \<and> cd_secondary (cs_db st') = cd_secondary (cs_db st) \<and>
      (\<forall>a. other_ram st' a = other_ram st a))
    (find_or_create_table env code scope tab payer st)"
proof (cases "find_table (cs_db st) code scope tab")
  case (Some i)
  obtain t where "(i, t) \<in> set (cd_tables (cs_db st))" using find_table_Some[OF Some] by blast
  then have "tbl_find (cd_tables (cs_db st)) i = Some t"
    using contract_wf_butD(1)[OF contract_state_wf_butD(1)[OF assms]] by (rule tbl_find_mem[rotated])
  moreover have "contract_state_wf_but {i} st"
    using assms contract_wf_but_weaken[of "{}" "cs_db st" "{i}"] by (simp add: contract_state_wf_but_def)
  ultimately show ?thesis using Some by (simp add: find_or_create_table_def)
next
  case None
  note w = contract_state_wf_butD[OF assms]
  let ?t = "\<lparr>ti_code = code, ti_scope = scope, ti_table = tab, ti_payer = payer, ti_count = 0\<rparr>"
  let ?i = "cd_next_table (cs_db st)"
  have new: "tbl_find (cd_tables (cs_db st)) ?i = None"
    using contract_wf_butD(4)[OF w(1), of ?i] by (cases "tbl_find (cd_tables (cs_db st)) ?i") auto
  show ?thesis unfolding find_or_create_table_def None option.case
  proof (rule safely_bind[OF safely_update_db_usage[OF w(2) int64_min_sizes(1)]])
    show "billable_size_table_id_object < 2 ^ 62" by simp
    fix st1 assume "rebilled st st1 \<and> (\<forall>a. billed_ram (cs_resources st1) a =
        billed_ram (cs_resources st) a + (if a = payer then sint (word_of_nat billable_size_table_id_object :: i64) else 0))"
    then have r: "rebilled st st1" and b: "billed_ram (cs_resources st1) a =
        billed_ram (cs_resources st) a + (if a = payer then 112 else 0)" for a
      using sint_sizes(1)[of 112] by simp_all
    note r' = r[unfolded rebilled_def]
    let ?db = "(cs_db st)\<lparr>cd_tables := tbl_insert ?i ?t (cd_tables (cs_db st)), cd_next_table := Suc ?i\<rparr>"
    have "contract_wf_but {?i} ?db" by (rule contract_wf_create[OF w(1) None])
    moreover have "contract_ram ?db a = contract_ram (cs_db st) a + (if a = payer then 112 else 0)" for a
      using new by (auto simp: contract_ram_def tbl_sum_insert_new)
    moreover have "tbl_find (cd_tables ?db) ?i = Some ?t" using contract_wf_butD(1)[OF w(1)] by simp
    ultimately show "safely (\<lambda>(i, st'). contract_state_wf_but {i} st' \<and> (\<exists>t. tbl_find (cd_tables (cs_db st')) i = Some t) \<and>
        cd_rows (cs_db st') = cd_rows (cs_db st) \<and> cd_secondary (cs_db st') = cd_secondary (cs_db st) \<and>
        (\<forall>a. other_ram st' a = other_ram st a))
      (let db = cs_db st1; i = cd_next_table db in Let ?t (\<lambda>t.
        Inr (i, st1\<lparr>cs_db := db\<lparr>cd_tables := tbl_insert i t (cd_tables db), cd_next_table := Suc i\<rparr>\<rparr>)))"
      using r' w(3,4) b by (simp add: Let_def contract_state_wf_but_def other_ram_def)
  qed
qed

text \<open>What an operation keeps: the invariant, and the bytes billed that the tables do not explain.\<close>

definition kept :: "contract_state \<Rightarrow> contract_state \<Rightarrow> bool" where
  "kept st st' \<longleftrightarrow> contract_state_wf st' \<and> (\<forall>a. other_ram st' a = other_ram st a)"

text \<open>The end of a removal: a table that lost its last row goes, and its payer gets its bytes back.\<close>

lemma safely_remove_table:
  assumes wf: "contract_wf_but {i} (cs_db st)" and u: "tbl_wf (rl_usage (cs_resources st))"
    and t: "tbl_find (cd_tables (cs_db st)) i = Some t"
  shows "safely (\<lambda>st'. contract_wf (cs_db st') \<and> tbl_wf (rl_usage (cs_resources st')) \<and>
      (\<forall>a. other_ram st' a = other_ram st a) \<and>
      cs_keyval_cache st' = cs_keyval_cache st \<and> cs_itr_cache st' = cs_itr_cache st \<and>
      cd_rows (cs_db st') = cd_rows (cs_db st) \<and> cd_secondary (cs_db st') = cd_secondary (cs_db st))
    (if ti_count t = 0 then remove_table env i t st else Inr st)" (is "safely ?P _")
proof (cases "ti_count t = 0")
  case True
  have z: "table_rows (cs_db st) i = 0" using contract_wf_butD(5)[OF wf t] True by simp
  have ram: "contract_ram ((cs_db st)\<lparr>cd_tables := tbl_remove i (cd_tables (cs_db st))\<rparr>) a + (if ti_payer t = a then 112 else 0) =
      contract_ram (cs_db st) a" for a
    using tbl_sum_remove[OF contract_wf_butD(1)[OF wf] t, of "\<lambda>r. if ti_payer (snd r) = a then billable_size_table_id_object else 0"]
    by (auto simp: contract_ram_def split: if_splits)
  have "safely ?P (remove_table env i t st)"
    unfolding remove_table_def
  proof (rule safely_bind[OF safely_update_db_usage[OF u int64_min_sizes(2)]])
    show "billable_size_table_id_object < 2 ^ 62" by simp
    fix st1 assume "rebilled st st1 \<and> (\<forall>a. billed_ram (cs_resources st1) a =
        billed_ram (cs_resources st) a + (if a = ti_payer t then sint (- word_of_nat billable_size_table_id_object :: i64) else 0))"
    then have r: "rebilled st st1" and b: "billed_ram (cs_resources st1) a =
        billed_ram (cs_resources st) a + (if a = ti_payer t then - 112 else 0)" for a
      using sint_sizes(2)[of 112] by simp_all
    note r' = r[unfolded rebilled_def]
    have "other_ram (st1\<lparr>cs_db := (cs_db st)\<lparr>cd_tables := tbl_remove i (cd_tables (cs_db st))\<rparr>\<rparr>) a = other_ram st a" for a
      using b[of a] ram[of a] by (auto simp: other_ram_def split: if_splits)
    then show "safely ?P (let db = cs_db st1 in Inr (st1\<lparr>cs_db := db\<lparr>cd_tables := tbl_remove i (cd_tables db)\<rparr>\<rparr>))"
      using r' contract_wf_drop[OF wf z] by (simp add: Let_def)
  qed
  then show ?thesis using True by simp
next
  case False
  then have "unat (ti_count t) \<noteq> 0" by (simp add: unat_eq_zero)
  then have "0 < table_rows (cs_db st) i" using contract_wf_butD(5)[OF wf t] by simp
  then have "contract_wf (cs_db st)" using contract_wf_but_weaken[OF wf, of "{}"] by simp
  then show ?thesis using False u by simp
qed

section \<open>The primary index\<close>

lemma cache_wf_stored:
  assumes "cache_wf K c" and "cache_table (fst k) c = (ei, c1)" and "cache_add k c1 = (i, c2)"
  shows "cache_wf (insert k K) c2"
proof -
  have c: "cache_wf (insert k K) c" using assms(1) by (rule cache_wf_mono) blast
  note c1 = cache_wf_cache_table[OF c assms(2)]
  show ?thesis using cache_wf_cache_add(1)[OF c1(1) _ _ assms(3)] c1(2) by simp
qed

lemma safely_increment_count:
  assumes "tbl_find (cd_tables db) i = Some t"
  shows "safely (\<lambda>db'. db' = db\<lparr>cd_tables := tbl_insert i (t\<lparr>ti_count := ti_count t + 1\<rparr>) (cd_tables db)\<rparr>) (increment_count i db)"
  using assms by (simp add: increment_count_def deref_def)

lemma count_up: "unat (n :: u32) < 2 ^ 32 - 1 \<Longrightarrow> unat (n + 1) = unat n + 1"
  by (simp add: unat_plus_simple[THEN iffD1] no_olen_add_nat[THEN iffD2] word_le_nat_alt unat_word_ariths(1))

lemma count_down: "unat (n :: u32) = Suc m \<Longrightarrow> unat (n - 1) = m"
  by (metis diff_Suc_1 unat_minus_one unat_0 nat.distinct(1))

lemma safely_db_store_i64:
  assumes "contract_state_wf st" and "\<And>i. table_rows (cs_db st) i < 2 ^ 32 - 1" and "length buffer < 2 ^ 32"
  shows "safely (\<lambda>(i, st'). kept st st') (db_store_i64 env code scope tab payer pk buffer st)"
  unfolding db_store_i64_def
proof (rule safely_bind[OF safely_find_or_create_table[OF assms(1)]])
  fix x assume "case x of (i, st') \<Rightarrow> contract_state_wf_but {i} st' \<and> (\<exists>t. tbl_find (cd_tables (cs_db st')) i = Some t) \<and>
      cd_rows (cs_db st') = cd_rows (cs_db st) \<and> cd_secondary (cs_db st') = cd_secondary (cs_db st) \<and>
      (\<forall>a. other_ram st' a = other_ram st a)"
  then obtain i st1 t where x: "x = (i, st1)" and wf: "contract_state_wf_but {i} st1"
      and t: "tbl_find (cd_tables (cs_db st1)) i = Some t" and rows: "cd_rows (cs_db st1) = cd_rows (cs_db st)"
      "cd_secondary (cs_db st1) = cd_secondary (cs_db st)" and other: "\<And>a. other_ram st1 a = other_ram st a" by auto
  note w = contract_state_wf_butD[OF wf] and d = contract_wf_butD[OF contract_state_wf_butD(1)[OF wf]]
  define row where "row = \<lparr>kv_payer = payer, kv_value = buffer\<rparr>"
  define db1 where "db1 = (cs_db st1)\<lparr>cd_rows := tbl_insert (i, pk) row (cd_rows (cs_db st1))\<rparr>"
  define db2 where "db2 = db1\<lparr>cd_tables := tbl_insert i (t\<lparr>ti_count := ti_count t + 1\<rparr>) (cd_tables db1)\<rparr>"
  have inc: "increment_count i db1 = Inr db2" using t by (simp add: increment_count_def deref_def db1_def db2_def)
  have safe: "safely (\<lambda>(i, st'). kept st st')
    (res_bind (update_db_usage env payer (word_of_nat (length buffer + billable_size_key_value_object)) (st1\<lparr>cs_db := db2\<rparr>)) (\<lambda>st.
      let (ei, c) = cache_table i (cs_keyval_cache st); (itr, c) = cache_add (i, pk) c
      in Inr (itr, st\<lparr>cs_keyval_cache := c\<rparr>)))" if new: "tbl_find (cd_rows (cs_db st1)) (i, pk) = None"
  proof (rule safely_bind[OF safely_update_db_usage[OF _ int64_min_sizes(1)]])
    show "length buffer + billable_size_key_value_object < 2 ^ 62" using assms(3) by simp
    show "tbl_wf (rl_usage (cs_resources (st1\<lparr>cs_db := db2\<rparr>)))" using w(2) by simp
    have tr: "table_rows db2 j = table_rows (cs_db st1) j + of_bool (i = j)" for j
      using table_rows_insert[OF new, of db2 row j] by (simp add: db1_def db2_def)
    have "table_rows (cs_db st1) i < 2 ^ 32 - 1" using assms(2)[of i] table_rows_same[OF rows, of i] by simp
    then have n: "unat (ti_count t + 1) = table_rows db2 i" using count_up[of "ti_count t"] d(5)[OF t] tr[of i] by simp
    have wf2: "contract_wf db2"
    proof (rule contract_wf_recount[OF w(1) t, where n = "ti_count t + 1"])
      show "length (kv_value obj) < 2 ^ 32" if "tbl_find (cd_rows db2) k = Some obj" for k obj
        using that d(9)[of k obj] assms(3) d(2) by (auto simp: db1_def db2_def row_def split: if_splits)
    qed (use d(2,3) tr n in \<open>simp_all add: db1_def db2_def\<close>)
    have ram: "contract_ram db2 a = contract_ram (cs_db st1) a + (if payer = a then length buffer + 112 else 0)" for a
    proof -
      have "contract_ram db2 a = contract_ram db1 a"
        by (rule contract_ram_recount[of db1 i t]) (use d(1) t in \<open>simp_all add: db1_def db2_def\<close>)
      moreover have "contract_ram db1 a = contract_ram (cs_db st1) a + (if payer = a then length buffer + 112 else 0)"
        using contract_ram_rows[of db1 "cs_db st1" a] new by (auto simp: db1_def tbl_sum_insert_new row_def)
      ultimately show ?thesis by simp
    qed
    fix st2 assume "rebilled (st1\<lparr>cs_db := db2\<rparr>) st2 \<and> (\<forall>a. billed_ram (cs_resources st2) a =
      billed_ram (cs_resources (st1\<lparr>cs_db := db2\<rparr>)) a +
        (if a = payer then sint (word_of_nat (length buffer + billable_size_key_value_object) :: i64) else 0))"
    then have r: "rebilled (st1\<lparr>cs_db := db2\<rparr>) st2" and b: "billed_ram (cs_resources st2) a =
        billed_ram (cs_resources st1) a + (if a = payer then int (length buffer + 112) else 0)" for a
      using sint_sizes(1)[of "length buffer + 112"] assms(3) by simp_all
    note r' = r[unfolded rebilled_def]
    obtain ei c1 itr c2 where c: "cache_table i (cs_keyval_cache st1) = (ei, c1)" "cache_add (i, pk) c1 = (itr, c2)" by fastforce
    have keys: "fst ` set (cd_rows db2) = insert (i, pk) (fst ` set (cd_rows (cs_db st1)))" by (simp add: db1_def db2_def)
    have "contract_state_wf (st2\<lparr>cs_keyval_cache := c2\<rparr>)" unfolding contract_state_wf_but_def
      using r' wf2 w(4) cache_wf_stored[OF w(3), of "(i, pk)" ei c1 itr c2] c
      by (simp add: keys) (simp add: db1_def db2_def)
    moreover have "other_ram (st2\<lparr>cs_keyval_cache := c2\<rparr>) a = other_ram st a" for a
      using other[of a] b[of a] ram[of a] r' by (auto simp: other_ram_def split: if_splits)
    ultimately show "safely (\<lambda>(i, st'). kept st st')
      (let (ei, c) = cache_table i (cs_keyval_cache st2); (itr, c) = cache_add (i, pk) c
       in Inr (itr, st2\<lparr>cs_keyval_cache := c\<rparr>))"
      using c r' by (simp add: kept_def)
  qed
  show "safely (\<lambda>(i, st'). kept st st') (case x of (tableid, st) \<Rightarrow> eos_assert (payer \<noteq> 0) invalid_table_payer
     (res_bind (tbl_create (tableid, pk) \<lparr>kv_payer = payer, kv_value = buffer\<rparr> (cd_rows (cs_db st))) (\<lambda>rows.
      res_bind (increment_count tableid ((cs_db st)\<lparr>cd_rows := rows\<rparr>)) (\<lambda>db.
      let billable_size = word_of_nat (length buffer + billable_size_key_value_object) in
      res_bind (update_db_usage env payer billable_size (st\<lparr>cs_db := db\<rparr>)) (\<lambda>st.
      let (ei, c) = cache_table tableid (cs_keyval_cache st);
          (itr, c) = cache_add (tableid, pk) c
      in Inr (itr, st\<lparr>cs_keyval_cache := c\<rparr>))))))"
  proof (cases "tbl_find (cd_rows (cs_db st1)) (i, pk)")
    case None
    then have "tbl_create (i, pk) \<lparr>kv_payer = payer, kv_value = buffer\<rparr> (cd_rows (cs_db st1)) = Inr (cd_rows db1)"
      by (simp add: tbl_create_def db1_def row_def)
    moreover have "(cs_db st1)\<lparr>cd_rows := cd_rows db1\<rparr> = db1" by (simp add: db1_def)
    ultimately show ?thesis using safe[OF None] inc by (simp add: x eos_assert_def Let_def del: tbl_create_Inr)
  next
    case (Some v)
    then show ?thesis by (simp add: x tbl_create_def eos_assert_def)
  qed
qed

lemma cache_get_errors:
  "cache_get i c = Inl e \<Longrightarrow> e = invalid_table_iterator \<or> e = table_operation_not_permitted"
  by (auto simp: cache_get_def eos_assert_def split: if_splits option.splits)

text \<open>What an operation on an iterator starts with: the row and its table are there.\<close>

lemma safely_access:
  assumes "cache_wf (fst ` set rows) c" and "tbl_wf rows" and "contract_wf db"
    and "\<And>k obj. tbl_find rows k = Some obj \<Longrightarrow> 0 < table_rows db (fst k)"
    and "\<And>k obj t. cache_get i c = Inr k \<Longrightarrow> tbl_find rows k = Some obj \<Longrightarrow> tbl_find (cd_tables db) (fst k) = Some t \<Longrightarrow>
      safely P (f k obj (fst k) t)"
  shows "safely P (res_bind (cache_get i c) (\<lambda>k. res_bind (deref rows k) (\<lambda>obj.
    res_bind (cache_get_table (fst k) c) (\<lambda>t_id. res_bind (deref (cd_tables db) t_id) (f k obj t_id)))))"
proof (cases "cache_get i c")
  case (Inl e)
  then show ?thesis using cache_get_errors[OF Inl] by auto
next
  case (Inr k)
  obtain obj where obj: "tbl_find rows k = Some obj"
    using cache_get_cached(1)[OF assms(1) Inr] tbl_find_None[of rows k] by (cases "tbl_find rows k") auto
  obtain t where t: "tbl_find (cd_tables db) (fst k) = Some t"
    using contract_wf_butD(7)[OF assms(3), of "fst k"] assms(4)[OF obj] by auto
  show ?thesis using assms(5)[OF Inr obj t] Inr obj t cache_get_table_cached[OF assms(1) Inr] by (simp add: deref_def)
qed

lemma safely_db_remove_i64:
  assumes "contract_state_wf st"
  shows "safely (kept st) (db_remove_i64 env iterator st)"
  unfolding db_remove_i64_def
proof (rule safely_access)
  note w = contract_state_wf_butD[OF assms] and d = contract_wf_butD[OF contract_state_wf_butD(1)[OF assms]]
  show "cache_wf (fst ` set (cd_rows (cs_db st))) (cs_keyval_cache st)" "tbl_wf (cd_rows (cs_db st))" "contract_wf (cs_db st)"
    using w(3) d(2) w(1) .
  show "0 < table_rows (cs_db st) (fst k)" if "tbl_find (cd_rows (cs_db st)) k = Some obj" for k obj
    using that by (rule table_rows_pos)
  fix k obj t assume get: "cache_get iterator (cs_keyval_cache st) = Inr k" and obj: "tbl_find (cd_rows (cs_db st)) k = Some obj"
    and t: "tbl_find (cd_tables (cs_db st)) (fst k) = Some t"
  define size where "size = length (kv_value obj) + billable_size_key_value_object"
  have s62: "size < 2 ^ 62" using d(9)[OF obj] by (simp add: size_def)
  define t' where "t' = t\<lparr>ti_count := ti_count t - 1\<rparr>"
  define db1 where "db1 = (cs_db st)\<lparr>cd_tables := tbl_insert (fst k) t' (cd_tables (cs_db st))\<rparr>"
  define db2 where "db2 = db1\<lparr>cd_rows := tbl_remove k (cd_rows db1)\<rparr>"
  have dec: "decrement_count (fst k) (cs_db st) = Inr (t', db1)"
    using t by (simp add: decrement_count_def deref_def t'_def db1_def Let_def)
  have tr: "table_rows db2 j + of_bool (fst k = j) = table_rows (cs_db st) j" for j
    by (rule table_rows_remove[OF d(2) obj]) (simp_all add: db1_def db2_def)
  have n: "unat (ti_count t - 1) = table_rows db2 (fst k)" using count_down[of "ti_count t"] d(5)[OF t] tr[of "fst k"] by simp
  have wf2: "contract_wf_but {fst k} db2"
  proof (rule contract_wf_recount[OF w(1) t, where n = "ti_count t - 1"])
    show "length (kv_value obj) < 2 ^ 32" if "tbl_find (cd_rows db2) k = Some obj" for k obj
      using that d(9)[of k obj] by (auto simp: db1_def db2_def split: if_splits)
    show "table_rows db2 j = table_rows (cs_db st) j" if "j \<noteq> fst k" for j using tr[of j] that by simp
  qed (use d(2,3) n in \<open>simp_all add: db1_def db2_def t'_def\<close>)
  have t2: "tbl_find (cd_tables db2) (fst k) = Some t'" using d(1) by (simp add: db1_def db2_def)
  have ram: "contract_ram db2 a + (if kv_payer obj = a then size else 0) = contract_ram (cs_db st) a" for a
  proof -
    have "contract_ram db1 a = contract_ram (cs_db st) a"
      by (rule contract_ram_recount[OF d(1) t, where n = "ti_count t - 1"]) (simp_all add: db1_def t'_def)
    moreover have "contract_ram db2 a + (if kv_payer obj = a then size else 0) = contract_ram db1 a"
      using contract_ram_rows[of db2 db1 a] tbl_sum_remove[OF d(2) obj, of "\<lambda>r. if kv_payer (snd r) = a
        then length (kv_value (snd r)) + billable_size_key_value_object else 0"]
      by (auto simp: db1_def db2_def size_def split: if_splits)
    ultimately show ?thesis by simp
  qed
  have "safely (kept st)
    (res_bind (update_db_usage env (kv_payer obj) (- word_of_nat size) st) (\<lambda>st.
      res_bind (decrement_count (fst k) (cs_db st)) (\<lambda>(table_obj, db).
      let st = st\<lparr>cs_db := db\<lparr>cd_rows := tbl_remove k (cd_rows db)\<rparr>\<rparr> in
      res_bind (if ti_count table_obj = 0 then remove_table env (fst k) table_obj st else Inr st) (\<lambda>st.
      res_bind (cache_remove iterator (cs_keyval_cache st)) (\<lambda>c.
      Inr (st\<lparr>cs_keyval_cache := c\<rparr>))))))" (is "safely _ (res_bind _ ?rest)")
  proof (rule safely_bind[OF safely_update_db_usage[OF w(2) int64_min_sizes(2)[OF s62]]])
    fix st1 assume "rebilled st st1 \<and> (\<forall>a. billed_ram (cs_resources st1) a =
        billed_ram (cs_resources st) a + (if a = kv_payer obj then sint (- word_of_nat size :: i64) else 0))"
    then have r: "rebilled st st1" and b: "billed_ram (cs_resources st1) a =
        billed_ram (cs_resources st) a + (if a = kv_payer obj then - int size else 0)" for a
      using sint_sizes(2)[OF s62] by simp_all
    note r' = r[unfolded rebilled_def]
    define st2 where "st2 = st1\<lparr>cs_db := db2\<rparr>"
    obtain c' where c': "cache_remove iterator (cs_keyval_cache st) = Inr c'" "cache_wf (fst ` set (cd_rows (cs_db st)) - {k}) c'"
      using cache_wf_cache_remove[OF w(3) get] by blast
    have o2: "other_ram st2 a = other_ram st a" for a
      using b[of a] ram[of a] by (auto simp: other_ram_def st2_def split: if_splits)
    have "safely (kept st) (res_bind (if ti_count t' = 0 then remove_table env (fst k) t' st2 else Inr st2) (\<lambda>st.
        res_bind (cache_remove iterator (cs_keyval_cache st)) (\<lambda>c. Inr (st\<lparr>cs_keyval_cache := c\<rparr>))))"
    proof (rule safely_bind[OF safely_remove_table])
      show "contract_wf_but {fst k} (cs_db st2)" "tbl_wf (rl_usage (cs_resources st2))" "tbl_find (cd_tables (cs_db st2)) (fst k) = Some t'"
        using wf2 r' t2 by (simp_all add: st2_def)
      fix st3 assume st3: "contract_wf (cs_db st3) \<and> tbl_wf (rl_usage (cs_resources st3)) \<and>
        (\<forall>a. other_ram st3 a = other_ram st2 a) \<and>
        cs_keyval_cache st3 = cs_keyval_cache st2 \<and> cs_itr_cache st3 = cs_itr_cache st2 \<and>
        cd_rows (cs_db st3) = cd_rows (cs_db st2) \<and> cd_secondary (cs_db st3) = cd_secondary (cs_db st2)"
      have same: "cs_keyval_cache st2 = cs_keyval_cache st" "cs_itr_cache st2 = cs_itr_cache st"
          "fst ` set (cd_rows (cs_db st2)) = fst ` set (cd_rows (cs_db st)) - {k}" "cd_secondary (cs_db st2) = cd_secondary (cs_db st)"
        using r' by (simp_all add: st2_def) (simp_all add: db1_def db2_def)
      have "other_ram (st3\<lparr>cs_keyval_cache := c'\<rparr>) a = other_ram st a" for a
        using st3 o2[of a] by (simp add: other_ram_def)
      moreover have "contract_state_wf (st3\<lparr>cs_keyval_cache := c'\<rparr>)"
        using st3 same c'(2) w(4) by (simp add: contract_state_wf_but_def)
      ultimately show "safely (kept st) (res_bind (cache_remove iterator (cs_keyval_cache st3)) (\<lambda>c. Inr (st3\<lparr>cs_keyval_cache := c\<rparr>)))"
        using c'(1) same st3 by (simp add: kept_def)
    qed
    moreover have "cs_db st1 = cs_db st" using r' by simp
    ultimately show "safely (kept st) (?rest st1)" using dec by (simp add: Let_def st2_def db2_def split: if_splits)
  qed
  then show "safely (kept st) (eos_assert (ti_code t = ae_receiver env) table_access_violation
     (res_bind (update_db_usage env (kv_payer obj) (- word_of_nat (length (kv_value obj) + billable_size_key_value_object)) st) (\<lambda>st.
      res_bind (decrement_count (fst k) (cs_db st)) (\<lambda>(table_obj, db).
      let st = st\<lparr>cs_db := db\<lparr>cd_rows := tbl_remove k (cd_rows db)\<rparr>\<rparr> in
      res_bind (if ti_count table_obj = 0 then remove_table env (fst k) table_obj st else Inr st) (\<lambda>st.
      res_bind (cache_remove iterator (cs_keyval_cache st)) (\<lambda>c.
      Inr (st\<lparr>cs_keyval_cache := c\<rparr>)))))))"
    unfolding size_def by (intro safely_assert) simp_all
qed

text \<open>The change of a row: the bytes move from the old payer to the new one.\<close>

lemma safely_rebill:
  assumes "tbl_wf (rl_usage (cs_resources st))" and "old < 2 ^ 62" and "new < 2 ^ 62"
  shows "safely (\<lambda>st'. rebilled st st' \<and> (\<forall>a. billed_ram (cs_resources st') a = billed_ram (cs_resources st) a
        - (if a = p then int old else 0) + (if a = q then int new else 0)))
    (if p \<noteq> q then res_bind (update_db_usage env p (- word_of_nat old) st) (update_db_usage env q (word_of_nat new))
     else if (word_of_nat old :: i64) \<noteq> word_of_nat new then update_db_usage env p (word_of_nat new - word_of_nat old) st
     else Inr st)" (is "safely ?P _")
proof (cases "p = q")
  case False
  have "safely ?P (res_bind (update_db_usage env p (- word_of_nat old) st) (update_db_usage env q (word_of_nat new)))"
  proof (rule safely_bind[OF safely_update_db_usage[OF assms(1) int64_min_sizes(2)[OF assms(2)]]])
    fix st1 assume st1: "rebilled st st1 \<and> (\<forall>a. billed_ram (cs_resources st1) a =
        billed_ram (cs_resources st) a + (if a = p then sint (- word_of_nat old :: i64) else 0))"
    then have "tbl_wf (rl_usage (cs_resources st1))" by (simp add: rebilled_def)
    from safely_update_db_usage[OF this int64_min_sizes(1)[OF assms(3)], of q env]
    show "safely ?P (update_db_usage env q (word_of_nat new) st1)"
      by (rule safely_mono) (use st1 sint_sizes(1)[OF assms(3)] sint_sizes(2)[OF assms(2)] in \<open>auto simp: rebilled_def\<close>)
  qed
  then show ?thesis using False by simp
next
  case True
  have s: "sint (word_of_nat new - word_of_nat old :: i64) = int new - int old" by (rule sint_sizes(3)[OF assms(3,2)])
  show ?thesis
  proof (cases "(word_of_nat old :: i64) = word_of_nat new")
    case same: True
    then have "old = new" using s by simp
    then show ?thesis using \<open>p = q\<close> same assms(1) by (simp add: rebilled_def)
  next
    case False
    from safely_update_db_usage[OF assms(1) int64_min_sizes(3)[OF assms(3,2)], of p env]
    have "safely ?P (update_db_usage env p (word_of_nat new - word_of_nat old) st)"
      by (rule safely_mono) (use \<open>p = q\<close> s in auto)
    then show ?thesis using False \<open>p = q\<close> by simp
  qed
qed

lemma contract_wf_replace:
  assumes "contract_wf db" and "cd_tables db' = cd_tables db" and "cd_next_table db' = cd_next_table db"
    and "\<And>i. table_rows db' i = table_rows db i" and "tbl_wf (cd_rows db')" and "\<And>kind. tbl_wf (cd_secondary db' kind)"
    and "\<And>k obj. tbl_find (cd_rows db') k = Some obj \<Longrightarrow> length (kv_value obj) < 2 ^ 32"
  shows "contract_wf db'"
proof -
  note d = contract_wf_butD[OF assms(1)]
  show ?thesis unfolding contract_wf_but_def assms(2,3,4)
  proof (intro conjI allI impI)
    show "tbl_wf (cd_tables db)" "tbl_wf (cd_rows db')" "tbl_wf (cd_secondary db' kind)" for kind using d(1) assms(5,6) by simp_all
  next
    fix i t assume t: "tbl_find (cd_tables db) i = Some t"
    show "i < cd_next_table db" "unat (ti_count t) = table_rows db i" "i \<in> {} \<or> 0 < table_rows db i"
      using d(4)[OF t] d(5)[OF t] d(6)[OF t] .
  next
    fix i assume "0 < table_rows db i" then show "tbl_find (cd_tables db) i \<noteq> None" by (rule d(7))
  next
    fix i t j u assume "tbl_find (cd_tables db) i = Some t" "tbl_find (cd_tables db) j = Some u"
      "ti_code t = ti_code u" "ti_scope t = ti_scope u" "ti_table t = ti_table u"
    then show "i = j" by (rule d(8))
  next
    fix k obj assume "tbl_find (cd_rows db') k = Some obj" then show "length (kv_value obj) < 2 ^ 32" by (rule assms(7))
  qed
qed

lemma safely_db_update_i64:
  assumes "contract_state_wf st" and "length buffer < 2 ^ 32"
  shows "safely (kept st) (db_update_i64 env iterator payer buffer st)"
  unfolding db_update_i64_def
proof (rule safely_access)
  note w = contract_state_wf_butD[OF assms(1)] and d = contract_wf_butD[OF contract_state_wf_butD(1)[OF assms(1)]]
  show "cache_wf (fst ` set (cd_rows (cs_db st))) (cs_keyval_cache st)" "tbl_wf (cd_rows (cs_db st))" "contract_wf (cs_db st)"
    using w(3) d(2) w(1) .
  show "0 < table_rows (cs_db st) (fst k)" if "tbl_find (cd_rows (cs_db st)) k = Some obj" for k obj
    using that by (rule table_rows_pos)
  fix k obj t assume get: "cache_get iterator (cs_keyval_cache st) = Inr k" and obj: "tbl_find (cd_rows (cs_db st)) k = Some obj"
    and t: "tbl_find (cd_tables (cs_db st)) (fst k) = Some t"
  define q where "q = (if payer = 0 then kv_payer obj else payer)"
  define row where "row = \<lparr>kv_payer = q, kv_value = buffer\<rparr>"
  define db' where "db' = (cs_db st)\<lparr>cd_rows := tbl_insert k row (cd_rows (cs_db st))\<rparr>"
  define old where "old = length (kv_value obj) + billable_size_key_value_object"
  define new where "new = length buffer + billable_size_key_value_object"
  have s62: "old < 2 ^ 62" "new < 2 ^ 62" using d(9)[OF obj] assms(2) by (simp_all add: old_def new_def)
  have wf': "contract_wf db'"
  proof (rule contract_wf_replace[OF w(1)])
    show "table_rows db' i = table_rows (cs_db st) i" for i
      by (rule table_rows_replace[OF d(2) obj]) (simp_all add: db'_def)
    show "length (kv_value o') < 2 ^ 32" if "tbl_find (cd_rows db') l = Some o'" for l o'
      using that d(9)[of l o'] d(2) assms(2) by (auto simp: db'_def row_def split: if_splits)
  qed (use d(2,3) in \<open>simp_all add: db'_def\<close>)
  have ram: "contract_ram db' a + (if a = kv_payer obj then old else 0) = contract_ram (cs_db st) a + (if a = q then new else 0)" for a
    using contract_ram_rows[of db' "cs_db st" a] tbl_sum_insert_old[OF d(2) obj, of "\<lambda>r. if kv_payer (snd r) = a
        then length (kv_value (snd r)) + billable_size_key_value_object else 0" row]
    by (auto simp: db'_def row_def old_def new_def split: if_splits)
  have keys: "fst ` set (cd_rows db') = fst ` set (cd_rows (cs_db st))"
    using tbl_find_Some_mem[OF obj] by (force simp: db'_def)
  have "safely (kept st) (res_bind
      (if kv_payer obj \<noteq> q then res_bind (update_db_usage env (kv_payer obj) (- word_of_nat old) st) (update_db_usage env q (word_of_nat new))
       else if (word_of_nat old :: i64) \<noteq> word_of_nat new then update_db_usage env (kv_payer obj) (word_of_nat new - word_of_nat old) st
       else Inr st)
      (\<lambda>st. let db = cs_db st in Inr (st\<lparr>cs_db := db\<lparr>cd_rows := tbl_insert k \<lparr>kv_payer = q, kv_value = buffer\<rparr> (cd_rows db)\<rparr>\<rparr>)))"
  proof (rule safely_bind[OF safely_rebill[OF w(2) s62]])
    fix st1 assume st1: "rebilled st st1 \<and> (\<forall>a. billed_ram (cs_resources st1) a = billed_ram (cs_resources st) a
        - (if a = kv_payer obj then int old else 0) + (if a = q then int new else 0))"
    note r' = st1[THEN conjunct1, unfolded rebilled_def]
    have "other_ram (st1\<lparr>cs_db := db'\<rparr>) a = other_ram st a" for a
      using st1 ram[of a] by (auto simp: other_ram_def split: if_splits)
    moreover have "contract_state_wf (st1\<lparr>cs_db := db'\<rparr>)"
      using wf' r' w(3,4) unfolding contract_state_wf_but_def by (simp add: keys) (simp add: db'_def)
    ultimately show "safely (kept st) (let db = cs_db st1 in
        Inr (st1\<lparr>cs_db := db\<lparr>cd_rows := tbl_insert k \<lparr>kv_payer = q, kv_value = buffer\<rparr> (cd_rows db)\<rparr>\<rparr>))"
      using r' by (simp add: Let_def kept_def db'_def row_def)
  qed
  then show "safely (kept st) (eos_assert (ti_code t = ae_receiver env) table_access_violation
     (let overhead = billable_size_key_value_object;
          old_size = word_of_nat (length (kv_value obj) + overhead) :: i64;
          new_size = word_of_nat (length buffer + overhead) :: i64;
          payer = (if payer = 0 then kv_payer obj else payer)
      in res_bind
           (if kv_payer obj \<noteq> payer then
              res_bind (update_db_usage env (kv_payer obj) (- old_size) st) (update_db_usage env payer new_size)
            else if old_size \<noteq> new_size then update_db_usage env (kv_payer obj) (new_size - old_size) st
            else Inr st) (\<lambda>st.
         let db = cs_db st in
         Inr (st\<lparr>cs_db := db\<lparr>cd_rows := tbl_insert k \<lparr>kv_payer = payer, kv_value = buffer\<rparr> (cd_rows db)\<rparr>\<rparr>))))"
    unfolding Let_def old_def new_def q_def by (intro safely_assert) simp_all
qed

end
