(* ===== verification/Contract_Indices.thy ===== *)
theory Contract_Indices
  imports Contract_Operations
begin

text \<open>
  The secondary indices keep the same invariant, and so do the searches and walks in all indices. The
  properties of the contract tables follow for every sequence of operations.
\<close>

section \<open>The secondary indices\<close>

lemma safely_index_store:
  assumes "contract_state_wf st" and "\<And>i. table_rows (cs_db st) i < 2 ^ 32 - 1"
  shows "safely (\<lambda>(i, st'). kept st st') (index_store kind env scope tab payer pk value st)"
  unfolding index_store_def
proof (intro safely_assert, simp, simp, rule safely_bind[OF safely_find_or_create_table[OF assms(1)]])
  fix x assume "case x of (i, st') \<Rightarrow> contract_state_wf_but {i} st' \<and> (\<exists>t. tbl_find (cd_tables (cs_db st')) i = Some t) \<and>
      cd_rows (cs_db st') = cd_rows (cs_db st) \<and> cd_secondary (cs_db st') = cd_secondary (cs_db st) \<and>
      (\<forall>a. other_ram st' a = other_ram st a)"
  then obtain i st1 t where x: "x = (i, st1)" and wf: "contract_state_wf_but {i} st1"
      and t: "tbl_find (cd_tables (cs_db st1)) i = Some t" and rows: "cd_rows (cs_db st1) = cd_rows (cs_db st)"
      "cd_secondary (cs_db st1) = cd_secondary (cs_db st)" and other: "\<And>a. other_ram st1 a = other_ram st a" by auto
  note w = contract_state_wf_butD[OF wf] and d = contract_wf_butD[OF contract_state_wf_butD(1)[OF wf]]
  define row where "row = \<lparr>io_payer = payer, io_secondary_key = value\<rparr>"
  define new_rows where "new_rows = tbl_insert (i, pk) row (cd_secondary (cs_db st1) kind)"
  define db1 where "db1 = (cs_db st1)\<lparr>cd_secondary := (cd_secondary (cs_db st1))(kind := new_rows)\<rparr>"
  define db2 where "db2 = db1\<lparr>cd_tables := tbl_insert i (t\<lparr>ti_count := ti_count t + 1\<rparr>) (cd_tables db1)\<rparr>"
  define size where "size = billable_size_index_object kind"
  have inc: "increment_count i db1 = Inr db2" using t by (simp add: increment_count_def deref_def db1_def db2_def)
  have safe: "safely (\<lambda>(i, st'). kept st st')
    (res_bind (update_db_usage env payer (word_of_nat size) (st1\<lparr>cs_db := db2\<rparr>)) (\<lambda>st.
      let (ei, c) = cache_table i (cs_itr_cache st kind); (itr, c) = cache_add (i, pk) c
      in Inr (itr, st\<lparr>cs_itr_cache := (cs_itr_cache st)(kind := c)\<rparr>)))"
    if new: "tbl_find (cd_secondary (cs_db st1) kind) (i, pk) = None"
  proof (rule safely_bind[OF safely_update_db_usage[OF _ int64_min_sizes(1)]])
    show "size < 2 ^ 62" unfolding size_def by (rule billable_size_index_object_less)
    show "tbl_wf (rl_usage (cs_resources (st1\<lparr>cs_db := db2\<rparr>)))" using w(2) by simp
    have tr: "table_rows db2 j = table_rows (cs_db st1) j + of_bool (i = j)" for j
      using table_rows_secondary_insert[OF new, of db2 row j] by (simp add: db1_def db2_def new_rows_def)
    have "table_rows (cs_db st1) i < 2 ^ 32 - 1" using assms(2)[of i] table_rows_same[OF rows, of i] by simp
    then have n: "unat (ti_count t + 1) = table_rows db2 i" using count_up[of "ti_count t"] d(5)[OF t] tr[of i] by simp
    have wf2: "contract_wf db2"
    proof (rule contract_wf_recount[OF w(1) t, where n = "ti_count t + 1"])
      show "length (kv_value obj) < 2 ^ 32" if "tbl_find (cd_rows db2) k = Some obj" for k obj
        using that d(9)[of k obj] by (simp add: db1_def db2_def)
    qed (use d(2,3) tr n in \<open>simp_all add: db1_def db2_def new_rows_def\<close>)
    have ram: "contract_ram db2 a = contract_ram (cs_db st1) a + (if payer = a then size else 0)" for a
    proof -
      have "contract_ram db2 a = contract_ram db1 a"
        by (rule contract_ram_recount[of db1 i t]) (use d(1) t in \<open>simp_all add: db1_def db2_def\<close>)
      moreover have "contract_ram db1 a = contract_ram (cs_db st1) a + (if payer = a then size else 0)"
        using contract_ram_secondary[of db1 "cs_db st1" kind new_rows a] new
        by (auto simp: db1_def new_rows_def tbl_sum_insert_new row_def size_def)
      ultimately show ?thesis by simp
    qed
    fix st2 assume "rebilled (st1\<lparr>cs_db := db2\<rparr>) st2 \<and> (\<forall>a. billed_ram (cs_resources st2) a =
      billed_ram (cs_resources (st1\<lparr>cs_db := db2\<rparr>)) a + (if a = payer then sint (word_of_nat size :: i64) else 0))"
    then have r: "rebilled (st1\<lparr>cs_db := db2\<rparr>) st2" and b: "billed_ram (cs_resources st2) a =
        billed_ram (cs_resources st1) a + (if a = payer then int size else 0)" for a
      using sint_sizes(1)[OF billable_size_index_object_less[of kind]] by (simp_all add: size_def)
    note r' = r[unfolded rebilled_def]
    obtain ei c1 itr c2 where c: "cache_table i (cs_itr_cache st1 kind) = (ei, c1)" "cache_add (i, pk) c1 = (itr, c2)" by fastforce
    have "contract_state_wf (st2\<lparr>cs_itr_cache := (cs_itr_cache st2)(kind := c2)\<rparr>)" unfolding contract_state_wf_but_def
      using r' wf2 w(3,4) cache_wf_stored[OF w(4), of "(i, pk)" kind ei c1 itr c2] c
      by (simp add: db1_def db2_def new_rows_def)
    moreover have "other_ram (st2\<lparr>cs_itr_cache := (cs_itr_cache st2)(kind := c2)\<rparr>) a = other_ram st a" for a
      using other[of a] b[of a] ram[of a] r' by (auto simp: other_ram_def split: if_splits)
    ultimately show "safely (\<lambda>(i, st'). kept st st')
      (let (ei, c) = cache_table i (cs_itr_cache st2 kind); (itr, c) = cache_add (i, pk) c
       in Inr (itr, st2\<lparr>cs_itr_cache := (cs_itr_cache st2)(kind := c)\<rparr>))"
      using c r' by (simp add: kept_def)
  qed
  show "safely (\<lambda>(i, st'). kept st st') (case x of (tableid, st) \<Rightarrow>
      res_bind (tbl_create (tableid, pk) \<lparr>io_payer = payer, io_secondary_key = value\<rparr> (cd_secondary (cs_db st) kind)) (\<lambda>rows.
      res_bind (increment_count tableid ((cs_db st)\<lparr>cd_secondary := (cd_secondary (cs_db st))(kind := rows)\<rparr>)) (\<lambda>db.
      res_bind (update_db_usage env payer (word_of_nat (billable_size_index_object kind)) (st\<lparr>cs_db := db\<rparr>)) (\<lambda>st.
      let (ei, c) = cache_table tableid (cs_itr_cache st kind);
          (itr, c) = cache_add (tableid, pk) c
      in Inr (itr, st\<lparr>cs_itr_cache := (cs_itr_cache st)(kind := c)\<rparr>)))))"
  proof (cases "tbl_find (cd_secondary (cs_db st1) kind) (i, pk)")
    case None
    then have "tbl_create (i, pk) \<lparr>io_payer = payer, io_secondary_key = value\<rparr> (cd_secondary (cs_db st1) kind) = Inr new_rows"
      by (simp add: new_rows_def row_def)
    then show ?thesis using safe[OF None] inc by (simp add: x Let_def db1_def size_def del: tbl_create_Inr)
  next
    case (Some v)
    then show ?thesis by (simp add: x tbl_create_def eos_assert_def)
  qed
qed

lemma safely_index_remove:
  assumes "contract_state_wf st"
  shows "safely (kept st) (index_remove kind env iterator st)"
  unfolding index_remove_def
proof (rule safely_access)
  note w = contract_state_wf_butD[OF assms] and d = contract_wf_butD[OF contract_state_wf_butD(1)[OF assms]]
  show "cache_wf (fst ` set (cd_secondary (cs_db st) kind)) (cs_itr_cache st kind)" "tbl_wf (cd_secondary (cs_db st) kind)"
    "contract_wf (cs_db st)" using w(4) d(3) w(1) .
  show "0 < table_rows (cs_db st) (fst k)" if "tbl_find (cd_secondary (cs_db st) kind) k = Some obj" for k obj
    using that by (rule table_rows_secondary_pos)
  fix k obj t assume get: "cache_get iterator (cs_itr_cache st kind) = Inr k" and obj: "tbl_find (cd_secondary (cs_db st) kind) k = Some obj"
    and t: "tbl_find (cd_tables (cs_db st)) (fst k) = Some t"
  define size where "size = billable_size_index_object kind"
  define t' where "t' = t\<lparr>ti_count := ti_count t - 1\<rparr>"
  define db1 where "db1 = (cs_db st)\<lparr>cd_tables := tbl_insert (fst k) t' (cd_tables (cs_db st))\<rparr>"
  define db2 where "db2 = db1\<lparr>cd_secondary := (cd_secondary db1)(kind := tbl_remove k (cd_secondary db1 kind))\<rparr>"
  have dec: "decrement_count (fst k) (cs_db st) = Inr (t', db1)"
    using t by (simp add: decrement_count_def deref_def t'_def db1_def Let_def)
  have tr: "table_rows db2 j + of_bool (fst k = j) = table_rows (cs_db st) j" for j
    by (rule table_rows_secondary_remove[OF d(3) obj]) (simp_all add: db1_def db2_def)
  have n: "unat (ti_count t - 1) = table_rows db2 (fst k)" using count_down[of "ti_count t"] d(5)[OF t] tr[of "fst k"] by simp
  have wf2: "contract_wf_but {fst k} db2"
  proof (rule contract_wf_recount[OF w(1) t, where n = "ti_count t - 1"])
    show "length (kv_value obj) < 2 ^ 32" if "tbl_find (cd_rows db2) k = Some obj" for k obj
      using that d(9)[of k obj] by (simp add: db1_def db2_def)
    show "table_rows db2 j = table_rows (cs_db st) j" if "j \<noteq> fst k" for j using tr[of j] that by simp
  qed (use d(2,3) n in \<open>simp_all add: db1_def db2_def t'_def\<close>)
  have t2: "tbl_find (cd_tables db2) (fst k) = Some t'" using d(1) by (simp add: db1_def db2_def)
  have ram: "contract_ram db2 a + (if io_payer obj = a then size else 0) = contract_ram (cs_db st) a" for a
  proof -
    have "contract_ram db1 a = contract_ram (cs_db st) a"
      by (rule contract_ram_recount[OF d(1) t, where n = "ti_count t - 1"]) (simp_all add: db1_def t'_def)
    moreover have "contract_ram db2 a + (if io_payer obj = a then size else 0) = contract_ram db1 a"
      using contract_ram_secondary[of db2 db1 kind "tbl_remove k (cd_secondary db1 kind)" a]
        tbl_sum_remove[OF d(3) obj, of "\<lambda>r. if io_payer (snd r) = a then billable_size_index_object kind else 0"]
      by (auto simp: db1_def db2_def size_def split: if_splits)
    ultimately show ?thesis by simp
  qed
  have "safely (kept st)
    (res_bind (update_db_usage env (io_payer obj) (- word_of_nat size) st) (\<lambda>st.
      res_bind (decrement_count (fst k) (cs_db st)) (\<lambda>(table_obj, db).
      let st = st\<lparr>cs_db := db\<lparr>cd_secondary := (cd_secondary db)(kind := tbl_remove k (cd_secondary db kind))\<rparr>\<rparr> in
      res_bind (if ti_count table_obj = 0 then remove_table env (fst k) table_obj st else Inr st) (\<lambda>st.
      res_bind (cache_remove iterator (cs_itr_cache st kind)) (\<lambda>c.
      Inr (st\<lparr>cs_itr_cache := (cs_itr_cache st)(kind := c)\<rparr>))))))" (is "safely _ (res_bind _ ?rest)")
  proof (rule safely_bind[OF safely_update_db_usage[OF w(2) int64_min_sizes(2)]])
    show "size < 2 ^ 62" unfolding size_def by (rule billable_size_index_object_less)
    fix st1 assume "rebilled st st1 \<and> (\<forall>a. billed_ram (cs_resources st1) a =
        billed_ram (cs_resources st) a + (if a = io_payer obj then sint (- word_of_nat size :: i64) else 0))"
    then have r: "rebilled st st1" and b: "billed_ram (cs_resources st1) a =
        billed_ram (cs_resources st) a + (if a = io_payer obj then - int size else 0)" for a
      using sint_sizes(2)[OF billable_size_index_object_less[of kind]] by (simp_all add: size_def)
    note r' = r[unfolded rebilled_def]
    define st2 where "st2 = st1\<lparr>cs_db := db2\<rparr>"
    obtain c' where c': "cache_remove iterator (cs_itr_cache st kind) = Inr c'"
        "cache_wf (fst ` set (cd_secondary (cs_db st) kind) - {k}) c'"
      using cache_wf_cache_remove[OF w(4) get] by blast
    have o2: "other_ram st2 a = other_ram st a" for a
      using b[of a] ram[of a] by (auto simp: other_ram_def st2_def split: if_splits)
    have "safely (kept st) (res_bind (if ti_count t' = 0 then remove_table env (fst k) t' st2 else Inr st2) (\<lambda>st.
        res_bind (cache_remove iterator (cs_itr_cache st kind)) (\<lambda>c. Inr (st\<lparr>cs_itr_cache := (cs_itr_cache st)(kind := c)\<rparr>))))"
    proof (rule safely_bind[OF safely_remove_table])
      show "contract_wf_but {fst k} (cs_db st2)" "tbl_wf (rl_usage (cs_resources st2))" "tbl_find (cd_tables (cs_db st2)) (fst k) = Some t'"
        using wf2 r' t2 by (simp_all add: st2_def)
      fix st3 assume st3: "contract_wf (cs_db st3) \<and> tbl_wf (rl_usage (cs_resources st3)) \<and>
        (\<forall>a. other_ram st3 a = other_ram st2 a) \<and>
        cs_keyval_cache st3 = cs_keyval_cache st2 \<and> cs_itr_cache st3 = cs_itr_cache st2 \<and>
        cd_rows (cs_db st3) = cd_rows (cs_db st2) \<and> cd_secondary (cs_db st3) = cd_secondary (cs_db st2)"
      have same: "cs_keyval_cache st2 = cs_keyval_cache st" "cs_itr_cache st2 = cs_itr_cache st"
          "cd_secondary (cs_db st2) = (cd_secondary (cs_db st))(kind := tbl_remove k (cd_secondary (cs_db st) kind))"
          "cd_rows (cs_db st2) = cd_rows (cs_db st)"
        using r' by (simp_all add: st2_def) (simp_all add: db1_def db2_def)
      have "other_ram (st3\<lparr>cs_itr_cache := (cs_itr_cache st)(kind := c')\<rparr>) a = other_ram st a" for a
        using st3 o2[of a] by (simp add: other_ram_def)
      moreover have "contract_state_wf (st3\<lparr>cs_itr_cache := (cs_itr_cache st)(kind := c')\<rparr>)"
        using st3 same c'(2) w(3,4) by (simp add: contract_state_wf_but_def)
      ultimately show "safely (kept st) (res_bind (cache_remove iterator (cs_itr_cache st3 kind))
          (\<lambda>c. Inr (st3\<lparr>cs_itr_cache := (cs_itr_cache st3)(kind := c)\<rparr>)))"
        using c'(1) same st3 by (simp add: kept_def)
    qed
    moreover have "cs_db st1 = cs_db st" using r' by simp
    ultimately show "safely (kept st) (?rest st1)" using dec by (simp add: Let_def st2_def db2_def split: if_splits)
  qed
  then show "safely (kept st) (eos_assert (ti_code t = ae_receiver env) table_access_violation
     (res_bind (update_db_usage env (io_payer obj) (- word_of_nat (billable_size_index_object kind)) st) (\<lambda>st.
      res_bind (decrement_count (fst k) (cs_db st)) (\<lambda>(table_obj, db).
      let st = st\<lparr>cs_db := db\<lparr>cd_secondary := (cd_secondary db)(kind := tbl_remove k (cd_secondary db kind))\<rparr>\<rparr> in
      res_bind (if ti_count table_obj = 0 then remove_table env (fst k) table_obj st else Inr st) (\<lambda>st.
      res_bind (cache_remove iterator (cs_itr_cache st kind)) (\<lambda>c.
      Inr (st\<lparr>cs_itr_cache := (cs_itr_cache st)(kind := c)\<rparr>)))))))"
    unfolding size_def by (intro safely_assert) simp_all
qed

lemma safely_index_update:
  assumes "contract_state_wf st"
  shows "safely (kept st) (index_update kind env iterator payer secondary st)"
  unfolding index_update_def
proof (rule safely_access)
  note w = contract_state_wf_butD[OF assms(1)] and d = contract_wf_butD[OF contract_state_wf_butD(1)[OF assms(1)]]
  show "cache_wf (fst ` set (cd_secondary (cs_db st) kind)) (cs_itr_cache st kind)" "tbl_wf (cd_secondary (cs_db st) kind)"
    "contract_wf (cs_db st)" using w(4) d(3) w(1) .
  show "0 < table_rows (cs_db st) (fst k)" if "tbl_find (cd_secondary (cs_db st) kind) k = Some obj" for k obj
    using that by (rule table_rows_secondary_pos)
  fix k obj t assume get: "cache_get iterator (cs_itr_cache st kind) = Inr k" and obj: "tbl_find (cd_secondary (cs_db st) kind) k = Some obj"
    and t: "tbl_find (cd_tables (cs_db st)) (fst k) = Some t"
  define q where "q = (if payer = 0 then io_payer obj else payer)"
  define row where "row = \<lparr>io_payer = q, io_secondary_key = secondary\<rparr>"
  define new_rows where "new_rows = tbl_insert k row (cd_secondary (cs_db st) kind)"
  define db' where "db' = (cs_db st)\<lparr>cd_secondary := (cd_secondary (cs_db st))(kind := new_rows)\<rparr>"
  define size where "size = billable_size_index_object kind"
  have s62: "size < 2 ^ 62" unfolding size_def by (rule billable_size_index_object_less)
  have wf': "contract_wf db'"
  proof (rule contract_wf_replace[OF w(1)])
    show "table_rows db' i = table_rows (cs_db st) i" for i
      by (rule table_rows_secondary_replace[OF d(3) obj]) (simp_all add: db'_def new_rows_def)
    show "length (kv_value o') < 2 ^ 32" if "tbl_find (cd_rows db') l = Some o'" for l o'
      using that d(9)[of l o'] by (simp add: db'_def)
  qed (use d(2,3) in \<open>simp_all add: db'_def new_rows_def\<close>)
  have ram: "contract_ram db' a + (if a = io_payer obj then size else 0) = contract_ram (cs_db st) a + (if a = q then size else 0)" for a
    using contract_ram_secondary[of db' "cs_db st" kind new_rows a] tbl_sum_insert_old[OF d(3) obj, of
        "\<lambda>r. if io_payer (snd r) = a then billable_size_index_object kind else 0" row]
    by (auto simp: db'_def new_rows_def row_def size_def split: if_splits)
  have keys: "fst ` set new_rows = fst ` set (cd_secondary (cs_db st) kind)"
    using tbl_find_Some_mem[OF obj] by (force simp: new_rows_def)
  have "safely (kept st) (res_bind
      (if io_payer obj \<noteq> q then res_bind (update_db_usage env (io_payer obj) (- word_of_nat size) st) (update_db_usage env q (word_of_nat size))
       else if (word_of_nat size :: i64) \<noteq> word_of_nat size then update_db_usage env (io_payer obj) (word_of_nat size - word_of_nat size) st
       else Inr st)
      (\<lambda>st. let db = cs_db st in Inr (st\<lparr>cs_db := db\<lparr>cd_secondary := (cd_secondary db)(kind :=
           tbl_insert k \<lparr>io_payer = q, io_secondary_key = secondary\<rparr> (cd_secondary db kind))\<rparr>\<rparr>)))"
  proof (rule safely_bind[OF safely_rebill[OF w(2) s62 s62]])
    fix st1 assume st1: "rebilled st st1 \<and> (\<forall>a. billed_ram (cs_resources st1) a = billed_ram (cs_resources st) a
        - (if a = io_payer obj then int size else 0) + (if a = q then int size else 0))"
    note r' = st1[THEN conjunct1, unfolded rebilled_def]
    have "other_ram (st1\<lparr>cs_db := db'\<rparr>) a = other_ram st a" for a
      using st1 ram[of a] by (auto simp: other_ram_def split: if_splits)
    moreover have "contract_state_wf (st1\<lparr>cs_db := db'\<rparr>)"
      using wf' r' w(3,4) unfolding contract_state_wf_but_def by (simp add: db'_def keys)
    ultimately show "safely (kept st) (let db = cs_db st1 in Inr (st1\<lparr>cs_db := db\<lparr>cd_secondary := (cd_secondary db)(kind :=
           tbl_insert k \<lparr>io_payer = q, io_secondary_key = secondary\<rparr> (cd_secondary db kind))\<rparr>\<rparr>))"
      using r' by (simp add: Let_def kept_def db'_def new_rows_def row_def)
  qed
  then show "safely (kept st) (eos_assert (ti_code t = ae_receiver env) table_access_violation
     (let payer = (if payer = 0 then io_payer obj else payer);
          billing_size = word_of_nat (billable_size_index_object kind) :: i64
      in res_bind
           (if io_payer obj \<noteq> payer then
              res_bind (update_db_usage env (io_payer obj) (- billing_size) st) (update_db_usage env payer billing_size)
            else Inr st) (\<lambda>st.
         let db = cs_db st in
         Inr (st\<lparr>cs_db := db\<lparr>cd_secondary := (cd_secondary db)(kind :=
           tbl_insert k \<lparr>io_payer = payer, io_secondary_key = secondary\<rparr> (cd_secondary db kind))\<rparr>\<rparr>))))"
    unfolding Let_def size_def q_def by (intro safely_assert) (simp_all cong: if_cong)
qed

section \<open>Searches and walks\<close>

lemma set_insert_before: "set (insert_before before x xs) = insert x (set xs)"
  by (induction xs) auto

lemma set_by_secondary: "set (by_secondary fl db kind) = set (cd_secondary db kind)"
proof -
  have "set (foldr (insert_before before) xs []) = set xs" for before and xs :: "(row_key \<times> index_object) list"
    by (induction xs) (auto simp: set_insert_before)
  then show ?thesis by (simp add: by_secondary_def)
qed

lemma find_fst_mem: "map_option fst (find P xs) = Some k \<Longrightarrow> k \<in> fst ` set xs"
  by (auto dest!: find_SomeD simp: rev_image_eqI)

lemma kept_keyval:
  "contract_state_wf st \<Longrightarrow> cache_wf (fst ` set (cd_rows (cs_db st))) c \<Longrightarrow> kept st (st\<lparr>cs_keyval_cache := c\<rparr>)"
  by (simp add: kept_def contract_state_wf_but_def other_ram_def)

lemma kept_itr:
  "contract_state_wf st \<Longrightarrow> cache_wf (fst ` set (cd_secondary (cs_db st) kind)) c \<Longrightarrow>
   kept st (st\<lparr>cs_itr_cache := (cs_itr_cache st)(kind := c)\<rparr>)"
  by (simp add: kept_def contract_state_wf_but_def other_ram_def)

lemma kept_refl: "contract_state_wf st \<Longrightarrow> kept st st"
  by (simp add: kept_def)

lemma kept_db_search:
  assumes "contract_state_wf st" and "\<And>t k. search t = Some k \<Longrightarrow> k \<in> fst ` set (cd_rows (cs_db st))"
  shows "kept st (snd (db_search search code scope tab st))"
proof (cases "find_table (cs_db st) code scope tab")
  case None
  then show ?thesis using assms(1) by (simp add: db_search_def kept_refl)
next
  case (Some t)
  obtain i k c where f: "iterator_found t (search t) (cs_keyval_cache st) = (i, k, c)" by (cases "iterator_found t (search t) (cs_keyval_cache st)")
  have "cache_wf (fst ` set (cd_rows (cs_db st))) c"
    by (rule iterator_found_wf[OF contract_state_wf_butD(3)[OF assms(1)] _ f]) (rule assms(2))
  then show ?thesis using Some f kept_keyval[OF assms(1)] by (simp add: db_search_def)
qed

lemma kept_index_search:
  assumes "contract_state_wf st" and "\<And>t k. search t = Some k \<Longrightarrow> k \<in> fst ` set (cd_secondary (cs_db st) kind)"
  shows "kept st (snd (snd (index_search kind search code scope tab st)))"
proof (cases "find_table (cs_db st) code scope tab")
  case None
  then show ?thesis using assms(1) by (simp add: index_search_def kept_refl)
next
  case (Some t)
  obtain i k c where f: "iterator_found t (search t) (cs_itr_cache st kind) = (i, k, c)" by (cases "iterator_found t (search t) (cs_itr_cache st kind)")
  have "cache_wf (fst ` set (cd_secondary (cs_db st) kind)) c"
    by (rule iterator_found_wf[OF contract_state_wf_butD(4)[OF assms(1)] _ f]) (rule assms(2))
  then show ?thesis using Some f kept_itr[OF assms(1)] by (simp add: index_search_def)
qed

lemma safely_walk:
  assumes "r \<in> Inl ` {invalid_table_iterator, table_operation_not_permitted} \<or>
    (\<exists>j p c'. r = Inr (j, p, c') \<and> cache_wf K c')"
  shows "safely (\<lambda>(j, p, c'). cache_wf K c') r"
  using assms by auto

lemma safely_db_next_i64:
  assumes "contract_state_wf st" shows "safely (\<lambda>(i, p, st'). kept st st') (db_next_i64 iterator st)"
  unfolding db_next_i64_def
  by (rule safely_bind[OF safely_walk[OF iterator_next_safe[OF contract_state_wf_butD(3)[OF assms]]]])
    (auto simp: by_scope_primary_def kept_keyval[OF assms])

lemma safely_db_previous_i64:
  assumes "contract_state_wf st" and "\<not> stale_end_iterator (cd_tables (cs_db st)) (cs_keyval_cache st) iterator"
  shows "safely (\<lambda>(i, p, st'). kept st st') (db_previous_i64 iterator st)"
  unfolding db_previous_i64_def
  by (rule safely_bind[OF safely_walk[OF iterator_previous_safe[OF contract_state_wf_butD(3)[OF assms(1)] _ assms(2)]]])
    (auto simp: by_scope_primary_def kept_keyval[OF assms(1)])

lemma safely_index_next:
  assumes "contract_state_wf st" and "set order = fst ` set (cd_secondary (cs_db st) kind)"
  shows "safely (\<lambda>(i, p, st'). kept st st') (index_walk kind (iterator_next order iterator) st)"
  unfolding index_walk_def
  by (rule safely_bind[OF safely_walk[OF iterator_next_safe[OF contract_state_wf_butD(4)[OF assms(1)] assms(2)]]])
    (auto simp: kept_itr[OF assms(1)])

lemma safely_index_previous:
  assumes "contract_state_wf st" and "set order = fst ` set (cd_secondary (cs_db st) kind)"
    and "\<not> stale_end_iterator (cd_tables (cs_db st)) (cs_itr_cache st kind) iterator"
  shows "safely (\<lambda>(i, p, st'). kept st st') (index_walk kind (iterator_previous (cd_tables (cs_db st)) order iterator) st)"
  unfolding index_walk_def
  by (rule safely_bind[OF safely_walk[OF iterator_previous_safe[OF contract_state_wf_butD(4)[OF assms(1)] assms(2,3)]]])
    (auto simp: kept_itr[OF assms(1)])

lemma safely_db_get_i64:
  assumes "contract_state_wf st" shows "safely (\<lambda>_. True) (db_get_i64 iterator n st)"
proof (cases "cache_get iterator (cs_keyval_cache st)")
  case (Inl e)
  then show ?thesis using cache_get_errors[OF Inl] by (auto simp: db_get_i64_def)
next
  case (Inr k)
  then obtain obj where "tbl_find (cd_rows (cs_db st)) k = Some obj"
    using cache_get_cached(1)[OF contract_state_wf_butD(3)[OF assms] Inr] tbl_find_None[of "cd_rows (cs_db st)" k]
    by (cases "tbl_find (cd_rows (cs_db st)) k") auto
  then show ?thesis using Inr by (simp add: db_get_i64_def deref_def Let_def)
qed

lemma safely_index_get:
  assumes "contract_state_wf st" shows "safely (\<lambda>_. True) (index_get kind iterator st)"
proof (cases "cache_get iterator (cs_itr_cache st kind)")
  case (Inl e)
  then show ?thesis using cache_get_errors[OF Inl] by (auto simp: index_get_def)
next
  case (Inr k)
  then obtain obj where "tbl_find (cd_secondary (cs_db st) kind) k = Some obj"
    using cache_get_cached(1)[OF contract_state_wf_butD(4)[OF assms] Inr] tbl_find_None[of "cd_secondary (cs_db st) kind" k]
    by (cases "tbl_find (cd_secondary (cs_db st) kind) k") auto
  then show ?thesis using Inr by (simp add: index_get_def deref_def)
qed

section \<open>Calls of a contract\<close>

text \<open>
  The calls that a contract makes on its tables, in any order and with any arguments. The buffers lie in
  the 32-bit memory of the contract.
\<close>

abbreviation db_api_exception :: exn where
  "db_api_exception \<equiv> exception_class ''db_api_exception''"

abbreviation wasm_exception :: exn where
  "wasm_exception \<equiv> exception_class ''wasm_exception''"

text \<open>
  A secondary key as the contract passes it: a value, or an array that must have two elements. Not-a-number is
  no key. An argument of another type than the index has does not exist in the code; the model refuses it.
\<close>

datatype secondary_data = secondary_value secondary_key | secondary_array "u128 list"

definition idx256_array_size :: nat where
  "idx256_array_size = 2"

fun secondary_argument :: "float_library \<Rightarrow> index_kind \<Rightarrow> secondary_data \<Rightarrow> secondary_key res" where
  "secondary_argument fl idx64 (secondary_value (key64 k)) = Inr (key64 k)"
| "secondary_argument fl idx128 (secondary_value (key128 k)) = Inr (key128 k)"
| "secondary_argument fl idx256 (secondary_array data) =
     eos_assert (length data = idx256_array_size) db_api_exception (Inr (key256 (data ! 0) (data ! 1)))"
| "secondary_argument fl idx_double (secondary_value (key_double k)) =
     eos_assert (\<not> f64_is_nan fl k) transaction_exception (Inr (key_double k))"
| "secondary_argument fl idx_long_double (secondary_value (key_long_double k)) =
     eos_assert (\<not> f128_is_nan fl k) transaction_exception (Inr (key_long_double k))"
| "secondary_argument fl _ _ = Inl wasm_exception"

datatype index_call =
    Idx_store name name name u64 secondary_data
  | Idx_update int name secondary_data
  | Idx_remove int
  | Idx_find_secondary name name name secondary_data
  | Idx_find_primary name name name secondary_data u64
  | Idx_lowerbound name name name secondary_data
  | Idx_upperbound name name name secondary_data
  | Idx_end name name name
  | Idx_next int
  | Idx_previous int

datatype contract_call =
    Db_store name name name u64 bytes
  | Db_update int name bytes
  | Db_remove int
  | Db_get int nat
  | Db_next int
  | Db_previous int
  | Db_find name name name u64
  | Db_lowerbound name name name u64
  | Db_upperbound name name name u64
  | Db_end name name name
  | Index_call index_kind index_call

fun run_index_call :: "float_library \<Rightarrow> apply_env \<Rightarrow> index_kind \<Rightarrow> index_call \<Rightarrow> contract_state \<Rightarrow> contract_state res" where
  "run_index_call fl env kind (Idx_store scope tab payer i data) st =
     res_bind (secondary_argument fl kind data) (\<lambda>secondary. map_sum id snd (index_store kind env scope tab payer i secondary st))"
| "run_index_call fl env kind (Idx_update iterator payer data) st =
     res_bind (secondary_argument fl kind data) (\<lambda>secondary. index_update kind env iterator payer secondary st)"
| "run_index_call fl env kind (Idx_remove iterator) st = index_remove kind env iterator st"
| "run_index_call fl env kind (Idx_find_secondary code scope tab data) st =
     res_bind (secondary_argument fl kind data) (\<lambda>secondary. Inr (snd (snd (find_secondary fl kind code scope tab secondary st))))"
| "run_index_call fl env kind (Idx_find_primary code scope tab data primary) st =
     eos_assert (case data of secondary_value k \<Rightarrow> True | secondary_array d \<Rightarrow> length d = idx256_array_size) db_api_exception
     (Inr (snd (snd (find_primary kind code scope tab primary st))))"
| "run_index_call fl env kind (Idx_lowerbound code scope tab data) st =
     res_bind (secondary_argument fl kind data) (\<lambda>secondary. Inr (snd (snd (lowerbound_secondary fl kind code scope tab secondary st))))"
| "run_index_call fl env kind (Idx_upperbound code scope tab data) st =
     res_bind (secondary_argument fl kind data) (\<lambda>secondary. Inr (snd (snd (upperbound_secondary fl kind code scope tab secondary st))))"
| "run_index_call fl env kind (Idx_end code scope tab) st = Inr (snd (snd (end_secondary kind code scope tab st)))"
| "run_index_call fl env kind (Idx_next iterator) st = map_sum id (snd \<circ> snd) (next_secondary fl kind iterator st)"
| "run_index_call fl env kind (Idx_previous iterator) st = map_sum id (snd \<circ> snd) (previous_secondary fl kind iterator st)"

fun run_call :: "float_library \<Rightarrow> apply_env \<Rightarrow> contract_call \<Rightarrow> contract_state \<Rightarrow> contract_state res" where
  "run_call fl env (Db_store scope tab payer i buffer) st =
     map_sum id snd (db_store_i64 env (ae_receiver env) scope tab payer i buffer st)"
| "run_call fl env (Db_update iterator payer buffer) st = db_update_i64 env iterator payer buffer st"
| "run_call fl env (Db_remove iterator) st = db_remove_i64 env iterator st"
| "run_call fl env (Db_get iterator n) st = map_sum id (\<lambda>_. st) (db_get_i64 iterator n st)"
| "run_call fl env (Db_next iterator) st = map_sum id (snd \<circ> snd) (db_next_i64 iterator st)"
| "run_call fl env (Db_previous iterator) st = map_sum id (snd \<circ> snd) (db_previous_i64 iterator st)"
| "run_call fl env (Db_find code scope tab i) st = Inr (snd (db_find_i64 code scope tab i st))"
| "run_call fl env (Db_lowerbound code scope tab i) st = Inr (snd (db_lowerbound_i64 code scope tab i st))"
| "run_call fl env (Db_upperbound code scope tab i) st = Inr (snd (db_upperbound_i64 code scope tab i st))"
| "run_call fl env (Db_end code scope tab) st = Inr (snd (db_end_i64 code scope tab st))"
| "run_call fl env (Index_call kind call) st = run_index_call fl env kind call st"

text \<open>The bounds: a buffer of less than 4 GiB, and tables whose 32-bit counts can still count one more row.\<close>

definition call_bounded :: "contract_call \<Rightarrow> contract_state \<Rightarrow> bool" where
  "call_bounded call st \<longleftrightarrow> list_all (\<lambda>r. ti_count (snd r) \<noteq> -1) (cd_tables (cs_db st)) \<and>
     (case call of Db_store _ _ _ _ buffer \<Rightarrow> length buffer < 2 ^ 32 | Db_update _ _ buffer \<Rightarrow> length buffer < 2 ^ 32 | _ \<Rightarrow> True)"

lemma safely_map_sum: "safely (\<lambda>x. P (f x)) r \<Longrightarrow> safely P (map_sum id f r)"
  by (cases r) simp_all

lemma call_bounded_rows:
  assumes "contract_state_wf st" and "call_bounded call st"
  shows "table_rows (cs_db st) i < 2 ^ 32 - 1"
proof (cases "tbl_find (cd_tables (cs_db st)) i")
  case None
  then have "table_rows (cs_db st) i = 0"
    using contract_wf_butD(7)[OF contract_state_wf_butD(1)[OF assms(1)], of i] by auto
  then show ?thesis by simp
next
  case (Some t)
  then have "ti_count t \<noteq> -1" using assms(2) tbl_find_Some_mem[OF Some] by (auto simp: call_bounded_def list_all_iff)
  then have "unat (ti_count t) \<noteq> unat (-1 :: u32)" by (simp only: word_unat_eq_iff not_False_eq_True)
  moreover have "unat (ti_count t) < 2 ^ 32" using unsigned_less[of "ti_count t", where ?'a = nat] by simp
  ultimately show ?thesis
    using contract_wf_butD(5)[OF contract_state_wf_butD(1)[OF assms(1)] Some] by (simp add: unsigned_minus_1_eq_mask mask_eq_exp_minus_1)
qed

lemma safely_secondary_argument: "safely (\<lambda>_. True) (secondary_argument fl kind data)"
  by (cases "(fl, kind, data)" rule: secondary_argument.cases) (auto intro!: safely_assert)

text \<open>The calls that walk backwards from such an iterator, and no other calls, have no defined result.\<close>

fun walks_from_stale_end :: "contract_call \<Rightarrow> contract_state \<Rightarrow> bool" where
  "walks_from_stale_end (Db_previous iterator) st \<longleftrightarrow>
     stale_end_iterator (cd_tables (cs_db st)) (cs_keyval_cache st) iterator"
| "walks_from_stale_end (Index_call kind (Idx_previous iterator)) st \<longleftrightarrow>
     stale_end_iterator (cd_tables (cs_db st)) (cs_itr_cache st kind) iterator"
| "walks_from_stale_end _ st \<longleftrightarrow> False"

lemma run_call_stale: "walks_from_stale_end call st \<Longrightarrow> run_call fl env call st = Inl undefined_behavior"
  by (induction call st rule: walks_from_stale_end.induct)
    (simp_all add: db_previous_i64_def previous_secondary_def index_walk_def iterator_previous_stale)

lemma safely_run_index_call:
  assumes "contract_state_wf st" and "\<And>i. table_rows (cs_db st) i < 2 ^ 32 - 1"
    and "\<not> walks_from_stale_end (Index_call kind call) st"
  shows "safely (kept st) (run_index_call fl env kind call st)"
proof (cases call)
  case (Idx_store scope tab payer i data)
  have "safely (kept st) (map_sum id snd (index_store kind env scope tab payer i secondary st))" for secondary
    using safely_index_store[OF assms(1,2)] by (auto simp: case_prod_unfold intro!: safely_map_sum)
  then show ?thesis by (auto simp: Idx_store intro!: safely_bind[OF safely_secondary_argument])
next
  case (Idx_update iterator payer data)
  then show ?thesis using safely_index_update[OF assms(1)] by (auto intro!: safely_bind[OF safely_secondary_argument])
next
  case (Idx_remove iterator)
  then show ?thesis using safely_index_remove[OF assms(1)] by simp
next
  case (Idx_next iterator)
  then show ?thesis using safely_index_next[OF assms(1), of "map fst (by_secondary fl (cs_db st) kind)" kind]
    by (auto simp: case_prod_unfold next_secondary_def set_by_secondary intro!: safely_map_sum)
next
  case (Idx_previous iterator)
  then show ?thesis using safely_index_previous[OF assms(1), of "map fst (by_secondary fl (cs_db st) kind)" kind] assms(3)
    by (auto simp: case_prod_unfold previous_secondary_def set_by_secondary intro!: safely_map_sum)
qed (auto simp: find_secondary_def lowerbound_secondary_def upperbound_secondary_def end_secondary_def find_primary_def
    by_primary_def set_by_secondary rev_image_eqI dest!: find_SomeD
    intro!: safely_bind[OF safely_secondary_argument] safely_assert kept_index_search[OF assms(1)])

lemma safely_run_call:
  assumes "contract_state_wf st" and "call_bounded call st" and "\<not> walks_from_stale_end call st"
  shows "safely (kept st) (run_call fl env call st)"
proof (cases call)
  case (Db_store scope tab payer i buffer)
  then show ?thesis
    using safely_db_store_i64[OF assms(1) call_bounded_rows[OF assms(1,2)], of buffer] assms(2)
    by (auto simp: call_bounded_def case_prod_unfold intro!: safely_map_sum)
next
  case (Db_update iterator payer buffer)
  then show ?thesis using safely_db_update_i64[OF assms(1), of buffer] assms(2) by (simp add: call_bounded_def)
next
  case (Db_get iterator n)
  then show ?thesis using safely_mono[OF safely_db_get_i64[OF assms(1)]] kept_refl[OF assms(1)]
    by (auto intro!: safely_map_sum)
next
  case (Db_next iterator)
  then show ?thesis using safely_db_next_i64[OF assms(1)] by (auto simp: case_prod_unfold intro!: safely_map_sum)
next
  case (Db_previous iterator)
  then show ?thesis using safely_db_previous_i64[OF assms(1)] assms(3) by (auto simp: case_prod_unfold intro!: safely_map_sum)
next
  case (Db_remove iterator)
  then show ?thesis using safely_db_remove_i64[OF assms(1)] by simp
next
  case (Index_call kind call)
  then show ?thesis using safely_run_index_call[OF assms(1) call_bounded_rows[OF assms(1,2)]] assms(3) by simp
qed (auto simp: db_find_i64_def db_lowerbound_i64_def db_upperbound_i64_def db_end_i64_def by_scope_primary_def rev_image_eqI
    dest!: find_SomeD intro!: kept_db_search[OF assms(1)])

lemma kept_run_call:
  assumes "contract_state_wf st" and "call_bounded call st" and "run_call fl env call st = Inr st'"
  shows "kept st st'"
proof -
  have "\<not> walks_from_stale_end call st" using run_call_stale[of call st fl env] assms(3) by auto
  from safely_run_call[OF assms(1,2) this, of fl env] show ?thesis using assms(3) by simp
qed

end
