(* ===== verification/Contract_Properties.thy ===== *)
theory Contract_Properties
  imports Contract_Indices
begin

text \<open>
  The properties of the contract tables, for every sequence of calls that contracts make in any number of
  actions.
\<close>

section \<open>Reachable states\<close>

definition contract_start :: "resource_db \<Rightarrow> contract_state" where
  "contract_start rl = \<lparr>cs_resources = rl,
     cs_db = \<lparr>cd_tables = [], cd_next_table = 0, cd_rows = [], cd_secondary = \<lambda>_. []\<rparr>,
     cs_keyval_cache = iterator_cache_empty, cs_itr_cache = \<lambda>_. iterator_cache_empty,
     cs_account_ram_deltas = [], cs_validate_ram_usage = {}\<rparr>"

text \<open>
  A call within an action, and the start of another action: a new context has empty caches, and whatever
  happened to the resources in between is none of the tables' business. The conversions between indices and
  iterators have as precondition that a cache does not outgrow the \<^verbatim>\<open>int\<close> iterators.
\<close>

definition caches_fit :: "contract_state \<Rightarrow> bool" where
  "caches_fit st \<longleftrightarrow> cache_fits (cs_keyval_cache st) \<and> list_all (\<lambda>kind. cache_fits (cs_itr_cache st kind)) index_kinds"

inductive contract_step :: "float_library \<Rightarrow> contract_state \<Rightarrow> contract_state \<Rightarrow> bool" for fl where
  "call_bounded call st \<Longrightarrow> run_call fl env call st = Inr st' \<Longrightarrow> caches_fit st' \<Longrightarrow> contract_step fl st st'"

inductive contract_reachable :: "float_library \<Rightarrow> contract_state \<Rightarrow> bool" for fl where
  contract_reachable_start: "rl_reachable rl \<Longrightarrow> contract_reachable fl (contract_start rl)"
| contract_reachable_step: "contract_reachable fl st \<Longrightarrow> contract_step fl st st' \<Longrightarrow> contract_reachable fl st'"
| contract_reachable_context: "contract_reachable fl st \<Longrightarrow> rl_reachable rl \<Longrightarrow>
    contract_reachable fl (contract_start rl \<lparr>cs_db := cs_db st\<rparr>)"

lemma kept_step: "contract_state_wf st \<Longrightarrow> contract_step fl st st' \<Longrightarrow> kept st st'"
proof (elim contract_step.cases)
  fix call s env s' assume "contract_state_wf st" "st = s" "st' = s'" "call_bounded call s" "run_call fl env call s = Inr s'"
  then show ?thesis using kept_run_call[of s call fl env] by simp
qed

lemma contract_reachable_fits: "contract_reachable fl st \<Longrightarrow> caches_fit st"
  by (induction rule: contract_reachable.induct)
    (auto simp: caches_fit_def contract_start_def list_all_iff elim: contract_step.cases)

lemma rl_reachable_usage: "rl_reachable rl \<Longrightarrow> tbl_wf (rl_usage rl)"
  using rl_inv_reachable[of rl] by (simp add: rl_inv_def)

lemma contract_reachable_wf: "contract_reachable fl st \<Longrightarrow> contract_state_wf st"
proof (induction rule: contract_reachable.induct)
  case (contract_reachable_start rl)
  then show ?case
    by (simp add: contract_state_wf_but_def contract_start_def contract_wf_but_def table_rows_def sum_kinds_def
        index_kinds_def rl_reachable_usage)
next
  case (contract_reachable_step st st')
  then show ?case using kept_step by (simp add: kept_def)
next
  case (contract_reachable_context st rl)
  then show ?case by (simp add: contract_state_wf_but_def contract_start_def rl_reachable_usage)
qed

section \<open>Two rows of a contract\<close>

definition example_floats :: float_library where
  "example_floats = \<lparr>f64_lt = (\<lambda>a b. a < b), f128_lt = (\<lambda>a b. a < b),
     f64_is_nan = (\<lambda>a. False), f128_is_nan = (\<lambda>a. False)\<rparr>"

definition example_apply_env :: apply_env where
  "example_apply_env = \<lparr>ae_receiver = 1, ae_act = \<lparr>act_account = 1, act_name = 3, act_authorization = [], act_data = []\<rparr>,
     ae_privileged = False, ae_ram_restrictions = True, ae_ram_billing_in_notify_allowed = False\<rparr>"

abbreviation example_call :: "u64 \<Rightarrow> bytes \<Rightarrow> contract_call" where
  "example_call \<equiv> Db_store 5 6 1"

definition example_stored_one :: contract_state where
  "example_stored_one = res_value (contract_start example_db)
     (run_call example_floats example_apply_env (example_call 7 [1, 2, 3]) (contract_start example_db))"

definition example_stored :: contract_state where
  "example_stored = res_value (contract_start example_db)
     (run_call example_floats example_apply_env (example_call 9 [4]) example_stored_one)"

lemma example_stored_one_Inr:
  "run_call example_floats example_apply_env (example_call 7 [1, 2, 3]) (contract_start example_db) = Inr example_stored_one"
  unfolding example_stored_one_def by (rule res_value_Inr) code_simp

lemma example_stored_Inr:
  "run_call example_floats example_apply_env (example_call 9 [4]) example_stored_one = Inr example_stored"
  unfolding example_stored_def by (rule res_value_Inr) code_simp

lemma example_stored_bounded:
  "call_bounded (example_call 7 [1, 2, 3]) (contract_start example_db)"
  "call_bounded (example_call 9 [4]) example_stored_one" "call_bounded (Db_remove 0) example_stored"
proof -
  have "list_all (\<lambda>r. ti_count (snd r) \<noteq> -1) (cd_tables (cs_db (contract_start example_db)))"
    "list_all (\<lambda>r. ti_count (snd r) \<noteq> -1) (cd_tables (cs_db example_stored_one))"
    "list_all (\<lambda>r. ti_count (snd r) \<noteq> -1) (cd_tables (cs_db example_stored))"
    by code_simp+
  then show "call_bounded (example_call 7 [1, 2, 3]) (contract_start example_db)"
    "call_bounded (example_call 9 [4]) example_stored_one" "call_bounded (Db_remove 0) example_stored"
    by (simp_all add: call_bounded_def)
qed

lemma example_stored_fits: "caches_fit example_stored_one" "caches_fit example_stored"
proof -
  have "list_all (\<lambda>c. length (ic_end_iterator_to_table c) \<le> 1 \<and> length (ic_iterator_to_object c) \<le> 2)
      (cs_keyval_cache example_stored_one # map (cs_itr_cache example_stored_one) index_kinds)"
    "list_all (\<lambda>c. length (ic_end_iterator_to_table c) \<le> 1 \<and> length (ic_iterator_to_object c) \<le> 2)
      (cs_keyval_cache example_stored # map (cs_itr_cache example_stored) index_kinds)"
    by code_simp+
  then show "caches_fit example_stored_one" "caches_fit example_stored"
    by (auto simp: caches_fit_def cache_fits_def list_all_iff)
qed

lemma example_stored_steps:
  "contract_step example_floats (contract_start example_db) example_stored_one"
  "contract_step example_floats example_stored_one example_stored"
  using contract_step.intros[OF example_stored_bounded(1) example_stored_one_Inr example_stored_fits(1)]
    contract_step.intros[OF example_stored_bounded(2) example_stored_Inr example_stored_fits(2)] .

lemma example_contract_reachable:
  "contract_reachable example_floats (contract_start example_db)" "contract_reachable example_floats example_stored"
  using contract_reachable_start[OF example_reachable, of example_floats] example_stored_steps
  by (blast intro: contract_reachable_step)+

text \<open>One row stored and removed again in the same action.\<close>

definition example_removed :: contract_state where
  "example_removed = res_value (contract_start example_db)
     (run_call example_floats example_apply_env (Db_remove 0) example_stored_one)"

lemma example_removed_Inr:
  "run_call example_floats example_apply_env (Db_remove 0) example_stored_one = Inr example_removed"
  unfolding example_removed_def by (rule res_value_Inr) code_simp

lemma example_removed_count: "list_all (\<lambda>r. ti_count (snd r) \<noteq> -1) (cd_tables (cs_db example_removed))"
  by code_simp

lemma example_removed_reachable: "contract_reachable example_floats example_removed"
proof -
  have "list_all (\<lambda>c. length (ic_end_iterator_to_table c) \<le> 1 \<and> length (ic_iterator_to_object c) \<le> 2)
      (cs_keyval_cache example_removed # map (cs_itr_cache example_removed) index_kinds)" by code_simp
  then have f: "caches_fit example_removed" by (auto simp: caches_fit_def cache_fits_def list_all_iff)
  have "call_bounded (Db_remove 0) example_stored_one" using example_stored_bounded(2) by (simp add: call_bounded_def)
  from contract_step.intros[OF this example_removed_Inr f] show ?thesis
    using contract_reachable_start[OF example_reachable, of example_floats] example_stored_steps(1)
    by (blast intro: contract_reachable_step)
qed

lemma example_rows: "(0, 7) \<in> set (by_scope_primary (cs_db example_stored))"
  by code_simp

section \<open>The tables\<close>

text \<open>
  C38. Whatever calls contracts make, the count of every table is the number of its rows in the primary and in
  all secondary indices, a table exists exactly while it has rows, and no two tables have the same code, scope and
  name.
\<close>

theorem contract_tables_exact:
  assumes "contract_reachable fl st"
  shows "(\<forall>i t. tbl_find (cd_tables (cs_db st)) i = Some t \<longrightarrow>
      unat (ti_count t) = length (filter (\<lambda>k. fst k = i) (by_scope_primary (cs_db st))) +
        sum_kinds (\<lambda>kind. length (filter (\<lambda>k. fst k = i) (by_primary (cs_db st) kind))) \<and> 0 < unat (ti_count t)) \<and>
    (\<forall>k. k \<in> set (by_scope_primary (cs_db st)) \<or> (\<exists>kind. k \<in> set (by_primary (cs_db st) kind)) \<longrightarrow>
      (\<exists>t. tbl_find (cd_tables (cs_db st)) (fst k) = Some t)) \<and>
    (\<forall>i t j u. tbl_find (cd_tables (cs_db st)) i = Some t \<and> tbl_find (cd_tables (cs_db st)) j = Some u \<and>
      ti_code t = ti_code u \<and> ti_scope t = ti_scope u \<and> ti_table t = ti_table u \<longrightarrow> i = j)"
proof -
  note d = contract_wf_butD[OF contract_state_wf_butD(1)[OF contract_reachable_wf[OF assms]]]
  have len: "length (filter (\<lambda>k. fst k = i) (map fst rows)) = tbl_sum (\<lambda>r. of_bool (fst (fst r) = i)) rows"
    for rows :: "(row_key \<times> 'a) list" and i by (induction rows) auto
  have rows: "table_rows (cs_db st) i = length (filter (\<lambda>k. fst k = i) (by_scope_primary (cs_db st))) +
      sum_kinds (\<lambda>kind. length (filter (\<lambda>k. fst k = i) (by_primary (cs_db st) kind)))" for i
    unfolding table_rows_def by_scope_primary_def by_primary_def len ..
  have ex: "\<exists>t. tbl_find (cd_tables (cs_db st)) (fst k) = Some t" if "0 < table_rows (cs_db st) (fst k)" for k
    using d(7)[OF that] by auto
  have prim: "0 < table_rows (cs_db st) (fst k)" if "k \<in> set (by_scope_primary (cs_db st))" for k
    using that tbl_find_None[of "cd_rows (cs_db st)" k] table_rows_pos[of "cs_db st" k] by (auto simp: by_scope_primary_def)
  have sec: "0 < table_rows (cs_db st) (fst k)" if "k \<in> set (by_primary (cs_db st) kind)" for k kind
    using that tbl_find_None[of "cd_secondary (cs_db st) kind" k] table_rows_secondary_pos[of "cs_db st" kind k]
    by (auto simp: by_primary_def)
  show ?thesis
  proof (intro conjI allI impI)
    fix i t assume t: "tbl_find (cd_tables (cs_db st)) i = Some t"
    show "unat (ti_count t) = length (filter (\<lambda>k. fst k = i) (by_scope_primary (cs_db st))) +
        sum_kinds (\<lambda>kind. length (filter (\<lambda>k. fst k = i) (by_primary (cs_db st) kind)))"
      using d(5)[OF t] rows by simp
    show "0 < unat (ti_count t)" using d(5)[OF t] d(6)[OF t] by simp
  next
    fix k assume "k \<in> set (by_scope_primary (cs_db st)) \<or> (\<exists>kind. k \<in> set (by_primary (cs_db st) kind))"
    then show "\<exists>t. tbl_find (cd_tables (cs_db st)) (fst k) = Some t" using ex prim sec by blast
  next
    fix i t j u assume "tbl_find (cd_tables (cs_db st)) i = Some t \<and> tbl_find (cd_tables (cs_db st)) j = Some u \<and>
      ti_code t = ti_code u \<and> ti_scope t = ti_scope u \<and> ti_table t = ti_table u"
    then show "i = j" using d(8) by blast
  qed
qed

theorem contract_tables_exact_witness:
  "contract_reachable example_floats example_stored \<and>
   (\<exists>t. tbl_find (cd_tables (cs_db example_stored)) 0 = Some t \<and> unat (ti_count t) = 2)"
proof -
  obtain t where t: "tbl_find (cd_tables (cs_db example_stored)) 0 = Some t"
    using contract_tables_exact[OF example_contract_reachable(2), THEN conjunct2, THEN conjunct1, rule_format, of "(0, 7)"]
    example_rows by auto
  have "length (filter (\<lambda>k. fst k = 0) (by_scope_primary (cs_db example_stored))) +
      sum_kinds (\<lambda>kind. length (filter (\<lambda>k. fst k = 0) (by_primary (cs_db example_stored) kind))) = 2" by code_simp
  then have "unat (ti_count t) = 2"
    using contract_tables_exact[OF example_contract_reachable(2), THEN conjunct1, rule_format, OF t] by simp
  then show ?thesis using t example_contract_reachable(2) by blast
qed

text \<open>
  C36. Along any sequence of calls the RAM billed to an account changes by exactly the bytes of the tables and
  rows that the account pays for: nothing is charged twice, and a removal gives back what was charged.
\<close>

theorem contract_ram_exact:
  assumes "contract_reachable fl st" and "(contract_step fl)\<^sup>*\<^sup>* st st'"
  shows "billed_ram (cs_resources st') a - billed_ram (cs_resources st) a =
    int (contract_ram (cs_db st') a) - int (contract_ram (cs_db st) a)"
proof -
  have "contract_state_wf st' \<and> other_ram st' a = other_ram st a" using assms(2)
  proof (induction rule: rtranclp_induct)
    case base
    then show ?case using contract_reachable_wf[OF assms(1)] by simp
  next
    case (step y z)
    then show ?case using kept_step[of y fl z] by (simp add: kept_def)
  qed
  then show ?thesis by (simp add: other_ram_def)
qed

theorem contract_ram_exact_witness:
  "(contract_step example_floats)\<^sup>*\<^sup>* (contract_start example_db) example_stored \<and>
   billed_ram (cs_resources example_stored) 1 - billed_ram (cs_resources (contract_start example_db)) 1 = 340"
proof -
  have s: "(contract_step example_floats)\<^sup>*\<^sup>* (contract_start example_db) example_stored"
    using example_stored_steps by (meson rtranclp.rtrancl_into_rtrancl rtranclp.rtrancl_refl)
  have "contract_ram (cs_db example_stored) 1 = 340" "contract_ram (cs_db (contract_start example_db)) 1 = 0" by code_simp+
  then show ?thesis using contract_ram_exact[OF example_contract_reachable(1) s, of 1] s by simp
qed

text \<open>
  C37. Whatever iterator and arguments a call on the tables is given, it finds the table of a cached row in the
  cache of iterators, where the code asserts an invariant, and it reads no row and no table that is gone and computes
  no number that overflows, with exactly two exceptions: a walk backwards from the end iterator of a table whose last
  row was removed in the same action reads the id of the removed table, and a walk backwards from the least \<^verbatim>\<open>int\<close>
  negates it.
\<close>

theorem contract_iterators_valid:
  assumes "contract_reachable fl st" and "call_bounded call st"
  shows "run_call fl env call st \<noteq> Inl table_not_in_cache \<and>
    (run_call fl env call st = Inl undefined_behavior \<longleftrightarrow>
       (\<exists>iterator c. (call = Db_previous iterator \<and> c = cs_keyval_cache st \<or>
           (\<exists>kind. call = Index_call kind (Idx_previous iterator) \<and> c = cs_itr_cache st kind)) \<and>
         (iterator \<le> - (2 ^ 31) \<or> (\<exists>j < length (ic_end_iterator_to_table c). iterator = - int j - 2 \<and>
            tbl_find (cd_tables (cs_db st)) (ic_end_iterator_to_table c ! j) = None))))"
proof -
  have stale: "walks_from_stale_end call st \<longleftrightarrow>
       (\<exists>iterator c. (call = Db_previous iterator \<and> c = cs_keyval_cache st \<or>
           (\<exists>kind. call = Index_call kind (Idx_previous iterator) \<and> c = cs_itr_cache st kind)) \<and>
         (iterator \<le> - (2 ^ 31) \<or> (\<exists>j < length (ic_end_iterator_to_table c). iterator = - int j - 2 \<and>
            tbl_find (cd_tables (cs_db st)) (ic_end_iterator_to_table c ! j) = None)))"
    by (cases "(call, st)" rule: walks_from_stale_end.cases)
      (auto simp: stale_end_iterator_def int_min_def index_to_end_iterator_def)
  have "run_call fl env call st \<noteq> Inl table_not_in_cache \<and>
      (run_call fl env call st = Inl undefined_behavior \<longleftrightarrow> walks_from_stale_end call st)"
    using safely_run_call[OF contract_reachable_wf[OF assms(1)] assms(2), of fl env] run_call_stale[of call st fl env]
    by (cases "run_call fl env call st") auto
  then show ?thesis unfolding stale .
qed

theorem contract_iterators_valid_witness:
  "contract_reachable example_floats example_stored \<and>
   run_call example_floats example_apply_env (Db_remove 0) example_stored \<noteq> Inl undefined_behavior \<and>
   contract_reachable example_floats example_removed \<and>
   run_call example_floats example_apply_env (Db_previous (-2)) example_removed = Inl undefined_behavior"
proof -
  have t: "ic_end_iterator_to_table (cs_keyval_cache example_removed) = [0]"
    "tbl_find (cd_tables (cs_db example_removed)) 0 = None" by code_simp+
  have "call_bounded (Db_previous (-2)) example_removed" unfolding call_bounded_def
    by (simp add: example_removed_count)
  from contract_iterators_valid[OF example_removed_reachable this, of example_apply_env]
  have "run_call example_floats example_apply_env (Db_previous (-2)) example_removed = Inl undefined_behavior"
    using t by simp
  then show ?thesis
    using contract_iterators_valid[OF example_contract_reachable(2) example_stored_bounded(3), of example_apply_env]
      example_contract_reachable(2) example_removed_reachable by simp
qed

section \<open>Reading what was written\<close>

lemma find_table_unique:
  assumes "contract_wf_but X db" and "tbl_find (cd_tables db) i = Some t"
    and "ti_code t = code" "ti_scope t = scope" "ti_table t = tab"
  shows "find_table db code scope tab = Some i"
proof (cases "find_table db code scope tab")
  case None
  then show ?thesis using tbl_find_Some_mem[OF assms(2)] assms(3-5) by (auto simp: find_table_def find_None_iff)
next
  case (Some j)
  then obtain u where u: "(j, u) \<in> set (cd_tables db)" "ti_code u = code" "ti_scope u = scope" "ti_table u = tab"
    using find_table_Some by blast
  have "tbl_find (cd_tables db) j = Some u" using tbl_find_mem[OF contract_wf_butD(1)[OF assms(1)] u(1)] .
  then have "i = j" using contract_wf_butD(8)[OF assms(1,2)] u(2-4) assms(3-5) by simp
  then show ?thesis using Some by simp
qed

lemma update_db_usage_keeps:
  assumes "update_db_usage env p d st = Inr st'"
  shows "cs_db st' = cs_db st" "cs_keyval_cache st' = cs_keyval_cache st"
  using assms by (auto simp: update_db_usage_def add_ram_usage_def trx_add_ram_usage_def)

lemma find_or_create_table_names:
  assumes "contract_state_wf st" and "find_or_create_table env code scope tab payer st = Inr (i, st')"
  shows "\<exists>t. tbl_find (cd_tables (cs_db st')) i = Some t \<and> ti_code t = code \<and> ti_scope t = scope \<and> ti_table t = tab"
    "cs_keyval_cache st' = cs_keyval_cache st"
proof -
  note w = contract_state_wf_butD[OF assms(1)]
  have "(\<exists>t. tbl_find (cd_tables (cs_db st')) i = Some t \<and> ti_code t = code \<and> ti_scope t = scope \<and> ti_table t = tab) \<and>
    cs_keyval_cache st' = cs_keyval_cache st"
  proof (cases "find_table (cs_db st) code scope tab")
    case None
    then obtain st1 where st1: "update_db_usage env payer (word_of_nat billable_size_table_id_object) st = Inr st1"
        "i = cd_next_table (cs_db st1)" "st' = st1\<lparr>cs_db := (cs_db st1)\<lparr>cd_tables := tbl_insert i
          \<lparr>ti_code = code, ti_scope = scope, ti_table = tab, ti_payer = payer, ti_count = 0\<rparr> (cd_tables (cs_db st1)),
          cd_next_table := Suc i\<rparr>\<rparr>"
      using assms(2) by (auto simp: find_or_create_table_def Let_def)
    show ?thesis using st1(3) update_db_usage_keeps[OF st1(1)] contract_wf_butD(1)[OF w(1)] by simp
  next
    case (Some j)
    then have "i = j" "st' = st" using assms(2) by (simp_all add: find_or_create_table_def)
    then show ?thesis using find_table_Some[OF Some] tbl_find_mem[OF contract_wf_butD(1)[OF w(1)]] by blast
  qed
  then show "\<exists>t. tbl_find (cd_tables (cs_db st')) i = Some t \<and> ti_code t = code \<and> ti_scope t = scope \<and> ti_table t = tab"
    "cs_keyval_cache st' = cs_keyval_cache st" by blast+
qed

lemma db_store_i64_result:
  assumes "contract_state_wf st" and "db_store_i64 env code scope tab payer pk buffer st = Inr (itr, st')"
  shows "\<exists>i t c ei. tbl_find (cd_tables (cs_db st')) i = Some t \<and> ti_code t = code \<and> ti_scope t = scope \<and> ti_table t = tab \<and>
    tbl_find (cd_rows (cs_db st')) (i, pk) = Some \<lparr>kv_payer = payer, kv_value = buffer\<rparr> \<and>
    cache_table i (cs_keyval_cache st) = (ei, c) \<and> cache_add (i, pk) c = (itr, cs_keyval_cache st')"
proof -
  obtain i st1 rows db st2 where f: "find_or_create_table env code scope tab payer st = Inr (i, st1)"
    and c: "tbl_create (i, pk) \<lparr>kv_payer = payer, kv_value = buffer\<rparr> (cd_rows (cs_db st1)) = Inr rows"
    and n: "increment_count i ((cs_db st1)\<lparr>cd_rows := rows\<rparr>) = Inr db"
    and u: "update_db_usage env payer (word_of_nat (length buffer + billable_size_key_value_object)) (st1\<lparr>cs_db := db\<rparr>) = Inr st2"
    and e: "(let (ei, c) = cache_table i (cs_keyval_cache st2); (itr, c) = cache_add (i, pk) c
      in (Inr (itr, st2\<lparr>cs_keyval_cache := c\<rparr>) :: (int \<times> contract_state) res)) = Inr (itr, st')"
    using assms(2) unfolding db_store_i64_def by (auto simp: Let_def simp del: tbl_create_Inr)
  have w1: "contract_state_wf_but {i} st1" and rows1: "cd_rows (cs_db st1) = cd_rows (cs_db st)"
    using safely_find_or_create_table[OF assms(1), of env code scope tab payer] f by simp_all
  note wd = contract_state_wf_butD[OF w1]
  obtain t where t: "tbl_find (cd_tables (cs_db st1)) i = Some t" "ti_code t = code" "ti_scope t = scope" "ti_table t = tab"
    using find_or_create_table_names(1)[OF assms(1) f] by blast
  have db: "db = (cs_db st1)\<lparr>cd_rows := rows, cd_tables := tbl_insert i (t\<lparr>ti_count := ti_count t + 1\<rparr>) (cd_tables (cs_db st1))\<rparr>"
    using n t(1) by (simp add: increment_count_def deref_def)
  have k: "cs_db st2 = db" "cs_keyval_cache st2 = cs_keyval_cache st"
    using update_db_usage_keeps[OF u] find_or_create_table_names(2)[OF assms(1) f] by simp_all
  obtain ei c1 c2 where cc: "cache_table i (cs_keyval_cache st) = (ei, c1)" "cache_add (i, pk) c1 = (itr, c2)"
      "st' = st2\<lparr>cs_keyval_cache := c2\<rparr>"
    using e k(2) by (auto split: prod.splits)
  have "tbl_find (cd_rows (cs_db st')) (i, pk) = Some \<lparr>kv_payer = payer, kv_value = buffer\<rparr>"
    using c contract_wf_butD(2)[OF wd(1)] by (simp add: cc(3) k(1) db)
  moreover have "tbl_find (cd_tables (cs_db st')) i = Some (t\<lparr>ti_count := ti_count t + 1\<rparr>)"
    using contract_wf_butD(1)[OF wd(1)] by (simp add: cc(3) k(1) db)
  ultimately show ?thesis using cc t(2-4) by (intro exI[of _ i] exI[of _ "t\<lparr>ti_count := ti_count t + 1\<rparr>"] exI[of _ c1] exI[of _ ei]) simp
qed

lemma cache_table_again: "tbl_find (ic_table_cache c) i = Some ei \<Longrightarrow> cache_table i c = (ei, c)"
  by (simp add: cache_table_def)

lemma cache_add_again:
  assumes "cache_wf K c" and "cache_get i c = Inr k"
  shows "cache_add k c = (i, c)"
  using cache_get_cached(3)[OF assms] by (simp add: cache_add_def)

text \<open>
  C39. What a contract stores it can find and read: the search for the key returns the iterator that the
  insertion returned, and reading through it gives the size and the bytes that were stored.
\<close>

theorem db_store_find_get:
  assumes "contract_reachable fl st" and "call_bounded (Db_store scope tab payer pk buffer) st"
    and "db_store_i64 env (ae_receiver env) scope tab payer pk buffer st = Inr (itr, st')"
  shows "db_find_i64 (ae_receiver env) scope tab pk st' = (itr, st') \<and>
    db_get_i64 itr 0 st' = Inr (int (length buffer), []) \<and>
    db_get_i64 itr (Suc (length buffer)) st' = Inr (int (length buffer), buffer)"
proof -
  note wf = contract_reachable_wf[OF assms(1)]
  obtain i t c ei where r: "tbl_find (cd_tables (cs_db st')) i = Some t" "ti_code t = ae_receiver env" "ti_scope t = scope" "ti_table t = tab"
    "tbl_find (cd_rows (cs_db st')) (i, pk) = Some \<lparr>kv_payer = payer, kv_value = buffer\<rparr>"
    "cache_table i (cs_keyval_cache st) = (ei, c)" "cache_add (i, pk) c = (itr, cs_keyval_cache st')"
    using db_store_i64_result[OF wf assms(3)] by blast
  have "kept st st'" by (rule kept_run_call[OF wf assms(2), of fl env]) (simp add: assms(3))
  then have w': "contract_state_wf st'" by (simp add: kept_def)
  note wd = contract_state_wf_butD[OF w']
  have find: "find_table (cs_db st') (ae_receiver env) scope tab = Some i" by (rule find_table_unique[OF wd(1) r(1-4)])
  have mem: "(i, pk) \<in> set (by_scope_primary (cs_db st'))" using tbl_find_Some_mem[OF r(5)] by (force simp: by_scope_primary_def)
  define K where "K = insert (i, pk) (fst ` set (cd_rows (cs_db st)))"
  have cw: "cache_wf K (cs_keyval_cache st)" using contract_state_wf_butD(3)[OF wf] by (rule cache_wf_mono) (auto simp: K_def)
  note c1 = cache_wf_cache_table[OF cw r(6)]
  have k: "(i, pk) \<in> K" "tbl_find (ic_table_cache c) (fst (i, pk)) \<noteq> None" using c1(2) by (simp_all add: K_def)
  note c2 = cache_wf_cache_add[OF c1(1) k r(7)]
  have get: "cache_get itr (cs_keyval_cache st') = Inr (i, pk)" by (rule c2(2))
  have "tbl_find (ic_table_cache (cs_keyval_cache st')) i = Some ei" using c1(2) c2(4) by simp
  note again = cache_table_again[OF this] cache_add_again[OF wd(3) get]
  have "find (\<lambda>k. k = (i, pk)) (by_scope_primary (cs_db st')) = Some (i, pk)"
    using mem find_SomeD[of "\<lambda>k. k = (i, pk)" "by_scope_primary (cs_db st')"]
    by (cases "find (\<lambda>k. k = (i, pk)) (by_scope_primary (cs_db st'))") (auto simp: find_None_iff)
  then have "db_find_i64 (ae_receiver env) scope tab pk st' = (itr, st')"
    using find again by (simp add: db_find_i64_def db_search_def iterator_found_def)
  then show ?thesis using get r(5) by (simp add: db_get_i64_def deref_def Let_def)
qed

theorem db_store_find_get_witness:
  "\<exists>st'. db_store_i64 example_apply_env 1 5 6 1 7 [1, 2, 3] (contract_start example_db) = Inr (0, st') \<and>
   db_find_i64 1 5 6 7 st' = (0, st') \<and> db_get_i64 0 4 st' = Inr (3, [1, 2, 3])"
proof -
  have r: "ae_receiver example_apply_env = 1" by (simp add: example_apply_env_def)
  have f: "map_sum id fst (db_store_i64 example_apply_env 1 5 6 1 7 [1, 2, 3] (contract_start example_db)) = Inr 0" by code_simp
  then obtain st' where st': "db_store_i64 example_apply_env 1 5 6 1 7 [1, 2, 3] (contract_start example_db) = Inr (0, st')"
    by (cases "db_store_i64 example_apply_env 1 5 6 1 7 [1, 2, 3] (contract_start example_db)") auto
  have "db_store_i64 example_apply_env (ae_receiver example_apply_env) 5 6 1 7 [1, 2, 3] (contract_start example_db) = Inr (0, st')"
    using st' by (simp add: r)
  from db_store_find_get[OF example_contract_reachable(1) example_stored_bounded(1) this]
  show ?thesis using st' by (auto simp: r eval_nat_numeral)
qed

section \<open>Walking in order\<close>

lemma following_sorted:
  fixes k :: "'a::linorder"
  assumes "sorted_wrt (<) xs" and "k \<in> set xs"
  shows "case following xs k of None \<Rightarrow> \<forall>y \<in> set xs. y \<le> k
    | Some k' \<Rightarrow> k < k' \<and> k' \<in> set xs \<and> (\<forall>y \<in> set xs. y \<le> k \<or> k' \<le> y)"
  using assms
proof (induction xs k rule: following.induct)
  case (1 x y ys k)
  show ?case
  proof (cases "x = k")
    case True
    then show ?thesis using 1(2) by auto
  next
    case False
    then have "k \<in> set (y # ys)" "sorted_wrt (<) (y # ys)" and x: "x < k" using 1(2,3) by auto
    then have "case following (y # ys) k of None \<Rightarrow> \<forall>y' \<in> set (y # ys). y' \<le> k
      | Some k' \<Rightarrow> k < k' \<and> k' \<in> set (y # ys) \<and> (\<forall>y' \<in> set (y # ys). y' \<le> k \<or> k' \<le> y')" using 1(1) False by blast
    then show ?thesis using False x by (auto split: option.splits)
  qed
qed auto

text \<open>
  C40. From a row of the primary index the walk goes to the row of the same table with the next larger key, and from
  the last row of the table to the end iterator of that table.
\<close>

theorem db_next_i64_exact:
  assumes "contract_reachable fl st" and "cache_get iterator (cs_keyval_cache st) = Inr k"
  shows "\<exists>j p st'. db_next_i64 iterator st = Inr (j, p, st') \<and>
    (case p of
       None \<Rightarrow> (\<forall>q. (fst k, q) \<in> set (by_scope_primary (cs_db st)) \<longrightarrow> q \<le> snd k) \<and>
         find_table_by_end_iterator j (cs_keyval_cache st') = Inr (Some (fst k))
     | Some r \<Rightarrow> (fst k, r) \<in> set (by_scope_primary (cs_db st)) \<and> snd k < r \<and>
         (\<forall>q. (fst k, q) \<in> set (by_scope_primary (cs_db st)) \<longrightarrow> q \<le> snd k \<or> r \<le> q) \<and>
         cache_get j (cs_keyval_cache st') = Inr (fst k, r))"
proof -
  note w = contract_state_wf_butD[OF contract_reachable_wf[OF assms(1)]]
  define xs where "xs = by_scope_primary (cs_db st)"
  define c where "c = cs_keyval_cache st"
  have k: "k \<in> set xs" using cache_get_cached(1)[OF w(3) assms(2)] by (simp add: xs_def by_scope_primary_def)
  have sorted: "sorted_wrt (<) xs" using contract_wf_butD(2)[OF w(1)] by (simp add: xs_def by_scope_primary_def tbl_wf_def)
  note f = following_sorted[OF sorted k]
  have "0 \<le> iterator" using assms(2) by (simp add: cache_get_Inr)
  then have nn: "\<not> iterator < -1" by simp
  obtain ei where ei: "get_end_iterator_by_table_id (fst k) c = Inr ei" "find_table_by_end_iterator ei c = Inr (Some (fst k))"
    using get_end_iterator_cached[OF w(3) assms(2)] contract_reachable_fits[OF assms(1)] by (auto simp: c_def caches_fit_def)
  have get: "cache_get iterator c = Inr k" "index_iterator_to xs k = Inr k"
    using assms(2) k by (simp_all add: c_def index_iterator_to_def)
  show ?thesis
  proof (cases "\<exists>k'. following xs k = Some k' \<and> fst k' = fst k")
    case True
    then obtain k' where k': "following xs k = Some k'" "fst k' = fst k" by blast
    obtain j c' where a: "cache_add k' c = (j, c')" by fastforce
    have kk: "k' \<in> fst ` set (cd_rows (cs_db st))" "tbl_find (ic_table_cache c) (fst k') \<noteq> None"
      using f k' cache_get_cached(2)[OF w(3) assms(2)] by (auto simp: xs_def by_scope_primary_def c_def)
    note ca = cache_wf_cache_add[OF w(3)[folded c_def] kk a]
    have "db_next_i64 iterator st = Inr (j, Some (snd k'), st\<lparr>cs_keyval_cache := c'\<rparr>)"
      unfolding db_next_i64_def iterator_next_def xs_def[symmetric] c_def[symmetric] using nn get k' a by simp
    moreover have "(fst k, snd k') \<in> set xs" "snd k < snd k'"
        "\<forall>q. (fst k, q) \<in> set xs \<longrightarrow> q \<le> snd k \<or> snd k' \<le> q" "cache_get j c' = Inr (fst k, snd k')"
      using f k' ca(2) by (cases k; cases k'; force)+
    ultimately show ?thesis unfolding xs_def[symmetric]
      by (intro exI[of _ j] exI[of _ "Some (snd k')"] exI[of _ "st\<lparr>cs_keyval_cache := c'\<rparr>"]) simp
  next
    case False
    then have "iterator_next xs iterator c = Inr (ei, None, c)"
      using nn get ei(1) by (auto simp: iterator_next_def split: option.splits)
    then have "db_next_i64 iterator st = Inr (ei, None, st)"
      by (simp add: db_next_i64_def xs_def[symmetric] c_def)
    moreover have "\<forall>q. (fst k, q) \<in> set xs \<longrightarrow> q \<le> snd k"
    proof (intro allI impI)
      fix q assume q: "(fst k, q) \<in> set xs"
      show "q \<le> snd k"
      proof (rule ccontr)
        assume "\<not> q \<le> snd k"
        then have lt: "k < (fst k, q)" by (cases k) simp
        then obtain k' where k': "following xs k = Some k'" using f q by (cases "following xs k") auto
        then have "k < k'" "k' \<le> (fst k, q)" using f q lt by auto
        then have "fst k' = fst k" by (cases k; cases k') auto
        then show False using False k' by blast
      qed
    qed
    ultimately show ?thesis using ei(2) unfolding xs_def[symmetric] c_def
      by (intro exI[of _ ei] exI[of _ None] exI[of _ st]) simp
  qed
qed

theorem db_next_i64_exact_witness:
  "cache_get 0 (cs_keyval_cache example_stored) = Inr (0, 7) \<and>
   (\<exists>j p st'. db_next_i64 0 example_stored = Inr (j, p, st') \<and> p \<noteq> None)"
proof -
  define k :: row_key where "k = (0, 7)"
  have g: "cache_get 0 (cs_keyval_cache example_stored) = Inr (0, 7)" by code_simp
  have m: "(0, 9) \<in> set (by_scope_primary (cs_db example_stored))" by code_simp
  obtain j p st' where r: "db_next_i64 0 example_stored = Inr (j, p, st')"
      and c: "case p of
         None \<Rightarrow> (\<forall>q. (fst k, q) \<in> set (by_scope_primary (cs_db example_stored)) \<longrightarrow> q \<le> snd k) \<and>
           find_table_by_end_iterator j (cs_keyval_cache st') = Inr (Some (fst k))
       | Some r \<Rightarrow> (fst k, r) \<in> set (by_scope_primary (cs_db example_stored)) \<and> snd k < r \<and>
           (\<forall>q. (fst k, q) \<in> set (by_scope_primary (cs_db example_stored)) \<longrightarrow> q \<le> snd k \<or> r \<le> q) \<and>
           cache_get j (cs_keyval_cache st') = Inr (fst k, r)"
    using db_next_i64_exact[OF example_contract_reachable(2), of 0 k, OF g[folded k_def]] by (elim exE conjE) (rule that)
  have "p \<noteq> None"
  proof
    assume "p = None"
    then have "\<forall>q. (0, q) \<in> set (by_scope_primary (cs_db example_stored)) \<longrightarrow> q \<le> 7" using c by (simp add: k_def)
    then have "(9 :: u64) \<le> 7" using m by blast
    then show False by simp
  qed
  then show ?thesis using g r by blast
qed

end
