(* ===== verification/Spec2Isabelle.thy ===== *)
theory Spec2Isabelle
  imports Names Resource_Billing Merkle Authority_Checker Protocol_Features Header_Chain Fork_Pruning Authorization Contract_Properties
begin

text \<open>
  A verification development for the chain library of the repository (\<^verbatim>\<open>libraries/chain\<close>): the
  deterministic core of a blockchain node, which every node must execute alike.

  \<^bold>\<open>How the model is written.\<close> A function of the C++ sources is a HOL function on the same data: a
  class or struct is a record, an unsigned integer of width \<open>w\<close> is a word of that width and wraps
  around as in C++, a call that may throw returns a result (\<^const>\<open>Inl\<close> of the exception or
  \<^const>\<open>Inr\<close> of the value), and a method that changes an object takes the object and returns the
  new one. Code outside the repository (the \<^verbatim>\<open>fc\<close>, \<^verbatim>\<open>chainbase\<close> and boost libraries) is either a
  parameter of the definitions that call it, with its documented contract as a locale, or, for the
  ordered unique indices that the sources use as containers, the ordered tables of \<^verbatim>\<open>Tables\<close>.

  \<^bold>\<open>Theories.\<close>
  \<^item> \<^verbatim>\<open>Prelude\<close>: machine integers, exceptions, results, loops whose body may throw.
  \<^item> \<^verbatim>\<open>Tables\<close>: ordered indices with unique keys.
  \<^item> \<^verbatim>\<open>Names\<close>: the 64-bit account names of \<^verbatim>\<open>name.hpp\<close> and \<^verbatim>\<open>name.cpp\<close>. Printing and parsing
    are inverse to each other on every name and every normalised string.
  \<^item> \<^verbatim>\<open>Accumulators\<close>: the usage accumulators and elastic limits of \<^verbatim>\<open>resource_limits_private.hpp\<close>,
    with their exact meaning over the naturals.
  \<^item> \<^verbatim>\<open>Resource_Limits\<close>, \<^verbatim>\<open>Resource_Billing\<close>: the resource limits manager of
    \<^verbatim>\<open>resource_limits.cpp\<close>; the invariant of its reachable databases, and what each operation
    guarantees.
  \<^item> \<^verbatim>\<open>Merkle\<close>: the batch Merkle root of \<^verbatim>\<open>merkle.cpp\<close> and the incremental tree of
    \<^verbatim>\<open>incremental_merkle.hpp\<close>; both compute the same root.
  \<^item> \<^verbatim>\<open>Authority\<close>: authorities and producer schedules of \<^verbatim>\<open>authority.hpp\<close> and
    \<^verbatim>\<open>producer_schedule.hpp\<close>; what validation accepts.
  \<^item> \<^verbatim>\<open>Authority_Checker\<close>: the recursive check of \<^verbatim>\<open>authority_checker.hpp\<close>; it accepts only
    what the provided keys, permissions and delay derive.
  \<^item> \<^verbatim>\<open>Protocol_Features\<close>: the builtin features, the set of recognised features and the
    activation manager of \<^verbatim>\<open>protocol_feature_manager.cpp\<close>; its two records of what is
    active agree, and returning to a block undoes later activations exactly.
  \<^item> \<^verbatim>\<open>Block_Headers\<close>: block timestamps, headers, ids and header extensions; the number of a
    block can be read from its id, and slots survive the conversion to time points.
  \<^item> \<^verbatim>\<open>Block_Header_State\<close>, \<^verbatim>\<open>Header_Chain\<close>: the state machine of \<^verbatim>\<open>block_header_state.cpp\<close> that validates
    headers; irreversibility by two thirds of the producers, promotion of schedules, signatures, and
    that made and signed headers are accepted.
  \<^item> \<open>Blocks\<close>: receipts, signed blocks and their extensions (\<open>block.hpp\<close>, \<open>block.cpp\<close>) and block states
    (\<open>block_state.cpp\<close>). A block that one node produces is accepted by every node that receives it.
  \<^item> \<open>Index_Orders\<close>, \<open>Fork_Database\<close>, \<open>Fork_Branches\<close>, \<open>Fork_Pruning\<close>: the fork database (\<open>fork_database.cpp\<close>), its
    two-part index order, every operation and the file it is saved in. The database stays a tree with the best
    validated block as head, the branches between two blocks are found, and both pruning operations
    refine their specifications in terms of descendants.
  \<^item> \<^verbatim>\<open>Transactions\<close>: actions, transactions and their packed form (\<^verbatim>\<open>action.hpp\<close>, \<^verbatim>\<open>transaction.cpp\<close>); a packed
    transaction is restored by the node that receives it.
  \<^item> \<^verbatim>\<open>Permissions\<close>, \<^verbatim>\<open>Permission_Tree\<close>: the permissions of accounts and the operations of the authorization
    manager on them; they form a forest, and the comparison of permissions decides its order.
  \<^item> \<^verbatim>\<open>Authorization\<close>: the checks of \<^verbatim>\<open>authorization_manager.cpp\<close>; what a successful check of a transaction
    guarantees.
  \<^item> \<^verbatim>\<open>apply_context\<close> (tables): \<^verbatim>\<open>Contract_Tables.thy\<close> has the tables in which contracts keep their data, with the cache of
    iterators and the billing of RAM; \<^verbatim>\<open>Iterator_Cache.thy\<close>, \<^verbatim>\<open>Contract_Storage.thy\<close>, \<^verbatim>\<open>Contract_Operations.thy\<close> and
    \<^verbatim>\<open>Contract_Indices.thy\<close> prove that every call keeps the invariant of the tables and of the iterators and bills exactly what
    it changes; \<^verbatim>\<open>Contract_Properties.thy\<close> states the properties for every sequence of calls.

  \<^bold>\<open>Interfaces.\<close> Where a component relies on a contract of another one, or of a library, the contract is a locale
  whose laws are proved for the model's own definitions by an interpretation in the theory that provides them.

  \<^bold>\<open>Loops and bounds.\<close> A loop over a list or a table is structural recursion. The walk from a permission to its root and
  the removal of a block's descendants take fuel: the number of rows bounds the length of a path in a forest, and each block
  is expanded once, so the fuel given is enough; the theorems on both show that the result is returned. The recursion
  of the authority checker is bounded by the depth limit that the code itself checks. The properties of the contract
  tables suppose that a buffer has less than \<open>2 ^ 32\<close> bytes, as the memory of a contract does, that the 32-bit count
  of rows of a table is not at its maximum, which the code does not check, and that the cache of an action does not outgrow
  its \<^verbatim>\<open>int\<close> iterators, which the code states as a precondition.

  \<^bold>\<open>Undefined behaviour and exceptions.\<close> Where the code reads an object that is gone, or negates the least signed integer, the
  model returns \<^term>\<open>Inl undefined_behavior\<close>; the theorems on contract tables and on RAM say exactly when this happens. An
  exception carries no state, as the changes of a transaction or block that throws are discarded with its session. The
  fork database has no sessions: of the operations on an open one only \<^verbatim>\<open>advance_root\<close> can throw after a change,
  \<^const>\<open>advance_root_left\<close> is what it then leaves, and the reachable databases are those of the calls that return.

  \<^bold>\<open>Not modelled.\<close> Execution of WebAssembly code, the wall clock and its deadlines, signals, threads and undo sessions,
  files (block log, snapshots), logging, conversion to and from variants and JSON, the plugins and programs around the chain
  library, and the libraries of other repositories. They are input and output, or they depend on code that is not in the
  sources; the chain configuration, the block time and the callbacks that modelled code reads from them are its arguments.
\<close>

end
